(* ===== verification/Driver_Prelude.thy ===== *)
theory Driver_Prelude
  imports Complex_Main "HOL-Library.Word"
begin

unbundle bit_operations_syntax

text \<open>
  Shared vocabulary of the development: the machine integers of the Rust sources, the
  error type of the protocol crate (\<^verbatim>\<open>crates/oracledb-protocol/src/lib.rs\<close>), checked
  \<^verbatim>\<open>usize\<close> arithmetic, the big-endian byte conversions of the Rust standard library, and
  the generic lemmas on lists and words that the component theories use.

  A \<^verbatim>\<open>usize\<close> is a \<open>nat\<close>; where the code uses \<^verbatim>\<open>checked_add\<close> or \<^verbatim>\<open>checked_mul\<close>
  the 64-bit bound is written out. Fixed-width integers that reach the wire are words.
\<close>

named_theorems wire_simps \<open>evaluation of the wire codecs on concrete input\<close>
named_theorems be_simps \<open>big-endian conversions\<close>

subsection \<open>Machine integers\<close>

type_synonym byte = "8 word"
type_synonym u16 = "16 word"
type_synonym u32 = "32 word"
type_synonym u64 = "64 word"

definition usize_max :: nat where
  "usize_max = 2 ^ 64 - 1"

definition checked_add_usize :: "nat \<Rightarrow> nat \<Rightarrow> nat option" where
  "checked_add_usize a b = (if a + b \<le> usize_max then Some (a + b) else None)"

definition checked_mul_usize :: "nat \<Rightarrow> nat \<Rightarrow> nat option" where
  "checked_mul_usize a b = (if a * b \<le> usize_max then Some (a * b) else None)"

lemma checked_add_usize_Some [simp]:
  "checked_add_usize a b = Some c \<longleftrightarrow> c = a + b \<and> a + b \<le> usize_max"
  by (auto simp: checked_add_usize_def)

lemma checked_add_usize_None [simp]:
  "checked_add_usize a b = None \<longleftrightarrow> usize_max < a + b"
  by (auto simp: checked_add_usize_def)

lemma checked_mul_usize_Some [simp]:
  "checked_mul_usize a b = Some c \<longleftrightarrow> c = a * b \<and> a * b \<le> usize_max"
  by (auto simp: checked_mul_usize_def)

lemma checked_mul_usize_None [simp]:
  "checked_mul_usize a b = None \<longleftrightarrow> usize_max < a * b"
  by (auto simp: checked_mul_usize_def)

lemma unat_u32_usize [simp]: "unat (w :: u32) \<le> usize_max"
proof -
  have "unat w < 2 ^ 32" using unsigned_less [of w] by simp
  then show ?thesis by (simp add: usize_max_def)
qed

lemma unat_byte_less [simp]: "unat (b :: byte) < 256"
  using unsigned_less [of b] by simp

subsection \<open>Errors of the protocol crate\<close>

text \<open>
  \<^verbatim>\<open>ProtocolError\<close> with the source's constructors. The text payloads are the message
  literals of the code.
\<close>

record server_error_details =
  se_message :: string
  se_code :: u32
  se_cursor_id :: u32
  se_pos :: u32
  se_row_count :: u64
  se_rowid :: "string option"
  se_array_dml_row_counts :: "u64 list option"

datatype protocol_error =
    TruncatedHeader nat
  | InvalidPacketLength nat nat
  | IncompletePacket nat nat
  | PacketTooLarge nat
  | UnsupportedVersion u16 u16
  | InvalidClientIdentity string string
  | InvalidConnectDescriptor string
  | TtcDecode string
  | UnknownMessageType byte nat
  | ResourceLimit string nat nat
  | ServerError string
  | ServerErrorWithRowCount string u64
  | ServerErrorInfo server_error_details
  | UnsupportedFeature string
  | MissingAuthParameter string
  | UnsupportedVerifier u32
  | InvalidAesKey
  | InvalidServerResponse
  | ValueTooLarge nat u32 string u64
  | NullsNotAllowed string u64
  | DirectPathLoadTooMuchData
  | NotImplemented string
  | OsonNotEncoded string
  | OsonInvalid string
  | OsonTypeNotSupported string

type_synonym 'a res = "protocol_error + 'a"

text \<open>The \<^verbatim>\<open>?\<close> operator: continue on success, return the error otherwise.\<close>

definition ebind :: "('e + 'a) \<Rightarrow> ('a \<Rightarrow> 'e + 'b) \<Rightarrow> 'e + 'b" where
  "ebind m f = (case m of Inl e \<Rightarrow> Inl e | Inr x \<Rightarrow> f x)"

lemma ebind_simps [simp]:
  "ebind (Inl e) f = Inl e"
  "ebind (Inr x) f = f x"
  by (simp_all add: ebind_def)

lemma ebind_Inr_iff: "ebind m f = Inr y \<longleftrightarrow> (\<exists>x. m = Inr x \<and> f x = Inr y)"
  by (cases m) auto

lemma ebind_cong [fundef_cong]:
  "m = m' \<Longrightarrow> (\<And>x. m' = Inr x \<Longrightarrow> f x = f' x) \<Longrightarrow> ebind m f = ebind m' f'"
  by (cases m') auto

text \<open>
  Stateful fallible code: a step takes the reader and returns the result together with the
  reader as the code leaves it, also when it fails.
\<close>

type_synonym ('s, 'a) step = "'s \<Rightarrow> 'a res \<times> 's"

definition rret :: "'a \<Rightarrow> ('s, 'a) step" where
  "rret x r = (Inr x, r)"

definition rlift :: "'a res \<Rightarrow> ('s, 'a) step" where
  "rlift x r = (x, r)"

definition rbind :: "('s, 'a) step \<Rightarrow> ('a \<Rightarrow> ('s, 'b) step) \<Rightarrow> ('s, 'b) step" where
  "rbind m f r = (case m r of (Inl e, r') \<Rightarrow> (Inl e, r') | (Inr x, r') \<Rightarrow> f x r')"

lemma rret_apply [simp]: "rret x r = (Inr x, r)"
  by (simp add: rret_def)

lemma rlift_apply [simp]: "rlift x r = (x, r)"
  by (simp add: rlift_def)

lemma rbind_Inr: "m r = (Inr x, r') \<Longrightarrow> rbind m f r = f x r'"
  by (simp add: rbind_def)

lemma rbind_Inl: "m r = (Inl e, r') \<Longrightarrow> rbind m f r = (Inl e, r')"
  by (simp add: rbind_def)

lemma rbind_rlift [simp]:
  "rbind (rlift (Inr x)) f r = f x r"
  "rbind (rlift (Inl e)) f r = (Inl e, r)"
  by (simp_all add: rbind_def)

lemma rbind_rret [simp]: "rbind (rret x) f r = f x r"
  by (simp add: rbind_def)

lemma rbind_InrE:
  assumes "rbind m f r = (Inr y, r')"
  obtains x r1 where "m r = (Inr x, r1)" "f x r1 = (Inr y, r')"
  using assms by (auto simp: rbind_def split: prod.splits sum.splits)

lemma rbind_cases:
  obtains (fail) e r1 where "m r = (Inl e, r1)" "rbind m f r = (Inl e, r1)"
    | (ok) x r1 where "m r = (Inr x, r1)" "rbind m f r = f x r1"
proof (cases "m r")
  case (Pair a r1)
  then show thesis
    using that by (cases a) (auto simp: rbind_def)
qed

lemma rbind_fundef_cong [fundef_cong]:
  "m r = m' r' \<Longrightarrow> (\<And>x s. m' r' = (Inr x, s) \<Longrightarrow> f x s = f' x s) \<Longrightarrow> rbind m f r = rbind m' f' r'"
  by (auto simp: rbind_def split: prod.splits sum.splits)

definition ok_or :: "'e \<Rightarrow> 'a option \<Rightarrow> 'e + 'a" where
  "ok_or e x = (case x of None \<Rightarrow> Inl e | Some v \<Rightarrow> Inr v)"

lemma ok_or_simps [simp]:
  "ok_or e None = Inl e"
  "ok_or e (Some v) = Inr v"
  by (simp_all add: ok_or_def)

subsection \<open>Big-endian conversions\<close>

text \<open>
  \<open>be_nat\<close> is the number a big-endian byte sequence denotes, \<open>be_bytes k n\<close> the \<open>k\<close>
  low bytes of \<open>n\<close>, most significant first. Rust's \<^verbatim>\<open>to_be_bytes\<close> of a \<open>k\<close>-byte
  integer is \<open>be_bytes k\<close> of its value and \<^verbatim>\<open>from_be_bytes\<close> is \<open>of_nat \<circ> be_nat\<close>.
\<close>

definition be_nat :: "byte list \<Rightarrow> nat" where
  "be_nat bs = foldl (\<lambda>a b. a * 256 + unat b) 0 bs"

fun be_bytes :: "nat \<Rightarrow> nat \<Rightarrow> byte list" where
  "be_bytes 0 n = []"
| "be_bytes (Suc k) n = be_bytes k (n div 256) @ [of_nat n]"

lemma be_nat_Nil [simp]: "be_nat [] = 0"
  by (simp add: be_nat_def)

lemma be_nat_snoc [simp]: "be_nat (bs @ [b]) = be_nat bs * 256 + unat b"
  by (simp add: be_nat_def)

lemma foldl_be_nat:
  "foldl (\<lambda>a b. a * 256 + unat (b :: byte)) acc bs = acc * 256 ^ length bs + be_nat bs"
  by (induction bs arbitrary: acc rule: rev_induct) (simp_all add: distrib_right)

lemma be_nat_Cons [simp]: "be_nat (b # bs) = unat b * 256 ^ length bs + be_nat bs"
  using foldl_be_nat [of "unat b" bs] by (simp add: be_nat_def)

lemma length_be_bytes [simp]: "length (be_bytes k n) = k"
  by (induction k arbitrary: n) auto

lemma be_bytes_0_iff [simp]: "be_bytes k n = [] \<longleftrightarrow> k = 0"
  by (cases k) auto

lemma be_nat_less: "be_nat bs < 256 ^ length bs"
proof (induction bs rule: rev_induct)
  case Nil
  then show ?case by simp
next
  case (snoc b bs)
  have "be_nat bs * 256 + unat b < be_nat bs * 256 + 256"
    by simp
  also have "\<dots> = (be_nat bs + 1) * 256" by simp
  also have "\<dots> \<le> 256 ^ length bs * 256"
    using snoc by (intro mult_right_mono) auto
  finally show ?case by simp
qed

lemma unat_of_nat_byte [simp]: "unat (of_nat n :: byte) = n mod 256"
  by (simp add: unat_of_nat)

lemma be_nat_be_bytes [be_simps]: "be_nat (be_bytes k n) = n mod 256 ^ k"
proof (induction k arbitrary: n)
  case 0
  then show ?case by simp
next
  case (Suc k)
  have "n mod (256 * 256 ^ k) = 256 * (n div 256 mod 256 ^ k) + n mod 256"
    by (simp add: mod_mult2_eq)
  then show ?case by (simp add: Suc)
qed

lemma be_bytes_be_nat [be_simps]: "be_bytes (length bs) (be_nat bs) = bs"
proof (induction bs rule: rev_induct)
  case Nil
  then show ?case by simp
next
  case (snoc b bs)
  have "(be_nat bs * 256 + unat b) div 256 = be_nat bs"
    by (simp add: div_mult_self3)
  moreover have "(of_nat (be_nat bs * 256 + unat b) :: byte) = b"
    by (simp add: word_unat_eq_iff del: of_nat_add of_nat_mult)
  ultimately show ?case using snoc by simp
qed

lemma be_nat_inj: "length xs = length ys \<Longrightarrow> be_nat xs = be_nat ys \<Longrightarrow> xs = ys"
  by (metis be_bytes_be_nat)

end
