(* ===== verification/Version_Gates.thy ===== *)
theory Version_Gates
  imports Driver_Prelude
begin

text \<open>
  The TTC field-version gates
  (\<^verbatim>\<open>crates/oracledb-protocol/src/thin/version_gates.rs\<close>): for each version-dependent
  wire field, whether a connection that negotiated the given field version carries it.
\<close>

named_theorems gate_defs \<open>definitions of the version gates\<close>

definition writes_pipeline_token :: "byte \<Rightarrow> bool" where
  [gate_defs]: "writes_pipeline_token v \<longleftrightarrow> 18 \<le> v"

definition carries_oaccolid :: "byte \<Rightarrow> bool" where
  [gate_defs]: "carries_oaccolid v \<longleftrightarrow> 8 \<le> v"

definition writes_al8sqlsig :: "byte \<Rightarrow> bool" where
  [gate_defs]: "writes_al8sqlsig v \<longleftrightarrow> 8 \<le> v"

definition writes_execute_chunk_ids :: "byte \<Rightarrow> bool" where
  [gate_defs]: "writes_execute_chunk_ids v \<longleftrightarrow> 9 \<le> v"

definition reads_error_sql_type_and_checksum :: "byte \<Rightarrow> bool" where
  [gate_defs]: "reads_error_sql_type_and_checksum v \<longleftrightarrow> 14 \<le> v"

definition writes_aq_json_payload :: "byte \<Rightarrow> bool" where
  [gate_defs]: "writes_aq_json_payload v \<longleftrightarrow> 14 \<le> v"

definition carries_aq_shard_id :: "byte \<Rightarrow> bool" where
  [gate_defs]: "carries_aq_shard_id v \<longleftrightarrow> 16 \<le> v"

definition reads_column_domain :: "byte \<Rightarrow> bool" where
  [gate_defs]: "reads_column_domain v \<longleftrightarrow> 17 \<le> v"

definition reads_column_annotations :: "byte \<Rightarrow> bool" where
  [gate_defs]: "reads_column_annotations v \<longleftrightarrow> 20 \<le> v"

definition reads_column_vector_metadata :: "byte \<Rightarrow> bool" where
  [gate_defs]: "reads_column_vector_metadata v \<longleftrightarrow> 24 \<le> v"

definition writes_subscribe_client_id_block :: "byte \<Rightarrow> bool" where
  [gate_defs]: "writes_subscribe_client_id_block v \<longleftrightarrow> 7 \<le> v"

definition reads_subscribe_response_details :: "byte \<Rightarrow> bool" where
  [gate_defs]: "reads_subscribe_response_details v \<longleftrightarrow> 7 \<le> v"

end
