(* ===== verification/Protocol_Limits.thy ===== *)
theory Protocol_Limits
  imports Driver_Prelude
begin

text \<open>
  The resource policy of the protocol crate
  (\<^verbatim>\<open>crates/oracledb-protocol/src/wire.rs\<close>, \<^verbatim>\<open>ProtocolLimits\<close> and the
  \<^verbatim>\<open>BoundedReader\<close> trait): the eleven limits, their validation, the checks, and the
  allocation bound that every count-driven decoder goes through. The trait is the locale
  \<open>bounded_reader\<close>; each reader of the crate that is modelled interprets it.
\<close>

subsection \<open>The policy record\<close>

record protocol_limits =
  max_packet_bytes :: nat
  max_frame_bytes :: nat
  max_response_bytes :: nat
  max_columns :: nat
  max_binds :: nat
  max_batch_rows :: nat
  max_object_depth :: nat
  max_object_elements :: nat
  max_vector_dimensions :: nat
  max_lob_chunks :: nat
  max_length_prefixed_elements :: nat

definition default_limits :: protocol_limits where
  "default_limits = \<lparr>
     max_packet_bytes = 16 * (1024 * 1024),
     max_frame_bytes = 16 * (1024 * 1024),
     max_response_bytes = 256 * (1024 * 1024),
     max_columns = 4096,
     max_binds = 65535,
     max_batch_rows = 1000000,
     max_object_depth = 256,
     max_object_elements = 1000000,
     max_vector_dimensions = 1000000,
     max_lob_chunks = 1000000,
     max_length_prefixed_elements = 1000000\<rparr>"

definition named_limits :: "protocol_limits \<Rightarrow> (string \<times> nat) list" where
  "named_limits l =
     [(''packet_bytes'', max_packet_bytes l),
      (''frame_bytes'', max_frame_bytes l),
      (''response_bytes'', max_response_bytes l),
      (''columns'', max_columns l),
      (''binds'', max_binds l),
      (''batch_rows'', max_batch_rows l),
      (''object_depth'', max_object_depth l),
      (''object_elements'', max_object_elements l),
      (''vector_dimensions'', max_vector_dimensions l),
      (''lob_chunks'', max_lob_chunks l),
      (''length_prefixed_elements'', max_length_prefixed_elements l)]"

text \<open>\<^verbatim>\<open>validate\<close>: the loop over the named limits, then the two hierarchy checks.\<close>

fun reject_zero_limit :: "(string \<times> nat) list \<Rightarrow> unit res" where
  "reject_zero_limit [] = Inr ()"
| "reject_zero_limit ((name, value) # rest) =
     (if value = 0 then Inl (ResourceLimit name 0 1) else reject_zero_limit rest)"

definition validate :: "protocol_limits \<Rightarrow> protocol_limits res" where
  "validate l =
     ebind (reject_zero_limit (named_limits l)) (\<lambda>_.
     if max_packet_bytes l > max_frame_bytes l
     then Inl (ResourceLimit ''packet_bytes'' (max_packet_bytes l) (max_frame_bytes l))
     else if max_frame_bytes l > max_response_bytes l
     then Inl (ResourceLimit ''frame_bytes'' (max_frame_bytes l) (max_response_bytes l))
     else Inr l)"

definition check :: "string \<Rightarrow> nat \<Rightarrow> nat \<Rightarrow> unit res" where
  "check limit observed maximum =
     (if observed \<le> maximum then Inr () else Inl (ResourceLimit limit observed maximum))"

definition check_packet_bytes :: "protocol_limits \<Rightarrow> nat \<Rightarrow> unit res" where
  "check_packet_bytes l n = check ''packet_bytes'' n (max_packet_bytes l)"

definition check_frame_bytes :: "protocol_limits \<Rightarrow> nat \<Rightarrow> unit res" where
  "check_frame_bytes l n = check ''frame_bytes'' n (max_frame_bytes l)"

definition check_response_bytes :: "protocol_limits \<Rightarrow> nat \<Rightarrow> unit res" where
  "check_response_bytes l n = check ''response_bytes'' n (max_response_bytes l)"

definition check_columns :: "protocol_limits \<Rightarrow> nat \<Rightarrow> unit res" where
  "check_columns l n = check ''columns'' n (max_columns l)"

definition check_binds :: "protocol_limits \<Rightarrow> nat \<Rightarrow> unit res" where
  "check_binds l n = check ''binds'' n (max_binds l)"

definition check_batch_rows :: "protocol_limits \<Rightarrow> nat \<Rightarrow> unit res" where
  "check_batch_rows l n = check ''batch_rows'' n (max_batch_rows l)"

definition check_object_depth :: "protocol_limits \<Rightarrow> nat \<Rightarrow> unit res" where
  "check_object_depth l n = check ''object_depth'' n (max_object_depth l)"

definition check_object_elements :: "protocol_limits \<Rightarrow> nat \<Rightarrow> unit res" where
  "check_object_elements l n = check ''object_elements'' n (max_object_elements l)"

definition check_vector_dimensions :: "protocol_limits \<Rightarrow> nat \<Rightarrow> unit res" where
  "check_vector_dimensions l n = check ''vector_dimensions'' n (max_vector_dimensions l)"

definition check_lob_chunks :: "protocol_limits \<Rightarrow> nat \<Rightarrow> unit res" where
  "check_lob_chunks l n = check ''lob_chunks'' n (max_lob_chunks l)"

definition check_length_prefixed_elements :: "protocol_limits \<Rightarrow> nat \<Rightarrow> unit res" where
  "check_length_prefixed_elements l n =
     check ''length_prefixed_elements'' n (max_length_prefixed_elements l)"

subsection \<open>The allocation bound\<close>

text \<open>
  The provided methods of \<^verbatim>\<open>BoundedReader\<close> as functions of the reader's limits and
  remaining byte count. \<open>with_capacity_bounded\<close> is the reserved capacity (the returned
  vector is empty).
\<close>

definition alloc_count_checked :: "protocol_limits \<Rightarrow> nat \<Rightarrow> nat \<Rightarrow> nat \<Rightarrow> nat res" where
  "alloc_count_checked l remaining count min_bytes_per_elem =
     ebind (check_length_prefixed_elements l count) (\<lambda>_.
     let per_elem = max min_bytes_per_elem 1 in
     case checked_mul_usize count per_elem of
       Some needed \<Rightarrow>
         if needed \<le> remaining then Inr count
         else Inl (TtcDecode ''declared element count exceeds remaining buffer'')
     | None \<Rightarrow> Inl (TtcDecode ''declared element count exceeds remaining buffer''))"

definition with_capacity_bounded :: "nat \<Rightarrow> nat \<Rightarrow> nat \<Rightarrow> nat" where
  "with_capacity_bounded remaining count min_bytes_per_elem =
     min count (remaining div max min_bytes_per_elem 1)"

definition with_capacity_limited ::
  "protocol_limits \<Rightarrow> nat \<Rightarrow> nat \<Rightarrow> nat \<Rightarrow> (protocol_limits \<Rightarrow> nat \<Rightarrow> unit res) \<Rightarrow> nat res" where
  "with_capacity_limited l remaining count min_bytes_per_elem chk =
     ebind (chk l count) (\<lambda>_. Inr (with_capacity_bounded remaining count min_bytes_per_elem))"

subsection \<open>Lemmas\<close>

lemma check_Inr_iff [simp]: "check s n m = Inr u \<longleftrightarrow> n \<le> m"
  by (simp add: check_def)

lemmas check_defs =
  check_packet_bytes_def check_frame_bytes_def check_response_bytes_def check_columns_def
  check_binds_def check_batch_rows_def check_object_depth_def check_object_elements_def
  check_vector_dimensions_def check_lob_chunks_def check_length_prefixed_elements_def

lemma check_ok: "n \<le> m \<Longrightarrow> check s n m = Inr ()"
  by (simp add: check_def)

lemma reject_zero_limit_ok_iff:
  "reject_zero_limit xs = Inr () \<longleftrightarrow> (\<forall>(name, value) \<in> set xs. value \<noteq> 0)"
  by (induction xs rule: reject_zero_limit.induct) auto

lemma reject_zero_limit_error:
  "reject_zero_limit xs = Inl e \<Longrightarrow> \<exists>name. e = ResourceLimit name 0 1 \<and> (name, 0) \<in> set xs"
  by (induction xs rule: reject_zero_limit.induct) (auto split: if_splits)

text \<open>The well-formedness that \<^verbatim>\<open>validate\<close> promises.\<close>

definition limits_wf :: "protocol_limits \<Rightarrow> bool" where
  "limits_wf l \<longleftrightarrow>
     (\<forall>(name, value) \<in> set (named_limits l). 0 < value) \<and>
     max_packet_bytes l \<le> max_frame_bytes l \<and> max_frame_bytes l \<le> max_response_bytes l"

lemma validate_Inr_iff: "validate l = Inr l' \<longleftrightarrow> l' = l \<and> limits_wf l"
proof -
  have "reject_zero_limit (named_limits l) = Inr () \<longleftrightarrow>
      (\<forall>(name, value) \<in> set (named_limits l). 0 < value)"
    by (simp add: reject_zero_limit_ok_iff)
  then show ?thesis
    by (auto simp: validate_def limits_wf_def ebind_Inr_iff)
qed

lemma limits_wf_default [simp]: "limits_wf default_limits"
  by (simp add: limits_wf_def named_limits_def default_limits_def)

lemma alloc_count_checked_Inr_iff:
  "alloc_count_checked l remaining count m = Inr n \<longleftrightarrow>
     n = count \<and> count \<le> max_length_prefixed_elements l \<and>
     count * max m 1 \<le> usize_max \<and> count * max m 1 \<le> remaining"
  by (auto simp: alloc_count_checked_def Let_def check_defs ebind_Inr_iff split: option.splits)

lemma alloc_count_checked_le: "alloc_count_checked l remaining count m = Inr n \<Longrightarrow> n \<le> remaining"
proof -
  assume "alloc_count_checked l remaining count m = Inr n"
  then have "n * 1 \<le> n * max m 1" and "n * max m 1 \<le> remaining"
    by (auto simp: alloc_count_checked_Inr_iff)
  then show ?thesis by (simp only: mult_1_right order_trans)
qed

lemma with_capacity_bounded_footprint:
  "with_capacity_bounded remaining count m * max m 1 \<le> remaining"
proof -
  have "min count (remaining div max m 1) * max m 1 \<le> (remaining div max m 1) * max m 1"
    by (intro mult_right_mono) auto
  also have "\<dots> \<le> remaining" by (rule div_times_less_eq_dividend)
  finally show ?thesis by (simp add: with_capacity_bounded_def)
qed

subsection \<open>The reader interface\<close>

text \<open>
  A run of \<open>n\<close> elements of \<open>m\<close> bytes each, read one after the other: the loop a decoder
  runs after it accepted a count.
\<close>

fun read_run :: "(nat \<Rightarrow> ('r, byte list) step) \<Rightarrow> nat \<Rightarrow> nat \<Rightarrow> ('r, byte list list) step" where
  "read_run raw 0 m r = (Inr [], r)"
| "read_run raw (Suc n) m r =
     rbind (raw m) (\<lambda>x. rbind (read_run raw n m) (\<lambda>xs. rret (x # xs))) r"

text \<open>
  What the decoders rely on when they read from an untrusted buffer: a raw read that fits
  succeeds on a well-formed reader, returns exactly the bytes asked for and uses them up; a
  raw read that does not fit fails.
\<close>

locale bounded_reader =
  fixes remaining :: "'r \<Rightarrow> nat"
    and limits_of :: "'r \<Rightarrow> protocol_limits"
    and wf :: "'r \<Rightarrow> bool"
    and raw :: "nat \<Rightarrow> ('r, byte list) step"
  assumes raw_fits: "wf r \<Longrightarrow> n \<le> remaining r \<Longrightarrow>
      \<exists>bs r'. raw n r = (Inr bs, r') \<and> wf r'"
    and raw_Inr: "raw n r = (Inr bs, r') \<Longrightarrow> length bs = n \<and> n + remaining r' = remaining r"
begin

lemma raw_bound: "raw n r = (Inr bs, r') \<Longrightarrow> n \<le> remaining r"
  using raw_Inr by fastforce

lemma read_run_fits:
  "wf r \<Longrightarrow> n * m \<le> remaining r \<Longrightarrow>
   \<exists>xs r'. read_run raw n m r = (Inr xs, r') \<and> length xs = n \<and> (\<forall>x \<in> set xs. length x = m) \<and>
     n * m + remaining r' = remaining r \<and> wf r'"
proof (induction n arbitrary: r)
  case 0
  then show ?case by simp
next
  case (Suc n)
  then obtain bs r1 where 1: "raw m r = (Inr bs, r1)" "wf r1"
    using raw_fits [of r m] by auto
  with raw_Inr have 2: "length bs = m" "m + remaining r1 = remaining r" by auto
  with Suc.prems have "n * m \<le> remaining r1" by simp
  with Suc.IH 1 obtain xs r2 where
    "read_run raw n m r1 = (Inr xs, r2)" "length xs = n" "\<forall>x \<in> set xs. length x = m"
    "n * m + remaining r2 = remaining r1" "wf r2" by blast
  with 1 2 show ?case by (simp add: rbind_def)
qed

lemma read_run_bound: "read_run raw n m r = (Inr xs, r') \<Longrightarrow> n * m + remaining r' = remaining r"
proof (induction n arbitrary: r xs)
  case 0
  then show ?case by simp
next
  case (Suc n)
  then obtain bs r1 xs' where "raw m r = (Inr bs, r1)" "read_run raw n m r1 = (Inr xs', r')"
    by (auto elim!: rbind_InrE)
  with Suc.IH raw_Inr [of m r] show ?case by fastforce
qed

text \<open>
  The allocation bound is exact: for elements of at least one byte, an accepted count can be
  read to its end, and a count that can be read to its end within the policy is accepted.
\<close>

lemma alloc_count_exact:
  assumes "wf r" and "1 \<le> m" and "count \<le> max_length_prefixed_elements (limits_of r)"
    and "remaining r \<le> usize_max"
  shows "alloc_count_checked (limits_of r) (remaining r) count m = Inr count \<longleftrightarrow>
    (\<exists>xs r'. read_run raw count m r = (Inr xs, r'))"
proof
  assume "alloc_count_checked (limits_of r) (remaining r) count m = Inr count"
  with assms have "count * m \<le> remaining r"
    by (simp add: alloc_count_checked_Inr_iff max_def)
  with assms(1) read_run_fits show "\<exists>xs r'. read_run raw count m r = (Inr xs, r')" by blast
next
  assume "\<exists>xs r'. read_run raw count m r = (Inr xs, r')"
  then have "count * m \<le> remaining r" using read_run_bound by fastforce
  with assms show "alloc_count_checked (limits_of r) (remaining r) count m = Inr count"
    by (simp add: alloc_count_checked_Inr_iff max_def)
qed

end

end
