(* ===== verification/Ttc_Writer.thy ===== *)
theory Ttc_Writer
  imports Version_Gates Protocol_Limits
begin

text \<open>
  \<^verbatim>\<open>TtcWriter\<close> (\<^verbatim>\<open>crates/oracledb-protocol/src/wire.rs\<close>): the record holds the
  bytes written so far and the sequence number; every \<^verbatim>\<open>write_*\<close> method is a function on
  it. The lemmas say what each method appends: \<open>ub_bytes\<close>, \<open>sb4_bytes\<close> and
  \<open>field_bytes\<close> name the appended encodings.
\<close>

definition TNS_MAX_SHORT_LENGTH :: nat where "TNS_MAX_SHORT_LENGTH = 252"

definition TNS_LONG_LENGTH_INDICATOR :: byte where "TNS_LONG_LENGTH_INDICATOR = 0xfe"

definition TNS_NULL_LENGTH_INDICATOR :: byte where "TNS_NULL_LENGTH_INDICATOR = 0xff"

definition TNS_MSG_TYPE_FUNCTION :: byte where "TNS_MSG_TYPE_FUNCTION = 3"

definition TNS_MSG_TYPE_PIGGYBACK :: byte where "TNS_MSG_TYPE_PIGGYBACK = 17"

lemmas tns_consts = TNS_MAX_SHORT_LENGTH_def TNS_LONG_LENGTH_INDICATOR_def
  TNS_NULL_LENGTH_INDICATOR_def TNS_MSG_TYPE_FUNCTION_def TNS_MSG_TYPE_PIGGYBACK_def

record ttc_writer =
  w_bytes :: "byte list"
  seq_num :: byte

definition new_writer :: ttc_writer where
  "new_writer = \<lparr>w_bytes = [], seq_num = 0\<rparr>"

subsection \<open>The write methods\<close>

definition write_raw :: "byte list \<Rightarrow> ttc_writer \<Rightarrow> ttc_writer" where
  "write_raw value w = w\<lparr>w_bytes := w_bytes w @ value\<rparr>"

definition write_u8 :: "byte \<Rightarrow> ttc_writer \<Rightarrow> ttc_writer" where
  "write_u8 value w = w\<lparr>w_bytes := w_bytes w @ [value]\<rparr>"

definition write_u16be :: "u16 \<Rightarrow> ttc_writer \<Rightarrow> ttc_writer" where
  "write_u16be value w = w\<lparr>w_bytes := w_bytes w @ be_bytes 2 (unat value)\<rparr>"

definition write_u16le :: "u16 \<Rightarrow> ttc_writer \<Rightarrow> ttc_writer" where
  "write_u16le value w = w\<lparr>w_bytes := w_bytes w @ rev (be_bytes 2 (unat value))\<rparr>"

definition write_u32be :: "u32 \<Rightarrow> ttc_writer \<Rightarrow> ttc_writer" where
  "write_u32be value w = w\<lparr>w_bytes := w_bytes w @ be_bytes 4 (unat value)\<rparr>"

definition write_u64be :: "u64 \<Rightarrow> ttc_writer \<Rightarrow> ttc_writer" where
  "write_u64be value w = w\<lparr>w_bytes := w_bytes w @ be_bytes 8 (unat value)\<rparr>"

definition write_ub2 :: "u16 \<Rightarrow> ttc_writer \<Rightarrow> ttc_writer" where
  "write_ub2 value w =
     (if value = 0 then write_u8 0 w
      else if value \<le> 255 then write_u8 (ucast value) (write_u8 1 w)
      else write_u16be value (write_u8 2 w))"

definition write_ub4 :: "u32 \<Rightarrow> ttc_writer \<Rightarrow> ttc_writer" where
  "write_ub4 value w =
     (if value = 0 then write_u8 0 w
      else if value \<le> 255 then write_u8 (ucast value) (write_u8 1 w)
      else if value \<le> 65535 then write_u16be (ucast value) (write_u8 2 w)
      else write_u32be value (write_u8 4 w))"

definition write_ub8 :: "u64 \<Rightarrow> ttc_writer \<Rightarrow> ttc_writer" where
  "write_ub8 value w =
     (if value = 0 then write_u8 0 w
      else if value \<le> 255 then write_u8 (ucast value) (write_u8 1 w)
      else if value \<le> 65535 then write_u16be (ucast value) (write_u8 2 w)
      else if value \<le> 4294967295 then write_u32be (ucast value) (write_u8 4 w)
      else write_u64be value (write_u8 8 w))"

definition write_seq_num :: "ttc_writer \<Rightarrow> ttc_writer" where
  "write_seq_num w =
     (let n = seq_num w + 1;
          n' = (if n = 0 then 1 else n)
      in write_u8 n' (w\<lparr>seq_num := n'\<rparr>))"

text \<open>\<^verbatim>\<open>u32::try_from(len)\<close> with the error the callers attach.\<close>

definition try_u32 :: "nat \<Rightarrow> u32 res" where
  "try_u32 n = (if n < 2 ^ 32 then Inr (of_nat n) else Inl (InvalidPacketLength n 0))"

text \<open>\<^verbatim>\<open>slice::chunks\<close> for a positive chunk size.\<close>

function chunks :: "nat \<Rightarrow> 'a list \<Rightarrow> 'a list list" where
  "chunks k xs = (if xs = [] \<or> k = 0 then [] else take k xs # chunks k (drop k xs))"
  by pat_completeness auto
termination
  by (relation "measure (\<lambda>(k, xs). length xs)") auto

declare chunks.simps [simp del]

fun write_chunks :: "byte list list \<Rightarrow> ttc_writer \<Rightarrow> ttc_writer res" where
  "write_chunks [] w = Inr w"
| "write_chunks (chunk # rest) w =
     ebind (try_u32 (length chunk)) (\<lambda>n. write_chunks rest (write_raw chunk (write_ub4 n w)))"

definition write_bytes_with_length :: "byte list \<Rightarrow> ttc_writer \<Rightarrow> ttc_writer res" where
  "write_bytes_with_length value w =
     (if length value \<le> TNS_MAX_SHORT_LENGTH
      then Inr (write_raw value (write_u8 (of_nat (length value)) w))
      else ebind (write_chunks (chunks 32767 value) (write_u8 TNS_LONG_LENGTH_INDICATOR w))
             (\<lambda>w'. Inr (write_ub4 0 w')))"

definition write_bytes_with_two_lengths :: "byte list option \<Rightarrow> ttc_writer \<Rightarrow> ttc_writer res" where
  "write_bytes_with_two_lengths value w =
     (case value of
        Some bs \<Rightarrow>
          ebind (try_u32 (length bs)) (\<lambda>n.
          let w' = write_ub4 n w in
          if bs \<noteq> [] then write_bytes_with_length bs w' else Inr w')
      | None \<Rightarrow> Inr (write_ub4 0 w))"

definition write_str_two_lengths :: "byte list \<Rightarrow> ttc_writer \<Rightarrow> ttc_writer res" where
  "write_str_two_lengths value w = write_bytes_with_two_lengths (Some value) w"

text \<open>
  \<^verbatim>\<open>write_sb4\<close> takes an \<^verbatim>\<open>i32\<close>: a 32-bit word read with \<open>sint\<close>. The magnitude
  \<^verbatim>\<open>unsigned_abs\<close> of a negative word is its two's complement negation.
\<close>

definition write_sb4 :: "u32 \<Rightarrow> ttc_writer \<Rightarrow> ttc_writer" where
  "write_sb4 value w =
     (let (sign, magnitude) = (if sint value < 0 then (0x80 :: byte, - value) else (0, value))
      in if magnitude = 0 then write_u8 0 w
         else if magnitude \<le> 255 then write_u8 (ucast magnitude) (write_u8 (1 OR sign) w)
         else if magnitude \<le> 65535 then write_u16be (ucast magnitude) (write_u8 (2 OR sign) w)
         else write_u32be magnitude (write_u8 (4 OR sign) w))"

definition write_keyword_value_pair ::
  "byte list option \<Rightarrow> byte list option \<Rightarrow> u16 \<Rightarrow> ttc_writer \<Rightarrow> ttc_writer res" where
  "write_keyword_value_pair text_value binary_value keyword w =
     ebind (write_bytes_with_two_lengths text_value w) (\<lambda>w1.
     ebind (write_bytes_with_two_lengths binary_value w1) (\<lambda>w2.
     Inr (write_ub2 keyword w2)))"

definition write_function_code :: "byte \<Rightarrow> ttc_writer \<Rightarrow> ttc_writer" where
  "write_function_code function_code w =
     write_seq_num (write_u8 function_code (write_u8 TNS_MSG_TYPE_FUNCTION w))"

definition write_function_code_with_seq :: "byte \<Rightarrow> byte \<Rightarrow> ttc_writer \<Rightarrow> ttc_writer" where
  "write_function_code_with_seq function_code seq w =
     write_u8 seq (write_u8 function_code (write_u8 TNS_MSG_TYPE_FUNCTION w))"

definition write_function_header :: "byte \<Rightarrow> byte \<Rightarrow> byte \<Rightarrow> ttc_writer \<Rightarrow> ttc_writer" where
  "write_function_header function_code seq ttc_field_version w =
     (let w' = write_function_code_with_seq function_code seq w
      in if writes_pipeline_token ttc_field_version then write_ub8 0 w' else w')"

definition write_piggyback_header :: "byte \<Rightarrow> byte \<Rightarrow> byte \<Rightarrow> ttc_writer \<Rightarrow> ttc_writer" where
  "write_piggyback_header function_code seq ttc_field_version w =
     (let w' = write_u8 seq (write_u8 function_code (write_u8 TNS_MSG_TYPE_PIGGYBACK w))
      in if writes_pipeline_token ttc_field_version then write_ub8 0 w' else w')"

subsection \<open>What the methods append\<close>

text \<open>The variable-length unsigned integer: a length byte, then the significant bytes.\<close>

definition ub_bytes :: "nat \<Rightarrow> byte list" where
  "ub_bytes n =
     (if n = 0 then [0]
      else if n \<le> 255 then [1, of_nat n]
      else if n \<le> 65535 then 2 # be_bytes 2 n
      else if n \<le> 4294967295 then 4 # be_bytes 4 n
      else 8 # be_bytes 8 n)"

definition field_bytes :: "byte list \<Rightarrow> byte list" where
  "field_bytes v =
     (if length v \<le> TNS_MAX_SHORT_LENGTH then of_nat (length v) # v
      else TNS_LONG_LENGTH_INDICATOR #
        concat (map (\<lambda>c. ub_bytes (length c) @ c) (chunks 32767 v)) @ ub_bytes 0)"

named_theorems appends \<open>bytes appended by the write methods\<close>

lemma w_bytes_basic [appends]:
  "w_bytes (write_raw v w) = w_bytes w @ v"
  "w_bytes (write_u8 b w) = w_bytes w @ [b]"
  "w_bytes (write_u16be x w) = w_bytes w @ be_bytes 2 (unat x)"
  "w_bytes (write_u16le x w) = w_bytes w @ rev (be_bytes 2 (unat x))"
  "w_bytes (write_u32be y w) = w_bytes w @ be_bytes 4 (unat y)"
  "w_bytes (write_u64be z w) = w_bytes w @ be_bytes 8 (unat z)"
  by (simp_all add: write_raw_def write_u8_def write_u16be_def write_u16le_def write_u32be_def
    write_u64be_def)

lemma ucast_byte_of_nat: "(ucast (x :: 'a :: len word) :: byte) = of_nat (unat x)"
  by simp

lemma unat_le_iff_numeral:
  "(x :: u16) \<le> 255 \<longleftrightarrow> unat x \<le> 255"
  "(y :: u32) \<le> 255 \<longleftrightarrow> unat y \<le> 255"
  "(y :: u32) \<le> 65535 \<longleftrightarrow> unat y \<le> 65535"
  "(z :: u64) \<le> 255 \<longleftrightarrow> unat z \<le> 255"
  "(z :: u64) \<le> 65535 \<longleftrightarrow> unat z \<le> 65535"
  "(z :: u64) \<le> 4294967295 \<longleftrightarrow> unat z \<le> 4294967295"
  by (simp_all add: word_le_nat_alt)

lemma unat_ucast_small:
  "unat (y :: u32) \<le> 65535 \<Longrightarrow> unat (ucast y :: u16) = unat y"
  "unat (z :: u64) \<le> 65535 \<Longrightarrow> unat (ucast z :: u16) = unat z"
  "unat (z :: u64) \<le> 4294967295 \<Longrightarrow> unat (ucast z :: u32) = unat z"
  by (simp_all add: unsigned_ucast_eq take_bit_eq_mod)

lemma unat_bounds:
  "unat (x :: u16) \<le> 65535" "unat (y :: u32) \<le> 4294967295"
  using unsigned_less [of x, where 'a = nat] unsigned_less [of y, where 'a = nat] by simp_all

lemma w_bytes_ub [appends]:
  "w_bytes (write_ub2 x w) = w_bytes w @ ub_bytes (unat x)"
  "w_bytes (write_ub4 y w) = w_bytes w @ ub_bytes (unat y)"
  "w_bytes (write_ub8 z w) = w_bytes w @ ub_bytes (unat z)"
  using unat_bounds(1) [of x] unat_bounds(2) [of y]
  by (simp_all add: write_ub2_def write_ub4_def write_ub8_def ub_bytes_def appends
    unat_le_iff_numeral unat_ucast_small unat_eq_zero)

lemma chunks_Nil [simp]: "chunks k [] = []"
  by (subst chunks.simps) simp

lemma concat_chunks: "0 < k \<Longrightarrow> concat (chunks k xs) = xs"
proof (induction k xs rule: chunks.induct)
  case (1 k xs)
  then show ?case by (subst chunks.simps) auto
qed

lemma chunks_lengths: "c \<in> set (chunks k xs) \<Longrightarrow> 0 < length c \<and> length c \<le> k"
proof (induction k xs rule: chunks.induct)
  case (1 k xs)
  show ?case
  proof (cases "xs = [] \<or> k = 0")
    case True
    with "1.prems" show ?thesis by (simp add: chunks.simps [of k xs])
  next
    case False
    with "1.prems" have "c = take k xs \<or> c \<in> set (chunks k (drop k xs))"
      by (simp add: chunks.simps [of k xs])
    with False "1.IH" show ?thesis by auto
  qed
qed

lemma length_chunks: "0 < k \<Longrightarrow> length (chunks k xs) = (length xs + k - 1) div k"
proof (induction k xs rule: chunks.induct)
  case (1 k xs)
  show ?case
  proof (cases "xs = []")
    case True
    with "1.prems" show ?thesis by simp
  next
    case False
    with "1.prems" "1.IH" have "length (chunks k xs) = Suc ((length xs - k + k - 1) div k)"
      by (simp add: chunks.simps [of k xs])
    also have "\<dots> = (length xs + k - 1) div k"
    proof (cases "k \<le> length xs")
      case True
      then have "length xs + k - 1 = (length xs - 1) + k" using False by (cases xs) auto
      then have "(length xs + k - 1) div k = Suc ((length xs - 1) div k)"
        using "1.prems" by (simp only: div_add_self2)
      with True show ?thesis by simp
    next
      case False': False
      then have "length xs + k - 1 = (length xs - 1) + k" using False by (cases xs) auto
      then have "(length xs + k - 1) div k = Suc ((length xs - 1) div k)"
        using "1.prems" by (simp only: div_add_self2)
      with False' "1.prems" show ?thesis by simp
    qed
    finally show ?thesis .
  qed
qed

lemma write_chunks_ok:
  "(\<And>c. c \<in> set cs \<Longrightarrow> length c < 2 ^ 32) \<Longrightarrow>
   \<exists>w'. write_chunks cs w = Inr w' \<and> seq_num w' = seq_num w \<and>
     w_bytes w' = w_bytes w @ concat (map (\<lambda>c. ub_bytes (length c) @ c) cs)"
proof (induction cs arbitrary: w)
  case Nil
  then show ?case by simp
next
  case (Cons c cs)
  let ?w = "write_raw c (write_ub4 (of_nat (length c)) w)"
  have len: "length c < 2 ^ 32" using Cons.prems by simp
  then have "unat (of_nat (length c) :: u32) = length c"
    by (simp add: unat_of_nat)
  then have "w_bytes ?w = w_bytes w @ ub_bytes (length c) @ c"
    by (simp add: appends)
  moreover have "seq_num ?w = seq_num w"
    by (simp add: write_raw_def write_ub4_def write_u8_def write_u16be_def write_u32be_def)
  ultimately show ?case
    using Cons.IH [of ?w] Cons.prems len by (auto simp: try_u32_def)
qed

lemma write_bytes_with_length_ok:
  "\<exists>w'. write_bytes_with_length v w = Inr w' \<and> w_bytes w' = w_bytes w @ field_bytes v"
proof (cases "length v \<le> TNS_MAX_SHORT_LENGTH")
  case True
  then show ?thesis
    by (simp add: write_bytes_with_length_def field_bytes_def appends)
next
  case False
  have "\<And>c. c \<in> set (chunks 32767 v) \<Longrightarrow> length c < 2 ^ 32"
    using chunks_lengths [of _ 32767 v] by fastforce
  then obtain w' where "write_chunks (chunks 32767 v) (write_u8 TNS_LONG_LENGTH_INDICATOR w) = Inr w'"
    "w_bytes w' = w_bytes (write_u8 TNS_LONG_LENGTH_INDICATOR w) @
       concat (map (\<lambda>c. ub_bytes (length c) @ c) (chunks 32767 v))"
    using write_chunks_ok by blast
  with False show ?thesis
    by (simp add: write_bytes_with_length_def field_bytes_def appends)
qed

end
