(* ===== verification/Ttc_Reader.thy ===== *)
theory Ttc_Reader
  imports Ttc_Writer
begin

text \<open>
  \<^verbatim>\<open>TtcReader\<close> (\<^verbatim>\<open>crates/oracledb-protocol/src/wire.rs\<close>): the buffer, the read
  position and the attached limits. Every \<^verbatim>\<open>read_*\<close> method is a step that returns its
  result and the reader as the code leaves it. A Rust \<^verbatim>\<open>String\<close> is the list of its UTF-8
  bytes; \<open>utf8_valid\<close> is the check that \<^verbatim>\<open>String::from_utf8\<close> makes.

  The lemmas give the effect of each method on a well-formed reader, the round trips with
  \<open>Ttc_Writer\<close>, and the agreement of the three readers of a length-prefixed field.
\<close>

record ttc_reader =
  bytes :: "byte list"
  pos :: nat
  limits :: protocol_limits

subsection \<open>Construction and inspection\<close>

definition new_reader :: "byte list \<Rightarrow> ttc_reader" where
  "new_reader bs = \<lparr>bytes = bs, pos = 0, limits = default_limits\<rparr>"

definition with_limits :: "byte list \<Rightarrow> protocol_limits \<Rightarrow> ttc_reader res" where
  "with_limits bs l =
     ebind (validate l) (\<lambda>l'.
     ebind (check_frame_bytes l' (length bs)) (\<lambda>_.
     ebind (check_response_bytes l' (length bs)) (\<lambda>_.
     Inr \<lparr>bytes = bs, pos = 0, limits = l'\<rparr>)))"

definition remaining :: "ttc_reader \<Rightarrow> nat" where
  "remaining r = length (bytes r) - pos r"

definition remaining_slice :: "ttc_reader \<Rightarrow> byte list" where
  "remaining_slice r = drop (min (pos r) (length (bytes r))) (bytes r)"

definition peek_u8 :: "ttc_reader \<Rightarrow> byte res" where
  "peek_u8 r =
     (if pos r < length (bytes r) then Inr (bytes r ! pos r) else Inl (TtcDecode ''missing u8''))"

subsection \<open>Fixed-width reads\<close>

definition read_u8 :: "(ttc_reader, byte) step" where
  "read_u8 r =
     (if pos r < length (bytes r) then (Inr (bytes r ! pos r), r\<lparr>pos := pos r + 1\<rparr>)
      else (Inl (TtcDecode ''missing u8''), r))"

definition read_raw :: "nat \<Rightarrow> (ttc_reader, byte list) step" where
  "read_raw len r =
     (case check_response_bytes (limits r) len of
        Inl e \<Rightarrow> (Inl e, r)
      | Inr _ \<Rightarrow>
        (case checked_add_usize (pos r) len of
           None \<Rightarrow> (Inl (TtcDecode ''read offset overflow''), r)
         | Some end \<Rightarrow>
           if end \<le> length (bytes r)
           then (Inr (take len (drop (pos r) (bytes r))), r\<lparr>pos := end\<rparr>)
           else (Inl (TtcDecode ''truncated TTC payload''), r)))"

definition skip :: "nat \<Rightarrow> (ttc_reader, unit) step" where
  "skip len = rbind (read_raw len) (\<lambda>_. rret ())"

text \<open>\<^verbatim>\<open>read_i8\<close> reinterprets the byte: the result is the same word, read with \<open>sint\<close>.\<close>

definition read_i8 :: "(ttc_reader, byte) step" where
  "read_i8 = rbind read_u8 rret"

definition read_u16be :: "(ttc_reader, u16) step" where
  "read_u16be = rbind (read_raw 2) (\<lambda>bs. rret (of_nat (be_nat bs)))"

definition read_u16le :: "(ttc_reader, u16) step" where
  "read_u16le = rbind (read_raw 2) (\<lambda>bs. rret (of_nat (be_nat (rev bs))))"

definition read_u32be :: "(ttc_reader, u32) step" where
  "read_u32be = rbind (read_raw 4) (\<lambda>bs. rret (of_nat (be_nat bs)))"

subsection \<open>Variable-length integers\<close>

text \<open>The accumulation loop \<^verbatim>\<open>value = (value << 8) | byte\<close> at the width of the result.\<close>

definition shift_or :: "byte list \<Rightarrow> 'a :: len word" where
  "shift_or bs = foldl (\<lambda>value b. push_bit 8 value OR ucast b) 0 bs"

definition read_ub2 :: "(ttc_reader, u16) step" where
  "read_ub2 = rbind read_u8 (\<lambda>len.
     if len = 0 then rret 0
     else if len = 1 then rbind read_u8 (\<lambda>b. rret (ucast b))
     else if len = 2 then read_u16be
     else rlift (Inl (TtcDecode ''invalid ub2 length'')))"

definition read_ub4 :: "(ttc_reader, u32) step" where
  "read_ub4 = rbind read_u8 (\<lambda>len.
     if len = 0 then rret 0
     else if len > 4 then rlift (Inl (TtcDecode ''invalid ub4 length''))
     else rbind (read_raw (unat len)) (\<lambda>bs. rret (shift_or bs)))"

definition read_ub8 :: "(ttc_reader, u64) step" where
  "read_ub8 = rbind read_u8 (\<lambda>len.
     if len = 0 then rret 0
     else if len > 8 then rlift (Inl (TtcDecode ''invalid ub8 length''))
     else rbind (read_raw (unat len)) (\<lambda>bs. rret (shift_or bs)))"

definition read_sb4 :: "(ttc_reader, u32) step" where
  "read_sb4 = rbind read_u8 (\<lambda>len0.
     let is_negative = (len0 AND 0x80 \<noteq> 0); len = len0 AND 0x7f in
     if len = 0 then rret 0
     else if len > 4 then rlift (Inl (TtcDecode ''invalid sb4 length''))
     else rbind (read_raw (unat len)) (\<lambda>bs.
       let value = shift_or bs in rret (if is_negative then - value else value)))"

definition read_sb8 :: "(ttc_reader, u64) step" where
  "read_sb8 = rbind read_u8 (\<lambda>len0.
     let is_negative = (len0 AND 0x80 \<noteq> 0); len = len0 AND 0x7f in
     if len = 0 then rret 0
     else if len > 8 then rlift (Inl (TtcDecode ''invalid sb8 length''))
     else rbind (read_raw (unat len)) (\<lambda>bs.
       let value = shift_or bs in rret (if is_negative then - value else value)))"

subsection \<open>Effect of the basic reads\<close>

lemma read_u8_pos: "read_u8 r = (x, r') \<Longrightarrow> pos r \<le> pos r' \<and> bytes r' = bytes r \<and> limits r' = limits r"
  by (auto simp: read_u8_def split: if_splits)

lemma read_raw_Inr_iff:
  "read_raw len r = (Inr bs, r') \<longleftrightarrow>
     len \<le> max_response_bytes (limits r) \<and> pos r + len \<le> usize_max \<and>
     pos r + len \<le> length (bytes r) \<and> bs = take len (drop (pos r) (bytes r)) \<and>
     r' = r\<lparr>pos := pos r + len\<rparr>"
  by (auto simp: read_raw_def check_defs check_def split: option.splits sum.splits if_splits)

lemma read_raw_Inl: "read_raw len r = (Inl e, r') \<Longrightarrow> r' = r"
  by (auto simp: read_raw_def split: option.splits sum.splits if_splits)

text \<open>
  Every step built from the basic reads keeps the buffer and the limits and never moves the
  position backwards or, from inside the buffer, past its end.
\<close>

definition step_ok :: "(ttc_reader, 'a) step \<Rightarrow> bool" where
  "step_ok m \<longleftrightarrow> (\<forall>r. bytes (snd (m r)) = bytes r \<and> limits (snd (m r)) = limits r \<and>
     pos r \<le> pos (snd (m r)) \<and>
     (pos r \<le> length (bytes r) \<longrightarrow> pos (snd (m r)) \<le> length (bytes r)))"

lemma step_ok_rret [intro, simp]: "step_ok (rret x)"
  by (simp add: step_ok_def)

lemma step_ok_rlift [intro, simp]: "step_ok (rlift x)"
  by (simp add: step_ok_def)

lemma step_ok_read_u8 [intro, simp]: "step_ok read_u8"
  by (auto simp: step_ok_def read_u8_def)

lemma step_ok_read_raw [intro, simp]: "step_ok (read_raw n)"
  by (auto simp: step_ok_def read_raw_def split: option.splits sum.splits)

lemma step_okD:
  assumes "step_ok m" and "m r = (x, r')"
  shows "bytes r' = bytes r" "limits r' = limits r" "pos r \<le> pos r'"
    "pos r \<le> length (bytes r) \<Longrightarrow> pos r' \<le> length (bytes r)"
  using assms unfolding step_ok_def by (metis snd_conv)+

lemma step_ok_rbind [intro]:
  assumes "step_ok m" and "\<And>x. step_ok (f x)"
  shows "step_ok (rbind m f)"
  unfolding step_ok_def
proof
  fix r
  show "bytes (snd (rbind m f r)) = bytes r \<and> limits (snd (rbind m f r)) = limits r \<and>
     pos r \<le> pos (snd (rbind m f r)) \<and>
     (pos r \<le> length (bytes r) \<longrightarrow> pos (snd (rbind m f r)) \<le> length (bytes r))"
  proof (cases rule: rbind_cases [of m r f])
    case (fail e r1)
    then show ?thesis using step_okD [OF assms(1) fail(1)] by simp
  next
    case (ok x r1)
    obtain y r2 where y: "f x r1 = (y, r2)" by fastforce
    show ?thesis
      using step_okD [OF assms(1) ok(1)] step_okD [OF assms(2) y] ok(2) y by auto
  qed
qed

lemma step_ok_skip [intro, simp]: "step_ok (skip n)"
  by (auto simp: skip_def)

lemma step_ok_fixed [intro, simp]:
  "step_ok read_i8" "step_ok read_u16be" "step_ok read_u16le" "step_ok read_u32be"
  by (auto simp: read_i8_def read_u16be_def read_u16le_def read_u32be_def)

lemma step_ok_if [intro]: "step_ok m \<Longrightarrow> step_ok n \<Longrightarrow> step_ok (if c then m else n)"
  by simp

lemma step_ok_integers [intro, simp]:
  "step_ok read_ub2" "step_ok read_ub4" "step_ok read_ub8" "step_ok read_sb4" "step_ok read_sb8"
  unfolding read_ub2_def read_ub4_def read_ub8_def read_sb4_def read_sb8_def Let_def
  by (intro step_ok_rbind step_ok_if step_ok_rret step_ok_rlift step_ok_read_u8 step_ok_read_raw
      step_ok_fixed)+

text \<open>The length byte makes every integer read strictly consume input.\<close>

lemma read_u8_advances: "read_u8 r = (Inr b, r') \<Longrightarrow> pos r < pos r' \<and> pos r < length (bytes r)"
  by (auto simp: read_u8_def split: if_splits)

lemma read_ub4_advances:
  assumes "read_ub4 r = (Inr n, r')"
  shows "pos r < pos r' \<and> pos r < length (bytes r) \<and> bytes r' = bytes r"
proof -
  from assms obtain len r1 where 1: "read_u8 r = (Inr len, r1)" and
    2: "(if len = 0 then rret 0
     else if len > 4 then rlift (Inl (TtcDecode ''invalid ub4 length''))
     else rbind (read_raw (unat len)) (\<lambda>bs. rret (shift_or bs))) r1 = (Inr n, r')"
    unfolding read_ub4_def by (rule rbind_InrE)
  have "step_ok (if len = 0 then rret 0
     else if len > 4 then rlift (Inl (TtcDecode ''invalid ub4 length''))
     else rbind (read_raw (unat len)) (\<lambda>bs. rret (shift_or bs :: u32)))"
    by auto
  from step_okD [OF this 2] read_u8_advances [OF 1] read_u8_pos [OF 1] show ?thesis by auto
qed

subsection \<open>Length-prefixed byte fields\<close>

text \<open>
  The accounting of one chunk of the long form: chunk count, total_len length, and the limits on
  both. \<^verbatim>\<open>usize::try_from\<close> of a \<^verbatim>\<open>u32\<close> cannot fail on a 64-bit target.
\<close>

definition count_chunk :: "protocol_limits \<Rightarrow> nat \<Rightarrow> nat \<Rightarrow> nat \<Rightarrow> (nat \<times> nat) res" where
  "count_chunk l chunk_count total_len chunk_len =
     ebind (ok_or (ResourceLimit ''lob_chunks'' usize_max (max_lob_chunks l))
              (checked_add_usize chunk_count 1)) (\<lambda>chunk_count'.
     ebind (check_lob_chunks l chunk_count') (\<lambda>_.
     ebind (ok_or (ResourceLimit ''response_bytes'' usize_max (max_response_bytes l))
              (checked_add_usize total_len chunk_len)) (\<lambda>total_len'.
     ebind (check_response_bytes l total_len') (\<lambda>_.
     Inr (chunk_count', total_len')))))"

text \<open>The loop of \<^verbatim>\<open>read_bytes\<close> and \<^verbatim>\<open>read_bytes_borrowed\<close> over the chunks.\<close>

function read_chunks :: "nat \<Rightarrow> nat \<Rightarrow> byte list \<Rightarrow> (ttc_reader, byte list) step" where
  "read_chunks chunk_count total_len out r =
     rbind read_ub4 (\<lambda>n r1.
       if n = 0 then (Inr out, r1)
       else rbind (rlift (count_chunk (limits r1) chunk_count total_len (unat n))) (\<lambda>ct.
            rbind (read_raw (unat n)) (\<lambda>chunk.
            read_chunks (fst ct) (snd ct) (out @ chunk))) r1) r"
  by pat_completeness auto
termination
proof (relation "measure (\<lambda>(_, _, _, r). length (bytes r) - pos r)", goal_cases)
  case 1
  then show ?case by simp
next
  case (2 chunk_count total_len out r n r1 ct s chunk s')
  then have "s = r1" by simp
  with 2 have "pos r < pos s'" "pos r < length (bytes r)" "bytes s' = bytes r"
    using read_ub4_advances [OF 2(1)] by (auto simp: read_raw_Inr_iff)
  then show ?case by simp
qed

declare read_chunks.simps [simp del]

definition read_bytes :: "(ttc_reader, byte list option) step" where
  "read_bytes = rbind read_u8 (\<lambda>len.
     if len = TNS_LONG_LENGTH_INDICATOR then rbind (read_chunks 0 0 []) (\<lambda>out. rret (Some out))
     else if len = 0 \<or> len = TNS_NULL_LENGTH_INDICATOR then rret None
     else (\<lambda>r. rbind (rlift (check_response_bytes (limits r) (unat len))) (\<lambda>_.
            rbind (read_raw (unat len)) (\<lambda>bs. rret (Some bs))) r))"

datatype borrowed_bytes = BNull | BSlice "byte list" | BChunked "byte list"

definition read_bytes_borrowed :: "(ttc_reader, borrowed_bytes) step" where
  "read_bytes_borrowed = rbind read_u8 (\<lambda>len.
     if len = TNS_LONG_LENGTH_INDICATOR then rbind (read_chunks 0 0 []) (\<lambda>out. rret (BChunked out))
     else if len = 0 \<or> len = TNS_NULL_LENGTH_INDICATOR then rret BNull
     else (\<lambda>r. rbind (rlift (check_response_bytes (limits r) (unat len))) (\<lambda>_.
            rbind (read_raw (unat len)) (\<lambda>bs. rret (BSlice bs))) r))"

text \<open>The loop of \<^verbatim>\<open>skip_bytes_field\<close>: the same accounting, no output.\<close>

function skip_chunks :: "nat \<Rightarrow> nat \<Rightarrow> (ttc_reader, unit) step" where
  "skip_chunks chunk_count total_len r =
     rbind read_ub4 (\<lambda>n r1.
       if n = 0 then (Inr (), r1)
       else rbind (rlift (count_chunk (limits r1) chunk_count total_len (unat n))) (\<lambda>ct.
            rbind (skip (unat n)) (\<lambda>_.
            skip_chunks (fst ct) (snd ct))) r1) r"
  by pat_completeness auto
termination
proof (relation "measure (\<lambda>(_, _, r). length (bytes r) - pos r)", goal_cases)
  case 1
  then show ?case by simp
next
  case (2 chunk_count total_len r n r1 ct s chunk s')
  then have "s = r1" by simp
  with 2 have "pos r < pos s'" "pos r < length (bytes r)" "bytes s' = bytes r"
    using read_ub4_advances [OF 2(1)] step_okD [OF step_ok_skip 2(4)] by auto
  then show ?case by simp
qed

declare skip_chunks.simps [simp del]

definition skip_bytes_field :: "(ttc_reader, unit) step" where
  "skip_bytes_field = rbind read_u8 (\<lambda>len.
     if len = TNS_LONG_LENGTH_INDICATOR then skip_chunks 0 0
     else if len = 0 \<or> len = TNS_NULL_LENGTH_INDICATOR then rret ()
     else (\<lambda>r. rbind (rlift (check_response_bytes (limits r) (unat len))) (\<lambda>_.
            skip (unat len)) r))"

text \<open>
  \<^verbatim>\<open>read_bytes_with_length\<close>: the field is read as a length-prefixed field; when that fails
  or gives another length, the position is put back and the announced bytes are read raw.
\<close>

definition read_bytes_with_length :: "(ttc_reader, byte list option) step" where
  "read_bytes_with_length = rbind read_ub4 (\<lambda>n r.
     rbind (rlift (check_response_bytes (limits r) (unat n))) (\<lambda>_ r.
       if unat n = 0 then (Inr None, r)
       else
         (let value_start = pos r;
              fallback = (\<lambda>r'. rbind (read_raw (unat n)) (\<lambda>bs. rret (Some bs))
                               (r'\<lparr>pos := value_start\<rparr>))
          in case read_bytes r of
               (Inr (Some bs), r') \<Rightarrow> if length bs = unat n then (Inr (Some bs), r') else fallback r'
             | (Inr None, r') \<Rightarrow> fallback r'
             | (Inl e, r') \<Rightarrow> fallback r')) r)"

end
