(* ===== verification/Ttc_Fields.thy ===== *)
theory Ttc_Fields
  imports Ttc_Reader
begin

text \<open>
  Correctness of the wire codec: reading a value where the writer wrote it gives the value back
  and leaves the reader where the writer stopped; the three readers of a length-prefixed field
  agree; the reader is an instance of the \<open>bounded_reader\<close> interface.
\<close>

subsection \<open>Shifting and adding\<close>

lemma push_bit_or_byte: "push_bit 8 (v :: 'a :: len word) OR ucast (b :: byte) = v * 256 + ucast b"
proof -
  have "push_bit 8 v AND (ucast b :: 'a word) = 0"
    by (rule bit_word_eqI) (auto simp: bit_simps dest: bit_imp_le_length)
  then show ?thesis
    by (simp add: disjunctive_add_eq_or [symmetric] push_bit_eq_mult)
qed

lemma shift_or_be_nat: "(shift_or bs :: 'a :: len word) = of_nat (be_nat bs)"
proof (induction bs rule: rev_induct)
  case Nil
  then show ?case by (simp add: shift_or_def)
next
  case (snoc b bs)
  then have "(shift_or (bs @ [b]) :: 'a word) = of_nat (be_nat bs) * 256 + ucast b"
    by (simp add: shift_or_def push_bit_or_byte)
  also have "\<dots> = of_nat (be_nat (bs @ [b]))"
    by simp
  finally show ?case .
qed

subsection \<open>Reading at a position of the buffer\<close>

text \<open>
  A well-formed reader is one whose buffer passed the checks of \<^verbatim>\<open>with_limits\<close> and whose
  position is inside it. \<open>advance\<close> moves the position.
\<close>

definition reader_wf :: "ttc_reader \<Rightarrow> bool" where
  "reader_wf r \<longleftrightarrow> pos r \<le> length (bytes r) \<and> length (bytes r) \<le> max_response_bytes (limits r) \<and>
     length (bytes r) \<le> usize_max"

definition advance :: "nat \<Rightarrow> ttc_reader \<Rightarrow> ttc_reader" where
  "advance n r = r\<lparr>pos := pos r + n\<rparr>"

lemma advance_simps [simp]:
  "bytes (advance n r) = bytes r" "limits (advance n r) = limits r" "pos (advance n r) = pos r + n"
  "advance 0 r = r" "advance m (advance n r) = advance (n + m) r"
  by (simp_all add: advance_def add.assoc)

lemma slice_append:
  assumes "reader_wf r" and "remaining_slice r = xs @ ys"
  shows "pos r + length xs \<le> length (bytes r)" "reader_wf (advance (length xs) r)"
    "remaining_slice (advance (length xs) r) = ys" "take (length xs) (drop (pos r) (bytes r)) = xs"
proof -
  from assms have d: "drop (pos r) (bytes r) = xs @ ys"
    by (simp add: reader_wf_def remaining_slice_def min_def)
  then have "length (bytes r) - pos r = length xs + length ys"
    by (metis length_append length_drop)
  with assms(1) show le: "pos r + length xs \<le> length (bytes r)"
    unfolding reader_wf_def by linarith
  with assms(1) show "reader_wf (advance (length xs) r)" by (simp add: reader_wf_def)
  show "take (length xs) (drop (pos r) (bytes r)) = xs" using d by simp
  have "drop (pos r + length xs) (bytes r) = ys"
    using d by (metis add.commute append_eq_conv_conj drop_drop)
  with le show "remaining_slice (advance (length xs) r) = ys"
    by (simp add: remaining_slice_def min_def)
qed

lemma read_u8_slice:
  assumes "reader_wf r" and "remaining_slice r = b # ys"
  shows "read_u8 r = (Inr b, advance 1 r)"
proof -
  note s = slice_append [OF assms(1), of "[b]" ys]
  have "pos r < length (bytes r)" and "take 1 (drop (pos r) (bytes r)) = [b]"
    using s assms(2) by auto
  then show ?thesis
    by (simp add: read_u8_def advance_def take_Suc_conv_app_nth hd_drop_conv_nth take_Suc)
qed

lemma read_raw_slice:
  assumes "reader_wf r" and "remaining_slice r = xs @ ys"
  shows "read_raw (length xs) r = (Inr xs, advance (length xs) r)"
  using slice_append [OF assms] assms(1)
  by (simp add: read_raw_Inr_iff advance_def reader_wf_def)

lemma read_raw_slice':
  "reader_wf r \<Longrightarrow> remaining_slice r = xs @ ys \<Longrightarrow> n = length xs \<Longrightarrow>
   read_raw n r = (Inr xs, advance n r)"
  using read_raw_slice by simp

lemma with_limits_wf:
  assumes "with_limits bs l = Inr r" and "length bs \<le> usize_max"
  shows "reader_wf r \<and> bytes r = bs \<and> pos r = 0 \<and> limits r = l \<and> limits_wf l"
  using assms by (auto simp: with_limits_def ebind_Inr_iff validate_Inr_iff check_defs reader_wf_def)


subsection \<open>Integers\<close>

lemma ub_bytes_Cons:
  assumes "n < 2 ^ 64"
  obtains len body where "ub_bytes n = len # body" "unat len = length body" "be_nat body = n"
    "len = 0 \<longleftrightarrow> n = 0" "n < 2 ^ 32 \<longrightarrow> len \<le> 4" "n < 2 ^ 16 \<longrightarrow> len \<le> 2" "len \<le> 8"
proof (cases "n = 0")
  case True
  then show thesis using that [of 0 "[]"] by (simp add: ub_bytes_def)
next
  case False
  consider (1) "n \<le> 255" | (2) "255 < n" "n \<le> 65535" | (4) "65535 < n" "n \<le> 4294967295"
    | (8) "4294967295 < n" by linarith
  then show thesis
  proof cases
    case 1
    then show thesis using False that [of 1 "[of_nat n]"] by (simp add: ub_bytes_def)
  next
    case 2
    then show thesis using False that [of 2 "be_bytes 2 n"] by (simp add: ub_bytes_def be_nat_be_bytes)
  next
    case 4
    then show thesis using False that [of 4 "be_bytes 4 n"] by (simp add: ub_bytes_def be_nat_be_bytes)
  next
    case 8
    then show thesis using False that [of 8 "be_bytes 8 n"] assms
      by (simp add: ub_bytes_def be_nat_be_bytes)
  qed
qed

lemma ub_slice:
  assumes "reader_wf r" and "remaining_slice r = ub_bytes n @ ys" and "n < 2 ^ 64"
  obtains len body where "read_u8 r = (Inr len, advance 1 r)"
    "read_raw (unat len) (advance 1 r) = (Inr body, advance (length (ub_bytes n)) r)"
    "be_nat body = n" "len = 0 \<longleftrightarrow> n = 0" "n < 2 ^ 32 \<longrightarrow> len \<le> 4" "n < 2 ^ 16 \<longrightarrow> len \<le> 2" "len \<le> 8"
    "unat len = length body" "length (ub_bytes n) = 1 + unat len"
    "reader_wf (advance 1 r)" "remaining_slice (advance 1 r) = body @ ys"
proof -
  obtain len body where b: "ub_bytes n = len # body" "unat len = length body" "be_nat body = n"
    "len = 0 \<longleftrightarrow> n = 0" "n < 2 ^ 32 \<longrightarrow> len \<le> 4" "n < 2 ^ 16 \<longrightarrow> len \<le> 2" "len \<le> 8"
    using ub_bytes_Cons [OF assms(3)] by metis
  have w: "reader_wf (advance 1 r)" "remaining_slice (advance 1 r) = body @ ys"
    using slice_append [OF assms(1), of "[len]" "body @ ys"] assms(2) b(1) by simp_all
  have "read_u8 r = (Inr len, advance 1 r)" using read_u8_slice assms b(1) by simp
  moreover have "read_raw (unat len) (advance 1 r) = (Inr body, advance (length (ub_bytes n)) r)"
    using read_raw_slice' [OF w b(2)] b(1,2) by simp
  ultimately show thesis using that b w by simp
qed

lemma read_ub4_slice:
  assumes "reader_wf r" and "remaining_slice r = ub_bytes (unat (v :: u32)) @ ys"
  shows "read_ub4 r = (Inr v, advance (length (ub_bytes (unat v))) r)"
proof -
  have "unat v < 2 ^ 64" using unat_bounds(2) [of v] by simp
  from ub_slice [OF assms this] obtain len body where "read_u8 r = (Inr len, advance 1 r)"
    "read_raw (unat len) (advance 1 r) = (Inr body, advance (length (ub_bytes (unat v))) r)"
    "be_nat body = unat v" "len = 0 \<longleftrightarrow> unat v = 0" "unat v < 2 ^ 32 \<longrightarrow> len \<le> 4"
    "length (ub_bytes (unat v)) = 1 + unat len" by metis
  then show ?thesis using unat_bounds(2) [of v]
    by (cases "len = 0") (auto simp: read_ub4_def rbind_def shift_or_be_nat not_le unat_eq_zero)
qed

lemma read_ub8_slice:
  assumes "reader_wf r" and "remaining_slice r = ub_bytes (unat (v :: u64)) @ ys"
  shows "read_ub8 r = (Inr v, advance (length (ub_bytes (unat v))) r)"
proof -
  have "unat v < 2 ^ 64" using unsigned_less [of v, where 'a = nat] by simp
  from ub_slice [OF assms this] obtain len body where "read_u8 r = (Inr len, advance 1 r)"
    "read_raw (unat len) (advance 1 r) = (Inr body, advance (length (ub_bytes (unat v))) r)"
    "be_nat body = unat v" "len = 0 \<longleftrightarrow> unat v = 0" "len \<le> 8"
    "length (ub_bytes (unat v)) = 1 + unat len" by metis
  then show ?thesis
    by (cases "len = 0") (auto simp: read_ub8_def rbind_def shift_or_be_nat not_le unat_eq_zero)
qed

lemma byte_le_2_cases:
  assumes "(len :: byte) \<le> 2" obtains "len = 0" | "len = 1" | "len = 2"
proof -
  have "unat len \<le> 2" using assms by (simp add: word_le_nat_alt)
  then have "unat len = 0 \<or> unat len = 1 \<or> unat len = 2" by linarith
  then show thesis using that by (auto simp: word_unat_eq_iff)
qed

lemma read_ub2_slice:
  assumes "reader_wf r" and "remaining_slice r = ub_bytes (unat (v :: u16)) @ ys"
  shows "read_ub2 r = (Inr v, advance (length (ub_bytes (unat v))) r)"
proof -
  have lt: "unat v < 2 ^ 16" "unat v < 2 ^ 64" using unat_bounds(1) [of v] by simp_all
  obtain len body where
    1: "read_u8 r = (Inr len, advance 1 r)" and
    2: "read_raw (unat len) (advance 1 r) = (Inr body, advance (length (ub_bytes (unat v))) r)" and
    3: "be_nat body = unat v" "len = 0 \<longleftrightarrow> unat v = 0" "unat v < 2 ^ 32 \<longrightarrow> len \<le> 4"
    "unat v < 2 ^ 16 \<longrightarrow> len \<le> 2" "len \<le> 8" "unat len = length body"
    "length (ub_bytes (unat v)) = 1 + unat len" and
    4: "reader_wf (advance 1 r)" "remaining_slice (advance 1 r) = body @ ys"
    by (rule ub_slice [OF assms lt(2)])
  show ?thesis
  proof (rule byte_le_2_cases [OF 3(4) [THEN mp, OF lt(1)]])
    assume "len = 0"
    with 1 3 show ?thesis by (simp add: read_ub2_def rbind_def unat_eq_zero)
  next
    assume l: "len = 1"
    with 3 obtain b where b: "body = [b]" by (cases body) auto
    with 4 have "read_u8 (advance 1 r) = (Inr b, advance 2 r)" using read_u8_slice by force
    moreover have "(ucast b :: u16) = v" using 3(1) b lt(1)
      by (simp add: word_unat_eq_iff unsigned_ucast_eq take_bit_eq_mod)
    ultimately show ?thesis using 1 3 l by (simp add: read_ub2_def rbind_def)
  next
    assume l: "len = 2"
    with 1 2 3 show ?thesis by (simp add: read_ub2_def read_u16be_def rbind_def)
  qed
qed


definition sb4_bytes :: "u32 \<Rightarrow> byte list" where
  "sb4_bytes v =
     (let (sign, magnitude) = (if sint v < 0 then (0x80 :: byte, - v) else (0, v))
      in (hd (ub_bytes (unat magnitude)) OR sign) # tl (ub_bytes (unat magnitude)))"

lemma w_bytes_sb4: "w_bytes (write_sb4 v w) = w_bytes w @ sb4_bytes v"
proof -
  have *: "magnitude \<noteq> 0 \<Longrightarrow> \<not> magnitude \<le> 255 \<Longrightarrow> \<not> magnitude \<le> 65535 \<Longrightarrow> unat magnitude \<le> 4294967295"
    for magnitude :: u32 using unat_bounds(2) [of magnitude] by simp
  show ?thesis
    using unat_bounds(2) [of v] unat_bounds(2) [of "- v"]
    by (simp add: write_sb4_def sb4_bytes_def ub_bytes_def appends unat_le_iff_numeral unat_ucast_small
        unat_eq_zero Let_def)
qed

lemma byte_le_8_sign:
  assumes "(len :: byte) \<le> 8"
  shows "(len OR 0x80) AND 0x7f = len" "(len OR 0x80) AND 0x80 \<noteq> 0" "len AND 0x7f = len" "len AND 0x80 = 0"
proof -
  have "unat len \<le> 8" using assms by (simp add: word_le_nat_alt)
  then have "unat len \<in> {0, 1, 2, 3, 4, 5, 6, 7, 8}" by auto
  then have "len \<in> {0, 1, 2, 3, 4, 5, 6, 7, 8}" by (auto simp: word_unat_eq_iff)
  then show "(len OR 0x80) AND 0x7f = len" "(len OR 0x80) AND 0x80 \<noteq> 0" "len AND 0x7f = len"
    "len AND 0x80 = 0" by auto
qed

lemma read_sb4_slice:
  assumes "reader_wf r" and "remaining_slice r = sb4_bytes v @ ys"
  shows "read_sb4 r = (Inr v, advance (length (sb4_bytes v)) r)"
proof -
  define sign :: byte where "sign = (if sint v < 0 then 0x80 else 0)"
  define mag where "mag = (if sint v < 0 then - v else v)"
  have "unat mag < 2 ^ 64" using unat_bounds(2) [of mag] by simp
  then obtain len body where b: "ub_bytes (unat mag) = len # body" "unat len = length body"
    "be_nat body = unat mag" "len = 0 \<longleftrightarrow> unat mag = 0" "unat mag < 2 ^ 32 \<longrightarrow> len \<le> 4"
    "unat mag < 2 ^ 16 \<longrightarrow> len \<le> 2" "len \<le> 8"
    by (rule ub_bytes_Cons)
  have sb: "sb4_bytes v = (len OR sign) # body"
    using b(1) by (simp add: sb4_bytes_def sign_def mag_def split: if_splits)
  have len: "(len OR sign) AND 0x7f = len" "((len OR sign) AND 0x80 \<noteq> 0) = (sint v < 0)"
    using byte_le_8_sign [OF b(7)] by (auto simp: sign_def)
  have "reader_wf (advance 1 r)" "remaining_slice (advance 1 r) = body @ ys"
    using slice_append [OF assms(1), of "[len OR sign]" "body @ ys"] assms(2) sb by simp_all
  then have raw: "read_raw (unat len) (advance 1 r) = (Inr body, advance (1 + unat len) r)"
    using read_raw_slice' b(2) by force
  have u8: "read_u8 r = (Inr (len OR sign), advance 1 r)"
    using read_u8_slice assms sb by simp
  have len4: "\<not> 4 < len" using b(5) unat_bounds(2) [of mag] by (simp add: not_less)
  have val: "(sint v < 0 \<longrightarrow> - mag = v) \<and> (\<not> sint v < 0 \<longrightarrow> mag = v)" by (simp add: mag_def)
  show ?thesis
  proof (cases "len = 0")
    case True
    then have "mag = 0" "body = []" using b by (simp_all add: unat_eq_zero)
    with True u8 len val sb show ?thesis
      by (simp add: read_sb4_def rbind_def split: if_splits)
  next
    case False
    with u8 len raw len4 val sb b(2,3) show ?thesis
      by (simp add: read_sb4_def rbind_def shift_or_be_nat Let_def)
  qed
qed

subsection \<open>Byte fields\<close>

lemma count_chunk_ok:
  "chunk_count + 1 \<le> max_lob_chunks l \<Longrightarrow> chunk_count + 1 \<le> usize_max \<Longrightarrow>
   total_len + n \<le> max_response_bytes l \<Longrightarrow> total_len + n \<le> usize_max \<Longrightarrow>
   count_chunk l chunk_count total_len n = Inr (chunk_count + 1, total_len + n)"
  by (simp add: count_chunk_def checked_add_usize_def check_defs check_def)

definition chunk_enc :: "byte list list \<Rightarrow> byte list" where
  "chunk_enc cs = concat (map (\<lambda>c. ub_bytes (length c) @ c) cs)"

lemma chunk_enc_simps [simp]:
  "chunk_enc [] = []"
  "chunk_enc (c # cs) = ub_bytes (length c) @ c @ chunk_enc cs"
  by (simp_all add: chunk_enc_def)

lemma read_chunks_slice:
  assumes "reader_wf r" and "remaining_slice r = chunk_enc cs @ ub_bytes 0 @ ys"
    and "\<And>c. c \<in> set cs \<Longrightarrow> 0 < length c \<and> length c < 2 ^ 32"
    and "chunk_count + length cs \<le> max_lob_chunks (limits r)"
    and "chunk_count + length cs \<le> usize_max"
    and "total_len + length (concat cs) \<le> max_response_bytes (limits r)"
    and "total_len + length (concat cs) \<le> usize_max"
  shows "read_chunks chunk_count total_len out r =
    (Inr (out @ concat cs), advance (length (chunk_enc cs @ ub_bytes 0)) r)"
  using assms
proof (induction cs arbitrary: chunk_count total_len out r)
  case Nil
  then have "read_ub4 r = (Inr 0, advance (length (ub_bytes 0)) r)"
    using read_ub4_slice [of r 0 ys] by simp
  then show ?case by (simp add: read_chunks.simps rbind_def)
next
  case (Cons c cs)
  define n :: u32 where "n = of_nat (length c)"
  have c: "0 < length c" "length c < 2 ^ 32" using Cons.prems(3) by auto
  then have n: "unat n = length c" "n \<noteq> 0" by (auto simp: n_def unat_of_nat word_unat_eq_iff)
  let ?r1 = "advance (length (ub_bytes (length c))) r"
  let ?r2 = "advance (length c) ?r1"
  have 1: "read_ub4 r = (Inr n, ?r1)"
    using read_ub4_slice [of r n] Cons.prems(1,2) n by simp
  have w1: "reader_wf ?r1" "remaining_slice ?r1 = c @ chunk_enc cs @ ub_bytes 0 @ ys"
    using slice_append [OF Cons.prems(1)] Cons.prems(2) by simp_all
  have 2: "read_raw (length c) ?r1 = (Inr c, ?r2)"
    using read_raw_slice [OF w1] .
  have 3: "count_chunk (limits ?r1) chunk_count total_len (length c) =
      Inr (chunk_count + 1, total_len + length c)"
    using Cons.prems(4-7) by (intro count_chunk_ok) simp_all
  have "read_chunks (chunk_count + 1) (total_len + length c) (out @ c) ?r2 =
      (Inr ((out @ c) @ concat cs), advance (length (chunk_enc cs @ ub_bytes 0)) ?r2)"
    using slice_append [OF w1] Cons.prems(3-7) by (intro Cons.IH) auto
  with 1 2 3 n show ?case
    by (simp add: read_chunks.simps [of chunk_count] rbind_def add.assoc)
qed


lemma length_ub_bytes_pos: "0 < length (ub_bytes n)"
  by (simp add: ub_bytes_def)

lemma length_concat_le_chunk_enc: "length (concat cs) + length cs \<le> length (chunk_enc cs)"
proof (induction cs)
  case Nil
  then show ?case by simp
next
  case (Cons c cs)
  then show ?case using length_ub_bytes_pos [of "length c"] by (cases "ub_bytes (length c)") auto
qed

lemma field_bytes_long:
  "\<not> length v \<le> TNS_MAX_SHORT_LENGTH \<Longrightarrow>
   field_bytes v = TNS_LONG_LENGTH_INDICATOR # chunk_enc (chunks 32767 v) @ ub_bytes 0"
  by (simp add: field_bytes_def chunk_enc_def)

lemma read_bytes_slice:
  assumes "reader_wf r" and "remaining_slice r = field_bytes v @ ys"
    and "length (chunks 32767 v) \<le> max_lob_chunks (limits r)"
  shows "read_bytes r = (Inr (if v = [] then None else Some v), advance (length (field_bytes v)) r)"
proof (cases "length v \<le> TNS_MAX_SHORT_LENGTH")
  case True
  define len :: byte where "len = of_nat (length v)"
  have len: "unat len = length v" "len \<noteq> TNS_LONG_LENGTH_INDICATOR" "len \<noteq> TNS_NULL_LENGTH_INDICATOR"
    "len = 0 \<longleftrightarrow> v = []"
    using True by (auto simp: len_def tns_consts word_unat_eq_iff)
  have fb: "field_bytes v = len # v" using True by (simp add: field_bytes_def len_def)
  have u8: "read_u8 r = (Inr len, advance 1 r)"
    using read_u8_slice assms(1,2) fb by simp
  have w: "reader_wf (advance 1 r)" "remaining_slice (advance 1 r) = v @ ys"
    using slice_append [OF assms(1), of "[len]" "v @ ys"] assms(2) fb by simp_all
  have raw: "read_raw (length v) (advance 1 r) = (Inr v, advance (1 + length v) r)"
    using read_raw_slice [OF w] by simp
  have lim: "length v \<le> max_response_bytes (limits r)"
    using slice_append(1) [OF w] w(1) by (simp add: reader_wf_def)
  show ?thesis
    using u8 len raw fb lim
    by (simp add: read_bytes_def rbind_def check_defs check_def)
next
  case False
  note fb = field_bytes_long [OF False]
  let ?cs = "chunks 32767 v"
  have cc: "concat ?cs = v" by (simp add: concat_chunks)
  have u8: "read_u8 r = (Inr TNS_LONG_LENGTH_INDICATOR, advance 1 r)"
    using read_u8_slice assms(1,2) fb by simp
  have w: "reader_wf (advance 1 r)" "remaining_slice (advance 1 r) = chunk_enc ?cs @ ub_bytes 0 @ ys"
    using slice_append [OF assms(1), of "[TNS_LONG_LENGTH_INDICATOR]"] assms(2) fb by simp_all
  have bound: "length v + length ?cs \<le> length (bytes r)"
    using slice_append(1) [OF w] length_concat_le_chunk_enc [of ?cs] cc by simp
  have "read_chunks 0 0 [] (advance 1 r) =
      (Inr ([] @ concat ?cs), advance (length (chunk_enc ?cs @ ub_bytes 0)) (advance 1 r))"
    using w assms(1,3) bound chunks_lengths [of _ 32767 v] cc
    by (intro read_chunks_slice) (fastforce simp: reader_wf_def)+
  then show ?thesis
    using u8 fb cc False by (auto simp: read_bytes_def rbind_def tns_consts)
qed

lemma read_bytes_with_length_slice:
  assumes "reader_wf r" and "length v < 2 ^ 32"
    and "remaining_slice r = ub_bytes (length v) @ (if v = [] then [] else field_bytes v) @ ys"
    and "length (chunks 32767 v) \<le> max_lob_chunks (limits r)"
  shows "read_bytes_with_length r =
    (Inr (if v = [] then None else Some v),
     advance (length (ub_bytes (length v) @ (if v = [] then [] else field_bytes v))) r)"
proof -
  define n :: u32 where "n = of_nat (length v)"
  have n: "unat n = length v" using assms(2) by (simp add: n_def unat_of_nat)
  let ?r1 = "advance (length (ub_bytes (length v))) r"
  have 1: "read_ub4 r = (Inr n, ?r1)"
    using read_ub4_slice [of r n] assms(1,3) n by simp
  have w: "reader_wf ?r1" "remaining_slice ?r1 = (if v = [] then [] else field_bytes v) @ ys"
    using slice_append [OF assms(1)] assms(3) by auto
  show ?thesis
  proof (cases "v = []")
    case True
    with 1 n show ?thesis
      by (simp add: read_bytes_with_length_def rbind_def check_defs check_def)
  next
    case False
    then have 2: "read_bytes ?r1 = (Inr (Some v), advance (length (field_bytes v)) ?r1)"
      using read_bytes_slice [OF w(1)] w(2) assms(4) by simp
    have "length v \<le> length (field_bytes v)"
      using length_concat_le_chunk_enc [of "chunks 32767 v"] concat_chunks [of 32767 v]
      by (cases "length v \<le> TNS_MAX_SHORT_LENGTH") (simp_all add: field_bytes_long, simp add: field_bytes_def)
    then have "length v \<le> max_response_bytes (limits r)"
      using slice_append(1) [OF w(1)] w(2) False assms(1) by (fastforce simp: reader_wf_def)
    with 1 2 n False show ?thesis
      by (simp add: read_bytes_with_length_def rbind_def check_defs check_def Let_def)
  qed
qed

subsection \<open>Agreement of the three field readers\<close>

definition map_result :: "('a \<Rightarrow> 'b) \<Rightarrow> 'a res \<times> 's \<Rightarrow> 'b res \<times> 's" where
  "map_result f x = (map_sum id f (fst x), snd x)"

lemma map_result_simps [simp]:
  "map_result f (Inl e, r) = (Inl e, r)"
  "map_result f (Inr x, r) = (Inr (f x), r)"
  by (simp_all add: map_result_def)

lemma map_result_rbind: "map_result f (rbind m g r) = rbind m (\<lambda>x s. map_result f (g x s)) r"
  by (auto simp: rbind_def split: prod.splits sum.splits)

lemma rbind_skip: "rbind (skip n) g r = rbind (read_raw n) (\<lambda>_. g ()) r"
  by (auto simp: rbind_def skip_def split: prod.splits sum.splits)

lemma skip_chunks_read_chunks:
  "skip_chunks chunk_count total_len r = map_result (\<lambda>_. ()) (read_chunks chunk_count total_len out r)"
proof (induction chunk_count total_len out r rule: read_chunks.induct)
  case (1 chunk_count total_len out r)
  show ?case
    unfolding read_chunks.simps [of chunk_count total_len out r]
      skip_chunks.simps [of chunk_count total_len r] map_result_rbind
  proof (rule rbind_fundef_cong [OF refl])
    fix n r1
    assume n: "read_ub4 r = (Inr n, r1)"
    have IH: "skip_chunks a b s = map_result (\<lambda>_. ()) (read_chunks a b (out @ x) s)"
      if "n \<noteq> 0" "count_chunk (limits r1) chunk_count total_len (unat n) = Inr (a, b)"
        "read_raw (unat n) r1 = (Inr x, s)" for a b x s
      using 1 [OF n, of "(a, b)"] that by simp
    show "(if n = 0 then (Inr (), r1)
        else rbind (rlift (count_chunk (limits r1) chunk_count total_len (unat n)))
          (\<lambda>ct. rbind (skip (unat n)) (\<lambda>_. skip_chunks (fst ct) (snd ct))) r1) =
      map_result (\<lambda>_. ()) (if n = 0 then (Inr out, r1)
        else rbind (rlift (count_chunk (limits r1) chunk_count total_len (unat n)))
          (\<lambda>ct. rbind (read_raw (unat n)) (\<lambda>chunk. read_chunks (fst ct) (snd ct) (out @ chunk))) r1)"
      by (cases "n = 0")
        (auto simp: map_result_rbind rbind_skip intro!: rbind_fundef_cong IH)
  qed
qed

lemma skip_bytes_field_agrees: "skip_bytes_field r = map_result (\<lambda>_. ()) (read_bytes r)"
  unfolding skip_bytes_field_def read_bytes_def map_result_rbind
  by (rule rbind_fundef_cong [OF refl])
    (auto simp: map_result_rbind skip_chunks_read_chunks [where out = "[]"] skip_def
      intro!: rbind_fundef_cong, auto simp: rbind_def split: prod.splits sum.splits)

fun borrowed_value :: "borrowed_bytes \<Rightarrow> byte list option" where
  "borrowed_value BNull = None"
| "borrowed_value (BSlice bs) = Some bs"
| "borrowed_value (BChunked bs) = Some bs"

lemma read_bytes_borrowed_agrees: "read_bytes r = map_result borrowed_value (read_bytes_borrowed r)"
  unfolding read_bytes_borrowed_def read_bytes_def map_result_rbind
  by (rule rbind_fundef_cong [OF refl])
    (auto simp: map_result_rbind intro!: rbind_fundef_cong)

subsection \<open>Strings\<close>

definition utf8_cont :: "byte \<Rightarrow> bool" where
  "utf8_cont b \<longleftrightarrow> 0x80 \<le> b \<and> b \<le> 0xbf"

fun utf8_valid :: "byte list \<Rightarrow> bool" where
  "utf8_valid [] = True"
| "utf8_valid (b1 # rest) =
     (if b1 < 0x80 then utf8_valid rest
      else if 0xc2 \<le> b1 \<and> b1 \<le> 0xdf then
        (case rest of b2 # r \<Rightarrow> utf8_cont b2 \<and> utf8_valid r | _ \<Rightarrow> False)
      else if 0xe0 \<le> b1 \<and> b1 \<le> 0xef then
        (case rest of
           b2 # b3 # r \<Rightarrow> utf8_cont b2 \<and> (b1 = 0xe0 \<longrightarrow> 0xa0 \<le> b2) \<and> (b1 = 0xed \<longrightarrow> b2 \<le> 0x9f) \<and>
             utf8_cont b3 \<and> utf8_valid r
         | _ \<Rightarrow> False)
      else if 0xf0 \<le> b1 \<and> b1 \<le> 0xf4 then
        (case rest of
           b2 # b3 # b4 # r \<Rightarrow> utf8_cont b2 \<and> (b1 = 0xf0 \<longrightarrow> 0x90 \<le> b2) \<and> (b1 = 0xf4 \<longrightarrow> b2 \<le> 0x8f) \<and>
             utf8_cont b3 \<and> utf8_cont b4 \<and> utf8_valid r
         | _ \<Rightarrow> False)
      else False)"

definition string_from_utf8 :: "byte list option \<Rightarrow> byte list option res" where
  "string_from_utf8 x =
     (case x of
        None \<Rightarrow> Inr None
      | Some bs \<Rightarrow> if utf8_valid bs then Inr (Some bs)
                  else Inl (TtcDecode ''server sent non-UTF8 string''))"

definition read_string :: "(ttc_reader, byte list option) step" where
  "read_string = rbind read_bytes (\<lambda>x. rlift (string_from_utf8 x))"

definition read_string_with_length :: "(ttc_reader, byte list option) step" where
  "read_string_with_length = rbind read_bytes_with_length (\<lambda>x. rlift (string_from_utf8 x))"

subsection \<open>The reader interface\<close>

interpretation ttc: bounded_reader remaining limits reader_wf read_raw
proof
  fix r n
  assume "reader_wf r" and "n \<le> remaining r"
  then have "read_raw n r = (Inr (take n (drop (pos r) (bytes r))), advance n r) \<and>
      reader_wf (advance n r)"
    by (auto simp: read_raw_Inr_iff reader_wf_def remaining_def advance_def)
  then show "\<exists>bs r'. read_raw n r = (Inr bs, r') \<and> reader_wf r'" by blast
next
  fix n r bs r'
  assume "read_raw n r = (Inr bs, r')"
  then show "length bs = n \<and> n + remaining r' = remaining r"
    by (auto simp: read_raw_Inr_iff remaining_def)
qed

lemma step_ok_read_chunks [intro, simp]: "step_ok (read_chunks chunk_count total_len out)"
proof -
  have "bytes (snd (read_chunks chunk_count total_len out r)) = bytes r \<and>
    limits (snd (read_chunks chunk_count total_len out r)) = limits r \<and>
    pos r \<le> pos (snd (read_chunks chunk_count total_len out r)) \<and>
    (pos r \<le> length (bytes r) \<longrightarrow>
       pos (snd (read_chunks chunk_count total_len out r)) \<le> length (bytes r))" for r
  proof (induction chunk_count total_len out r rule: read_chunks.induct)
    case (1 chunk_count total_len out r)
    show ?case
    proof (cases "read_ub4 r")
      case (Pair x r1)
      note s1 = step_okD [OF step_ok_integers(2) Pair]
      show ?thesis
      proof (cases "\<exists>n ct chunk r2. x = Inr n \<and> n \<noteq> 0 \<and>
          count_chunk (limits r1) chunk_count total_len (unat n) = Inr ct \<and>
          read_raw (unat n) r1 = (Inr chunk, r2)")
        case True
        then obtain n ct chunk r2 where t: "x = Inr n" "n \<noteq> 0"
          "count_chunk (limits r1) chunk_count total_len (unat n) = Inr ct"
          "read_raw (unat n) r1 = (Inr chunk, r2)" by blast
        note s2 = step_okD [OF step_ok_read_raw t(4)]
        from 1 [of n r1 ct r1 chunk r2] t Pair s1 s2 show ?thesis
          by (auto simp: read_chunks.simps [of chunk_count] rbind_def)
      next
        case False
        then have "snd (read_chunks chunk_count total_len out r) = r1"
          using Pair by (auto simp: read_chunks.simps [of chunk_count] rbind_def
              split: sum.splits prod.splits dest: read_raw_Inl)
        with s1 show ?thesis by simp
      qed
    qed
  qed
  then show ?thesis by (simp add: step_ok_def)
qed

lemma step_ok_limits: "(\<And>l. step_ok (m l)) \<Longrightarrow> step_ok (\<lambda>r. m (limits r) r)"
  by (simp add: step_ok_def)

lemmas step_oks = step_ok_rbind step_ok_if step_ok_rret step_ok_rlift step_ok_read_u8
  step_ok_read_raw step_ok_skip step_ok_fixed step_ok_integers step_ok_read_chunks

lemma step_ok_read_bytes [intro, simp]: "step_ok read_bytes"
proof -
  have "step_ok (\<lambda>r. rbind (rlift (check_response_bytes (limits r) n)) (\<lambda>_.
      rbind (read_raw n) (\<lambda>bs. rret (Some bs))) r)" for n
    by (rule step_ok_limits) (intro step_oks)
  then show ?thesis unfolding read_bytes_def by (intro step_oks)
qed

lemma step_ok_read_bytes_with_length [intro, simp]: "step_ok read_bytes_with_length"
proof -
  have F: "step_ok (\<lambda>r. if unat (n :: u32) = 0 then (Inr None, r)
       else
         (let value_start = pos r;
              fallback = (\<lambda>r'. rbind (read_raw (unat n)) (\<lambda>bs. rret (Some bs))
                               (r'\<lparr>pos := value_start\<rparr>))
          in case read_bytes r of
               (Inr (Some bs), r') \<Rightarrow> if length bs = unat n then (Inr (Some bs), r') else fallback r'
             | (Inr None, r') \<Rightarrow> fallback r'
             | (Inl e, r') \<Rightarrow> fallback r'))" (is "step_ok ?F") for n
    unfolding step_ok_def
  proof
    fix r
    let ?f = "rbind (read_raw (unat n)) (\<lambda>bs. rret (Some bs))"
    obtain x r' where x: "read_bytes r = (x, r')" by fastforce
    note s = step_okD [OF step_ok_read_bytes x]
    then have eq: "r'\<lparr>pos := pos r\<rparr> = r" by simp
    have "?F r = (Inr None, r) \<or> ?F r = (x, r') \<or> ?F r = ?f r"
      using x eq by (cases x) (simp_all add: Let_def split: option.split)
    moreover have "step_ok ?f" by (intro step_oks)
    then have "bytes (snd (?f r)) = bytes r \<and> limits (snd (?f r)) = limits r \<and>
        pos r \<le> pos (snd (?f r)) \<and>
        (pos r \<le> length (bytes r) \<longrightarrow> pos (snd (?f r)) \<le> length (bytes r))"
      unfolding step_ok_def by blast
    ultimately show "bytes (snd (?F r)) = bytes r \<and> limits (snd (?F r)) = limits r \<and>
        pos r \<le> pos (snd (?F r)) \<and>
        (pos r \<le> length (bytes r) \<longrightarrow> pos (snd (?F r)) \<le> length (bytes r))"
      using s by (elim disjE) simp_all
  qed
  have "step_ok (\<lambda>r. rbind (rlift (check_response_bytes (limits r) (unat n))) (\<lambda>_. ?F n) r)" for n
    by (rule step_ok_limits) (intro step_oks F)
  then show ?thesis unfolding read_bytes_with_length_def by (intro step_oks)
qed

lemma step_ok_map_result: "step_ok m \<Longrightarrow> step_ok (\<lambda>r. map_result f (m r))"
  by (simp add: step_ok_def map_result_def)

lemma step_ok_fields [intro, simp]:
  "step_ok skip_bytes_field" "step_ok read_bytes_borrowed" "step_ok read_string"
  "step_ok read_string_with_length"
proof -
  have eq: "skip_bytes_field = (\<lambda>r. map_result (\<lambda>_. ()) (read_bytes r))"
    using skip_bytes_field_agrees by blast
  show "step_ok skip_bytes_field"
    unfolding eq by (rule step_ok_map_result) (rule step_ok_read_bytes)
  have "step_ok (\<lambda>r. rbind (rlift (check_response_bytes (limits r) n)) (\<lambda>_.
      rbind (read_raw n) (\<lambda>bs. rret (BSlice bs))) r)" for n
    by (rule step_ok_limits) (intro step_oks)
  then show "step_ok read_bytes_borrowed" unfolding read_bytes_borrowed_def by (intro step_oks)
  show "step_ok read_string" "step_ok read_string_with_length"
    unfolding read_string_def read_string_with_length_def
    by (intro step_oks step_ok_read_bytes step_ok_read_bytes_with_length)+
qed

subsection \<open>Properties\<close>

text \<open>The buffer a writer produced, followed by anything, read at a position.\<close>

definition written :: "ttc_writer \<Rightarrow> byte list \<Rightarrow> protocol_limits \<Rightarrow> nat \<Rightarrow> ttc_reader" where
  "written w ys l p = \<lparr>bytes = w_bytes w @ ys, pos = p, limits = l\<rparr>"

definition reads_back :: "(ttc_reader, 'a) step \<Rightarrow> 'a \<Rightarrow> ttc_writer \<Rightarrow> ttc_writer \<Rightarrow> protocol_limits \<Rightarrow> bool"
  where
  "reads_back m v w w' l \<longleftrightarrow>
     (\<forall>ys. reader_wf (written w' ys l (length (w_bytes w))) \<longrightarrow>
        m (written w' ys l (length (w_bytes w))) = (Inr v, written w' ys l (length (w_bytes w'))))"

lemma reads_backI:
  assumes "w_bytes w' = w_bytes w @ enc"
    and "\<And>r ys. reader_wf r \<Longrightarrow> limits r = l \<Longrightarrow> remaining_slice r = enc @ ys \<Longrightarrow>
      m r = (Inr v, advance (length enc) r)"
  shows "reads_back m v w w' l"
  unfolding reads_back_def
proof (intro allI impI)
  fix ys
  assume wf: "reader_wf (written w' ys l (length (w_bytes w)))"
  have "remaining_slice (written w' ys l (length (w_bytes w))) = enc @ ys"
    using assms(1) by (simp add: remaining_slice_def written_def)
  with assms wf show "m (written w' ys l (length (w_bytes w))) =
      (Inr v, written w' ys l (length (w_bytes w')))"
    by (simp add: written_def advance_def)
qed

text \<open>
  C17. Integer round trip. Whatever was written before and follows after, reading at the place
  where \<^verbatim>\<open>write_ub2\<close>, \<^verbatim>\<open>write_ub4\<close>, \<^verbatim>\<open>write_ub8\<close> or \<^verbatim>\<open>write_sb4\<close> wrote
  returns the value, and the reader ends exactly where the writer stopped. This holds for
  every value of the type, the most negative \<^verbatim>\<open>i32\<close> included.
\<close>

theorem wire_integer_roundtrip:
  "reads_back read_ub2 x w (write_ub2 x w) l \<and> reads_back read_ub4 y w (write_ub4 y w) l \<and>
   reads_back read_ub8 z w (write_ub8 z w) l \<and> reads_back read_sb4 s w (write_sb4 s w) l"
proof (intro conjI)
  show "reads_back read_ub2 x w (write_ub2 x w) l"
    by (rule reads_backI [OF w_bytes_ub(1)]) (rule read_ub2_slice)
  show "reads_back read_ub4 y w (write_ub4 y w) l"
    by (rule reads_backI [OF w_bytes_ub(2)]) (rule read_ub4_slice)
  show "reads_back read_ub8 z w (write_ub8 z w) l"
    by (rule reads_backI [OF w_bytes_ub(3)]) (rule read_ub8_slice)
  show "reads_back read_sb4 s w (write_sb4 s w) l"
    by (rule reads_backI [OF w_bytes_sb4]) (rule read_sb4_slice)
qed

text \<open>
  C4. Byte-field round trip. \<^verbatim>\<open>write_bytes_with_length\<close> never fails, and \<^verbatim>\<open>read_bytes\<close>
  returns what it wrote: the value itself in the short and in the chunked long form, \<^verbatim>\<open>None\<close>
  for the empty value, whose encoding is the NULL encoding. The one condition is that the
  number of 32767-byte chunks is within the reader's chunk limit.
\<close>

theorem byte_field_roundtrip:
  assumes "length (chunks 32767 v) \<le> max_lob_chunks l"
  shows "\<exists>w'. write_bytes_with_length v w = Inr w' \<and>
    reads_back read_bytes (if v = [] then None else Some v) w w' l"
proof -
  obtain w' where w': "write_bytes_with_length v w = Inr w'" "w_bytes w' = w_bytes w @ field_bytes v"
    using write_bytes_with_length_ok by blast
  with assms show ?thesis
    by (intro exI [of _ w'] conjI reads_backI [OF w'(2)] read_bytes_slice) simp_all
qed

theorem byte_field_roundtrip_witness:
  "length (chunks 32767 (replicate 300 (7 :: byte))) \<le> max_lob_chunks default_limits \<and>
   (\<exists>w'. write_bytes_with_length (replicate 300 7) new_writer = Inr w' \<and>
     reads_back read_bytes (Some (replicate 300 7)) new_writer w' default_limits)"
proof -
  have h: "length (chunks 32767 (replicate 300 (7 :: byte))) \<le> max_lob_chunks default_limits"
    by (simp add: length_chunks default_limits_def)
  from byte_field_roundtrip [OF h, of new_writer] h show ?thesis by simp
qed

lemma two_lengths_bytes:
  assumes "length v < 2 ^ 32"
  obtains w' where "write_bytes_with_two_lengths (Some v) w = Inr w'"
    "w_bytes w' = w_bytes w @ ub_bytes (length v) @ (if v = [] then [] else field_bytes v)"
proof -
  let ?w = "write_ub4 (of_nat (length v)) w"
  have w: "w_bytes ?w = w_bytes w @ ub_bytes (length v)"
    using assms by (simp add: appends unat_of_nat)
  obtain w' where "write_bytes_with_length v ?w = Inr w'" "w_bytes w' = w_bytes ?w @ field_bytes v"
    using write_bytes_with_length_ok by blast
  with assms w show thesis
    using that [of ?w] that [of w'] by (cases "v = []") (simp_all add: write_bytes_with_two_lengths_def try_u32_def)
qed

text \<open>
  Two-length round trip. A value of less than 4 GiB written by
  \<^verbatim>\<open>write_bytes_with_two_lengths\<close> is read back by \<^verbatim>\<open>read_bytes_with_length\<close>, which
  never takes its raw fallback on such input; valid UTF-8 also comes back through
  \<^verbatim>\<open>read_string_with_length\<close>.
\<close>

theorem two_lengths_roundtrip:
  assumes "length v < 2 ^ 32" and "length (chunks 32767 v) \<le> max_lob_chunks l"
  shows "\<exists>w'. write_bytes_with_two_lengths (Some v) w = Inr w' \<and>
    reads_back read_bytes_with_length (if v = [] then None else Some v) w w' l \<and>
    (utf8_valid v \<longrightarrow>
      reads_back read_string_with_length (if v = [] then None else Some v) w w' l)"
proof -
  let ?enc = "ub_bytes (length v) @ (if v = [] then [] else field_bytes v)"
  obtain w' where w': "write_bytes_with_two_lengths (Some v) w = Inr w'" "w_bytes w' = w_bytes w @ ?enc"
    using two_lengths_bytes [OF assms(1)] by blast
  have read: "read_bytes_with_length r = (Inr (if v = [] then None else Some v), advance (length ?enc) r)"
    if "reader_wf r" "limits r = l" "remaining_slice r = ?enc @ ys" for r ys
    using that assms by (intro read_bytes_with_length_slice) simp_all
  then have "reads_back read_bytes_with_length (if v = [] then None else Some v) w w' l"
    by (intro reads_backI [OF w'(2)])
  moreover have "reads_back read_string_with_length (if v = [] then None else Some v) w w' l"
    if "utf8_valid v"
    using read that
    by (intro reads_backI [OF w'(2)])
      (simp add: read_string_with_length_def rbind_def string_from_utf8_def)
  ultimately show ?thesis using w'(1) by blast
qed

theorem two_lengths_roundtrip_witness:
  "utf8_valid [0xc3, 0xa4] \<and>
   (\<exists>w'. write_bytes_with_two_lengths (Some [0xc3, 0xa4]) new_writer = Inr w' \<and>
     reads_back read_string_with_length (Some [0xc3, 0xa4]) new_writer w' default_limits)"
proof -
  have h: "length (chunks 32767 [0xc3 :: byte, 0xa4]) \<le> max_lob_chunks default_limits"
    by (simp add: length_chunks default_limits_def)
  have u: "utf8_valid [0xc3, 0xa4]" by (simp add: utf8_cont_def)
  show ?thesis using two_lengths_roundtrip [OF _ h, of new_writer] u by auto
qed

text \<open>
  C24. The three readers of a length-prefixed field agree on every input: the allocation-free
  skip and the borrowing reader succeed and fail with \<^verbatim>\<open>read_bytes\<close>, with the same error,
  consume exactly the same bytes, and the borrowing reader carries the same value.
\<close>

theorem field_readers_agree:
  "skip_bytes_field r = map_result (\<lambda>_. ()) (read_bytes r) \<and>
   read_bytes r = map_result borrowed_value (read_bytes_borrowed r)"
  using skip_bytes_field_agrees read_bytes_borrowed_agrees by blast

text \<open>
  C25. Memory safety of the reader. Every read method, on every buffer and whether it succeeds or
  fails, keeps the buffer and the limits, never moves the position backwards, and never moves
  it past the end of the buffer.
\<close>

theorem reader_stays_in_buffer:
  "step_ok read_u8 \<and> step_ok (read_raw n) \<and> step_ok (skip n) \<and> step_ok read_u16be \<and>
   step_ok read_u16le \<and> step_ok read_u32be \<and> step_ok read_ub2 \<and> step_ok read_ub4 \<and>
   step_ok read_ub8 \<and> step_ok read_sb4 \<and> step_ok read_sb8 \<and> step_ok read_bytes \<and>
   step_ok read_bytes_borrowed \<and> step_ok skip_bytes_field \<and> step_ok read_bytes_with_length \<and>
   step_ok read_string \<and> step_ok read_string_with_length"
  by (intro conjI step_oks step_ok_read_bytes step_ok_read_bytes_with_length step_ok_fields)

text \<open>
  The allocation bound of \<^verbatim>\<open>alloc_count_checked\<close> is exact on the TTC reader: a declared
  count of elements of at least one byte each is accepted exactly when that many elements can
  be read from the rest of the buffer.
\<close>

theorem ttc_alloc_count_exact:
  assumes "reader_wf r" and "1 \<le> m" and "count \<le> max_length_prefixed_elements (limits r)"
  shows "alloc_count_checked (limits r) (remaining r) count m = Inr count \<longleftrightarrow>
    (\<exists>xs r'. read_run read_raw count m r = (Inr xs, r'))"
proof -
  have "remaining r \<le> usize_max" using assms(1)
    by (auto simp: reader_wf_def remaining_def intro: le_trans [OF diff_le_self])
  with assms show ?thesis by (rule ttc.alloc_count_exact)
qed

theorem ttc_alloc_count_exact_witness:
  "alloc_count_checked default_limits 4 2 2 = Inr 2 \<and>
   (\<exists>xs r'. read_run read_raw 2 2 (new_reader [1, 2, 3, 4]) = (Inr xs, r'))"
proof -
  have w: "reader_wf (new_reader [1, 2, 3, 4])"
    by (simp add: reader_wf_def new_reader_def default_limits_def usize_max_def)
  have r: "limits (new_reader [1, 2, 3, 4]) = default_limits" "remaining (new_reader [1, 2, 3, 4]) = 4"
    by (simp_all add: new_reader_def remaining_def)
  have a: "alloc_count_checked default_limits 4 2 2 = Inr 2"
    by (simp add: alloc_count_checked_Inr_iff default_limits_def usize_max_def)
  then show ?thesis
    using ttc_alloc_count_exact [OF w, of 2 2] r by (simp add: default_limits_def)
qed

text \<open>
  Attaching limits. \<^verbatim>\<open>TtcReader::with_limits\<close> succeeds exactly when every limit is
  positive, the packet, frame and response limits are ordered, and the buffer is within the
  frame limit; the reader it returns starts at the beginning of the buffer.
\<close>

theorem with_limits_iff:
  "with_limits bs l = Inr r \<longleftrightarrow>
     limits_wf l \<and> length bs \<le> max_frame_bytes l \<and> r = \<lparr>bytes = bs, pos = 0, limits = l\<rparr>"
  by (auto simp: with_limits_def ebind_Inr_iff validate_Inr_iff check_defs limits_wf_def)

end
