(* ===== verification/Tns_Packet.thy ===== *)
theory Tns_Packet
  imports Protocol_Limits
begin

text \<open>
  TNS packets (\<^verbatim>\<open>crates/oracledb-protocol/src/packet/mod.rs\<close> and \<^verbatim>\<open>encode_packet\<close> of
  \<^verbatim>\<open>wire.rs\<close>): the 8-byte header, encoding with a 16-bit or a 32-bit length, and the
  fail-closed parser. The lemmas give the round trip, the refusal of every incomplete packet,
  and the agreement of the two encoders.
\<close>

definition TNS_HEADER_LEN :: nat where "TNS_HEADER_LEN = 8"

record tns_packet =
  packet_type :: byte
  flags :: byte
  payload :: "byte list"

datatype packet_length_width = Legacy16 | Large32

definition encode :: "tns_packet \<Rightarrow> byte list res" where
  "encode p =
     (let len = TNS_HEADER_LEN + length (payload p)
      in if len < 2 ^ 16
         then Inr (be_bytes 2 len @ be_bytes 2 0 @ [packet_type p, flags p] @ be_bytes 2 0 @ payload p)
         else Inl (PacketTooLarge len))"

definition parse_with_limits :: "byte list \<Rightarrow> protocol_limits \<Rightarrow> tns_packet res" where
  "parse_with_limits input l =
     ebind (validate l) (\<lambda>l'.
     if length input < TNS_HEADER_LEN then Inl (TruncatedHeader (length input))
     else
       let declared = be_nat (take 2 input) in
       if declared < TNS_HEADER_LEN then Inl (InvalidPacketLength declared TNS_HEADER_LEN)
       else ebind (check_packet_bytes l' declared) (\<lambda>_.
         if declared > length input then Inl (IncompletePacket declared (length input))
         else Inr \<lparr>packet_type = input ! 4, flags = input ! 5,
                   payload = drop TNS_HEADER_LEN (take declared input)\<rparr>))"

definition parse :: "byte list \<Rightarrow> tns_packet res" where
  "parse input = parse_with_limits input default_limits"

definition encode_packet ::
  "byte \<Rightarrow> byte \<Rightarrow> u16 option \<Rightarrow> byte list \<Rightarrow> packet_length_width \<Rightarrow> byte list res" where
  "encode_packet ptype pflags data_flags pl width =
     (let data_flags_len = (if data_flags \<noteq> None then 1 else 0) * 2;
          len = TNS_HEADER_LEN + data_flags_len + length pl
      in ebind (case width of
            Legacy16 \<Rightarrow>
              if len < 2 ^ 16 then Inr (be_bytes 2 len @ be_bytes 2 0) else Inl (PacketTooLarge len)
          | Large32 \<Rightarrow>
              if len < 2 ^ 32 then Inr (be_bytes 4 len) else Inl (PacketTooLarge len)) (\<lambda>hdr.
         Inr (hdr @ [ptype, pflags] @ be_bytes 2 0 @
              (case data_flags of None \<Rightarrow> [] | Some fl \<Rightarrow> be_bytes 2 (unat fl)) @ pl)))"

subsection \<open>Lemmas\<close>

lemma be_bytes_2: "be_bytes 2 n = [of_nat (n div 256), of_nat n]"
  by (simp add: numeral_2_eq_2)

lemma encode_Inr:
  assumes "encode p = Inr bs"
  shows "length bs = TNS_HEADER_LEN + length (payload p)" "length bs < 2 ^ 16"
    "bs = be_bytes 2 (length bs) @ [0, 0, packet_type p, flags p, 0, 0] @ payload p"
  using assms by (auto simp: encode_def Let_def TNS_HEADER_LEN_def be_bytes_2 split: if_splits)

lemma parse_encoded:
  assumes "encode p = Inr bs" and "limits_wf l" and "length bs \<le> max_packet_bytes l"
  shows "parse_with_limits (bs @ rest) l = Inr p"
proof -
  note e = encode_Inr [OF assms(1)]
  have "take 2 (bs @ rest) = be_bytes 2 (length bs)"
    by (subst e(3)) simp
  then have d: "be_nat (take 2 (bs @ rest)) = length bs"
    using e(2) by (simp add: be_nat_be_bytes)
  have i: "(bs @ rest) ! 4 = packet_type p" "(bs @ rest) ! 5 = flags p" "drop 8 bs = payload p"
    by (subst e(3), simp add: be_bytes_2 del: of_nat_numeral)+
  have "validate l = Inr l" using assms(2) by (simp add: validate_Inr_iff)
  with d i e(1) assms(3) show ?thesis
    by (simp add: parse_with_limits_def TNS_HEADER_LEN_def check_defs check_def Let_def)
qed

lemma parse_Inr_iff:
  "parse_with_limits input l = Inr p \<longleftrightarrow>
     limits_wf l \<and> TNS_HEADER_LEN \<le> length input \<and>
     (let declared = be_nat (take 2 input) in
        TNS_HEADER_LEN \<le> declared \<and> declared \<le> max_packet_bytes l \<and> declared \<le> length input \<and>
        p = \<lparr>packet_type = input ! 4, flags = input ! 5,
             payload = drop TNS_HEADER_LEN (take declared input)\<rparr>)"
  by (auto simp: parse_with_limits_def ebind_Inr_iff validate_Inr_iff Let_def check_defs
    split: if_splits)

subsection \<open>Properties\<close>



text \<open>
  Incomplete input is refused. A strict prefix of an encoded packet never parses: the result
  is \<^verbatim>\<open>TruncatedHeader\<close> inside the header and \<^verbatim>\<open>IncompletePacket\<close>, with the declared
  and the available length, after it.
\<close>

theorem packet_prefix_refused:
  assumes "encode p = Inr bs" and "limits_wf l" and "length bs \<le> max_packet_bytes l"
    and "n < length bs"
  shows "parse_with_limits (take n bs) l =
    (if n < TNS_HEADER_LEN then Inl (TruncatedHeader n) else Inl (IncompletePacket (length bs) n))"
proof -
  note e = encode_Inr [OF assms(1)]
  have v: "validate l = Inr l" using assms(2) by (simp add: validate_Inr_iff)
  show ?thesis
  proof (cases "n < TNS_HEADER_LEN")
    case True
    with v assms(4) show ?thesis by (simp add: parse_with_limits_def)
  next
    case False
    then have "take 2 (take n bs) = take 2 bs" by (simp add: TNS_HEADER_LEN_def min_def)
    also have "\<dots> = be_bytes 2 (length bs)" by (subst e(3)) simp
    finally have "be_nat (take 2 (take n bs)) = length bs" using e(2) by (simp add: be_nat_be_bytes)
    with False v e(1) assms(3,4) show ?thesis
      by (simp add: parse_with_limits_def check_defs check_def Let_def)
  qed
qed

theorem packet_prefix_refused_witness:
  "parse_with_limits (take 9 [0, 10, 0, 0, 6, 0, 0, 0, 1, 2]) default_limits = Inl (IncompletePacket 10 9)"
proof -
  have e: "encode \<lparr>packet_type = 6, flags = 0, payload = [1, 2]\<rparr> = Inr [0, 10, 0, 0, 6, 0, 0, 0, 1, 2]"
    by (simp add: encode_def TNS_HEADER_LEN_def be_bytes_2)
  show ?thesis
    using packet_prefix_refused [OF e limits_wf_default, of 9]
    by (simp add: default_limits_def TNS_HEADER_LEN_def)
qed

text \<open>
  What the parser accepts. If parsing succeeds, encoding the result succeeds, has the declared
  length, which lies between the header length, the packet limit and the input length, and
  reproduces the length field and the payload of the input.
\<close>

theorem packet_parse_sound:
  assumes "parse_with_limits input l = Inr p"
  shows "\<exists>bs. encode p = Inr bs \<and> length bs = be_nat (take 2 input) \<and>
    length bs \<le> length input \<and> length bs \<le> max_packet_bytes l \<and>
    take 2 bs = take 2 input \<and> drop TNS_HEADER_LEN bs = drop TNS_HEADER_LEN (take (length bs) input)"
proof -
  let ?n = "be_nat (take 2 input)"
  have h: "8 \<le> length input" "8 \<le> ?n" "?n \<le> max_packet_bytes l" "?n \<le> length input"
    "p = \<lparr>packet_type = input ! 4, flags = input ! 5, payload = drop 8 (take ?n input)\<rparr>"
    using assms by (auto simp: parse_Inr_iff Let_def TNS_HEADER_LEN_def)
  have len2: "length (take 2 input) = 2" using h(1) by simp
  then have n: "?n < 2 ^ 16" using be_nat_less [of "take 2 input"] by simp
  have pl: "length (payload p) = ?n - 8" using h by simp
  have b2: "be_bytes 2 ?n = take 2 input" using be_bytes_be_nat [of "take 2 input"] len2 by simp
  let ?bs = "be_bytes 2 ?n @ be_bytes 2 0 @ [packet_type p, flags p] @ be_bytes 2 0 @ payload p"
  have e: "encode p = Inr ?bs" using n pl h(2) by (simp add: encode_def TNS_HEADER_LEN_def)
  moreover have "length ?bs = ?n" using pl h(2) by simp
  moreover have "drop 8 ?bs = drop 8 (take ?n input)"
    using h(5) by (simp add: be_bytes_2 len2 b2)
  ultimately show ?thesis using h b2 len2 by (intro exI [of _ ?bs]) (simp add: TNS_HEADER_LEN_def)
qed

theorem packet_parse_sound_witness:
  "\<exists>p bs. parse_with_limits [0, 9, 7, 7, 1, 2, 3, 3, 5, 6] default_limits = Inr p \<and>
     encode p = Inr bs \<and> length bs = 9"
proof -
  have "parse_with_limits [0, 9, 7, 7, 1, 2, 3, 3, 5, 6] default_limits =
      Inr \<lparr>packet_type = 1, flags = 2, payload = [5]\<rparr>"
    by (simp add: parse_Inr_iff TNS_HEADER_LEN_def default_limits_def limits_wf_def named_limits_def)
  from this packet_parse_sound [OF this] show ?thesis by auto
qed

text \<open>
  The two encoders agree: \<^verbatim>\<open>encode_packet\<close> with the 16-bit length and no data flags is
  \<^verbatim>\<open>TnsPacket::encode\<close>, errors included; data flags are the first two payload bytes.
\<close>

theorem encode_packet_agrees:
  "encode_packet t f None pl Legacy16 = encode \<lparr>packet_type = t, flags = f, payload = pl\<rparr> \<and>
   encode_packet t f (Some fl) pl Legacy16 =
     encode \<lparr>packet_type = t, flags = f, payload = be_bytes 2 (unat fl) @ pl\<rparr>"
  by (simp add: encode_packet_def encode_def Let_def)

end
