(* ===== verification/Number_Codec.thy ===== *)
theory Number_Codec
  imports Driver_Prelude Complex_Main "HOL-Library.Signed_Division"
begin

text \<open>
  Oracle \<^verbatim>\<open>NUMBER\<close> (\<^verbatim>\<open>crates/oracledb-protocol/src/thin/codecs.rs\<close> and
  \<^verbatim>\<open>thin/number.rs\<close>): the encoder from decimal text, the two digit walks of the decoder
  (heap and stack buffer), the text formatter, and the inline representation
  \<^verbatim>\<open>OracleNumber\<close>.

  Text is the list of its bytes. Decimal digits and base-100 mantissa values are \<open>nat\<close> (they
  fit a \<^verbatim>\<open>u8\<close> by construction); \<^verbatim>\<open>i16\<close>, \<^verbatim>\<open>i32\<close> and \<^verbatim>\<open>i128\<close> quantities are
  \<open>int\<close> with the range checks of the code written out.
\<close>

definition ascii :: "string \<Rightarrow> byte list" where
  "ascii s = map of_char s"

definition NUMBER_AS_TEXT_CHARS :: nat where "NUMBER_AS_TEXT_CHARS = 172"

definition NUMBER_MAX_DIGITS :: nat where "NUMBER_MAX_DIGITS = 40"

definition MAX_DIGITS :: nat where "MAX_DIGITS = 42"

definition i128_max :: int where "i128_max = 2 ^ 127 - 1"

definition i128_min :: int where "i128_min = - (2 ^ 127)"

definition is_ascii_digit :: "byte \<Rightarrow> bool" where
  "is_ascii_digit b \<longleftrightarrow> 48 \<le> b \<and> b \<le> 57"

definition digit_of :: "byte \<Rightarrow> nat" where
  "digit_of b = unat b - 48"

subsection \<open>Encoding decimal text\<close>

text \<open>
  The three scanning loops of \<^verbatim>\<open>encode_number_text\<close>, each on the unread suffix of the text.
  They return the accumulated digits, the decimal point index, and the suffix at which they
  stopped.
\<close>

fun scan_int :: "byte list \<Rightarrow> nat list \<Rightarrow> (nat list \<times> byte list) res" where
  "scan_int [] digits = Inr (digits, [])"
| "scan_int (b # rest) digits =
     (if b = 46 \<or> b = 101 \<or> b = 69 then Inr (digits, b # rest)
      else if \<not> is_ascii_digit b then Inl (TtcDecode ''invalid NUMBER bind'')
      else if digit_of b = 0 \<and> digits = [] then scan_int rest digits
      else scan_int rest (digits @ [digit_of b]))"

fun scan_frac :: "byte list \<Rightarrow> nat list \<Rightarrow> int \<Rightarrow> (nat list \<times> int \<times> byte list) res" where
  "scan_frac [] digits dpi = Inr (digits, dpi, [])"
| "scan_frac (b # rest) digits dpi =
     (if b = 101 \<or> b = 69 then Inr (digits, dpi, b # rest)
      else if \<not> is_ascii_digit b then Inl (TtcDecode ''invalid NUMBER bind'')
      else if digit_of b = 0 \<and> digits = [] then scan_frac rest digits (dpi - 1)
      else scan_frac rest (digits @ [digit_of b]) dpi)"

text \<open>The digits after the exponent sign; \<^verbatim>\<open>parse::<i32>\<close> refuses values above its maximum.\<close>

definition decimal_value :: "byte list \<Rightarrow> nat" where
  "decimal_value bs = foldl (\<lambda>a b. a * 10 + digit_of b) 0 bs"

definition scan_exponent :: "byte list \<Rightarrow> (int \<times> byte list) res" where
  "scan_exponent rest =
     (let (neg, ds) = (case rest of
            b # ds \<Rightarrow> if b = 45 then (True, ds) else if b = 43 then (False, ds) else (False, rest)
          | [] \<Rightarrow> (False, []))
      in if \<not> list_all is_ascii_digit ds then Inl (TtcDecode ''invalid NUMBER exponent'')
         else if ds = [] then Inl (TtcDecode ''empty NUMBER exponent'')
         else if decimal_value ds > 2147483647 then Inl (TtcDecode ''invalid NUMBER exponent'')
         else Inr (if neg then - int (decimal_value ds) else int (decimal_value ds), []))"

definition add_exponent :: "int \<Rightarrow> int \<Rightarrow> int res" where
  "add_exponent dpi exponent =
     (if -2147483648 \<le> dpi + exponent \<and> dpi + exponent \<le> 2147483647 then Inr (dpi + exponent)
      else Inl (TtcDecode ''NUMBER bind out of range''))"

text \<open>The optional fraction after the integer digits, and the optional exponent.\<close>

definition scan_fraction :: "nat list \<Rightarrow> byte list \<Rightarrow> (nat list \<times> int \<times> byte list) res" where
  "scan_fraction digits rest =
     (case rest of
        b # rest' \<Rightarrow>
          if b = 46 then scan_frac rest' digits (int (length digits))
          else Inr (digits, int (length digits), rest)
      | [] \<Rightarrow> Inr (digits, int (length digits), rest))"

definition scan_suffix :: "int \<Rightarrow> byte list \<Rightarrow> (int \<times> byte list) res" where
  "scan_suffix dpi rest =
     (case rest of
        b # rest' \<Rightarrow>
          if b = 101 \<or> b = 69
          then ebind (scan_exponent rest') (\<lambda>(e, rest).
               ebind (add_exponent dpi e) (\<lambda>dpi. Inr (dpi, rest)))
          else Inr (dpi, rest)
      | [] \<Rightarrow> Inr (dpi, rest))"

text \<open>The whole scan: sign, digits with trailing zeros dropped, decimal point index.\<close>

definition strip_zeros :: "nat list \<Rightarrow> nat list" where
  "strip_zeros digits = rev (dropWhile (\<lambda>d. d = 0) (rev digits))"

definition parse_number_text :: "byte list \<Rightarrow> (bool \<times> nat list \<times> int) res" where
  "parse_number_text value =
     (if value = [] then Inl (TtcDecode ''empty NUMBER bind'')
      else if length value > NUMBER_AS_TEXT_CHARS then Inl (TtcDecode ''NUMBER bind text too long'')
      else
        let is_negative = (hd value = 45);
            body = (if is_negative then tl value else value)
        in ebind (scan_int body []) (\<lambda>(digits, rest).
           ebind (scan_fraction digits rest) (\<lambda>(digits, dpi, rest).
           ebind (scan_suffix dpi rest) (\<lambda>(dpi, rest).
           if rest \<noteq> [] then Inl (TtcDecode ''invalid NUMBER bind suffix'')
           else Inr (is_negative, strip_zeros digits, dpi)))))"

text \<open>
  The base-100 pairs: the first pair is a single digit when the decimal point index was odd.
  A negative number stores \<^verbatim>\<open>101 - digit\<close>, a positive one \<^verbatim>\<open>digit + 1\<close>.
\<close>

definition mantissa_byte :: "bool \<Rightarrow> nat \<Rightarrow> byte" where
  "mantissa_byte is_negative digit =
     (if is_negative then of_nat (101 - digit) else of_nat (digit + 1))"

fun emit_pairs :: "bool \<Rightarrow> bool \<Rightarrow> nat \<Rightarrow> nat list \<Rightarrow> byte list" where
  "emit_pairs is_negative single_first (Suc n) (d # e # ds) =
     (if single_first
      then mantissa_byte is_negative d # emit_pairs is_negative False n (e # ds)
      else mantissa_byte is_negative (d * 10 + e) # emit_pairs is_negative False n ds)"
| "emit_pairs is_negative single_first _ _ = []"

definition encode_number_digits :: "bool \<Rightarrow> nat list \<Rightarrow> int \<Rightarrow> byte list res" where
  "encode_number_digits is_negative digits0 dpi0 =
     (if length digits0 > NUMBER_MAX_DIGITS \<or> \<not> (-129 \<le> dpi0 \<and> dpi0 \<le> 126)
      then Inl (TtcDecode ''NUMBER bind out of range'')
      else
        let prepend_zero = (dpi0 smod 2 \<noteq> 0);
            (digits1, dpi) = (if prepend_zero \<and> digits0 \<noteq> [] then (digits0 @ [0], dpi0 + 1)
                              else (digits0, dpi0));
            digits = (if length digits1 mod 2 = 1 then digits1 @ [0] else digits1)
        in if digits = [] then Inr [128]
           else
             let exponent_on_wire = dpi sdiv 2 + 192
             in if \<not> (0 \<le> exponent_on_wire \<and> exponent_on_wire \<le> 255)
                then Inl (TtcDecode ''NUMBER bind exponent out of range'')
                else
                  let exponent_byte = of_int exponent_on_wire
                  in Inr ((if is_negative then NOT exponent_byte else exponent_byte) #
                       emit_pairs is_negative prepend_zero (length digits div 2) digits @
                       (if is_negative \<and> length digits < NUMBER_MAX_DIGITS then [102] else [])))"

definition encode_number_text :: "byte list \<Rightarrow> byte list res" where
  "encode_number_text value =
     ebind (parse_number_text value) (\<lambda>(is_negative, digits, dpi).
     encode_number_digits is_negative digits dpi)"

subsection \<open>The digit walk of the decoder\<close>

datatype decoded_number = DText bool | DParts bool int bool

text \<open>
  One pass over the mantissa bytes. \<open>fin\<close> is the index of the final mantissa byte
  (\<^verbatim>\<open>end - 1\<close>); the walk starts at index 1.
\<close>

definition mantissa_value :: "bool \<Rightarrow> byte \<Rightarrow> nat" where
  "mantissa_value is_positive encoded = (if is_positive then unat encoded - 1 else 101 - unat encoded)"

definition walk_step :: "bool \<Rightarrow> nat \<Rightarrow> nat \<Rightarrow> byte \<Rightarrow> nat list \<times> int \<Rightarrow> nat list \<times> int" where
  "walk_step is_positive fin index encoded acc =
     (let (digits, dpi) = acc;
          value = mantissa_value is_positive encoded;
          first_digit = value div 10;
          (digits, dpi) =
            (if first_digit = 0 \<and> digits = [] then (digits, dpi - 1)
             else if first_digit = 10 then (digits @ [1, 0], dpi + 1)
             else if first_digit \<noteq> 0 \<or> index > 0 then (digits @ [first_digit], dpi)
             else (digits, dpi));
          second_digit = value mod 10
      in (if second_digit \<noteq> 0 \<or> index < fin then digits @ [second_digit] else digits, dpi))"

fun digit_walk :: "bool \<Rightarrow> nat \<Rightarrow> nat \<Rightarrow> byte list \<Rightarrow> nat list \<times> int \<Rightarrow> nat list \<times> int" where
  "digit_walk is_positive fin index [] acc = acc"
| "digit_walk is_positive fin index (b # bs) acc =
     digit_walk is_positive fin (index + 1) bs (walk_step is_positive fin index b acc)"

definition wire_end :: "byte list \<Rightarrow> nat" where
  "wire_end bs =
     (if \<not> (hd bs AND 0x80 \<noteq> 0) \<and> last bs = 102 then length bs - 1 else length bs)"

definition wire_dpi :: "byte list \<Rightarrow> int" where
  "wire_dpi bs =
     (let first = hd bs;
          exponent_byte = (if first AND 0x80 \<noteq> 0 then first else NOT first)
      in (int (unat exponent_byte) - 193) * 2 + 2)"

definition decode_number_parts ::
  "byte list \<Rightarrow> byte list \<Rightarrow> (nat list \<times> byte list \<times> decoded_number) res" where
  "decode_number_parts bs text =
     (if length bs > 21 then Inl (TtcDecode ''encoded NUMBER too long'')
      else if bs = [] then Inl (TtcDecode ''empty NUMBER'')
      else
        let is_positive = (hd bs AND 0x80 \<noteq> 0) in
        if length bs = 1
        then Inr ([], text @ (if is_positive then ascii ''0'' else ascii ''-1e126''), DText True)
        else
          let end = wire_end bs;
              (digits, dpi) = digit_walk is_positive (end - 1) 1 (tl (take end bs)) ([], wire_dpi bs);
              is_integer = (dpi > 0 \<and> dpi \<ge> int (length digits))
          in Inr (digits, text, DParts (\<not> is_positive) dpi is_integer))"

subsection \<open>Formatting\<close>

fun push_digits :: "int \<Rightarrow> nat \<Rightarrow> nat list \<Rightarrow> byte list" where
  "push_digits dpi index [] = []"
| "push_digits dpi index (d # ds) =
     (if index > 0 \<and> int index = dpi then [46] else []) @ [of_nat (48 + d)] @
     push_digits dpi (index + 1) ds"

definition format_number_digits :: "nat list \<Rightarrow> bool \<Rightarrow> int \<Rightarrow> byte list \<Rightarrow> byte list" where
  "format_number_digits digits is_negative dpi text =
     text @ (if is_negative then [45] else []) @
     (if dpi \<le> 0 then ascii ''0.'' @ replicate (nat (- dpi)) 48 else []) @
     push_digits dpi 0 digits @
     (if dpi > int (length digits) then replicate (nat (dpi - int (length digits))) 48 else [])"

definition decode_number_text_into :: "byte list \<Rightarrow> byte list \<Rightarrow> (byte list \<times> bool) res" where
  "decode_number_text_into bs text =
     ebind (decode_number_parts bs text) (\<lambda>(digits, text, d).
     case d of
       DText is_integer \<Rightarrow> Inr (text, is_integer)
     | DParts is_negative dpi is_integer \<Rightarrow>
         Inr (format_number_digits digits is_negative dpi text, is_integer))"

subsection \<open>The stack walk\<close>

datatype decoded_number_stack =
    Sentinel "byte list" bool
  | Parts nat bool int bool "int option"

text \<open>
  \<^verbatim>\<open>push\<close>: a digit goes to the buffer only while there is room, and always into the fused
  \<^verbatim>\<open>i128\<close> coefficient, which latches to \<^verbatim>\<open>None\<close> on overflow.
\<close>

definition checked_i128 :: "int \<Rightarrow> int option" where
  "checked_i128 x = (if i128_min \<le> x \<and> x \<le> i128_max then Some x else None)"

definition push_digit :: "nat \<Rightarrow> nat list \<times> int option \<Rightarrow> nat list \<times> int option" where
  "push_digit d acc =
     (let (buf, coeff) = acc
      in (if length buf < MAX_DIGITS then buf @ [d] else buf,
          Option.bind (Option.bind coeff (\<lambda>a. checked_i128 (a * 10))) (\<lambda>a. checked_i128 (a + int d))))"

definition stack_step ::
  "bool \<Rightarrow> nat \<Rightarrow> nat \<Rightarrow> byte \<Rightarrow> (nat list \<times> int option) \<times> int \<Rightarrow> (nat list \<times> int option) \<times> int" where
  "stack_step is_positive fin index encoded acc =
     (let (st, dpi) = acc;
          value = mantissa_value is_positive encoded;
          first_digit = value div 10;
          (st, dpi) =
            (if first_digit = 0 \<and> fst st = [] then (st, dpi - 1)
             else if first_digit = 10 then (push_digit 0 (push_digit 1 st), dpi + 1)
             else if first_digit \<noteq> 0 \<or> index > 0 then (push_digit first_digit st, dpi)
             else (st, dpi));
          second_digit = value mod 10
      in (if second_digit \<noteq> 0 \<or> index < fin then push_digit second_digit st else st, dpi))"

fun stack_walk ::
  "bool \<Rightarrow> nat \<Rightarrow> nat \<Rightarrow> byte list \<Rightarrow> (nat list \<times> int option) \<times> int \<Rightarrow> (nat list \<times> int option) \<times> int" where
  "stack_walk is_positive fin index [] acc = acc"
| "stack_walk is_positive fin index (b # bs) acc =
     stack_walk is_positive fin (index + 1) bs (stack_step is_positive fin index b acc)"

text \<open>The result carries the filled part of the caller's buffer.\<close>

definition decode_number_parts_stack ::
  "byte list \<Rightarrow> (nat list \<times> decoded_number_stack) res" where
  "decode_number_parts_stack bs =
     (if length bs > 21 then Inl (TtcDecode ''encoded NUMBER too long'')
      else if bs = [] then Inl (TtcDecode ''empty NUMBER'')
      else
        let is_positive = (hd bs AND 0x80 \<noteq> 0) in
        if length bs = 1
        then Inr ([], Sentinel (if is_positive then ascii ''0'' else ascii ''-1e126'') True)
        else
          let end = wire_end bs;
              ((buf, coeff), dpi) =
                stack_walk is_positive (end - 1) 1 (tl (take end bs)) (([], Some 0), wire_dpi bs);
              is_integer = (dpi > 0 \<and> dpi \<ge> int (length buf))
          in Inr (buf, Parts (length buf) (\<not> is_positive) dpi is_integer
                    (map_option (\<lambda>acc. if is_positive then acc else - acc) coeff)))"

definition digits_to_i128 :: "nat list \<Rightarrow> bool \<Rightarrow> int option" where
  "digits_to_i128 digits is_negative =
     map_option (\<lambda>acc. if is_negative then - acc else acc)
       (foldl (\<lambda>acc d. Option.bind (Option.bind acc (\<lambda>a. checked_i128 (a * 10)))
                 (\<lambda>a. checked_i128 (a + int d))) (Some 0) digits)"

subsection \<open>The inline representation\<close>

text \<open>
  \<open>Inline coefficient scale is_integer\<close> denotes \<open>coefficient * 10 powi (- scale)\<close>. The
  code stores the \<^verbatim>\<open>i128\<close> coefficient as its little-endian bytes for alignment; the model
  stores the number.
\<close>

datatype oracle_number = Inline int int bool | NText "byte list" bool

definition spill_text :: "nat list \<Rightarrow> bool \<Rightarrow> int \<Rightarrow> bool \<Rightarrow> oracle_number" where
  "spill_text digits is_negative dpi is_integer =
     NText (format_number_digits digits is_negative dpi []) is_integer"

definition from_wire :: "byte list \<Rightarrow> oracle_number res" where
  "from_wire bs =
     ebind (decode_number_parts_stack bs) (\<lambda>(digits, d).
     case d of
       Sentinel text is_integer \<Rightarrow> Inr (NText text is_integer)
     | Parts digit_len is_negative dpi is_integer coefficient \<Rightarrow>
         (case coefficient of
            Some c \<Rightarrow>
              let scale = int (length digits) - dpi
              in if -32768 \<le> scale \<and> scale \<le> 32767 then Inr (Inline c scale is_integer)
                 else Inr (spill_text digits is_negative dpi is_integer)
          | None \<Rightarrow> Inr (spill_text digits is_negative dpi is_integer)))"

text \<open>\<^verbatim>\<open>fmt_inline_into\<close>: the decimal digits of the magnitude, positioned by the scale.\<close>

function decimal_digits :: "nat \<Rightarrow> nat list" where
  "decimal_digits n = (if n = 0 then [] else decimal_digits (n div 10) @ [n mod 10])"
  by pat_completeness auto
termination
  by (relation "measure id") auto

declare decimal_digits.simps [simp del]

fun push_inline_digits :: "int \<Rightarrow> nat \<Rightarrow> nat list \<Rightarrow> byte list" where
  "push_inline_digits dpi i [] = []"
| "push_inline_digits dpi i (d # ds) =
     (if int i = dpi then [46] else []) @ [of_nat (48 + d)] @ push_inline_digits dpi (i + 1) ds"

definition fmt_inline_into :: "int \<Rightarrow> int \<Rightarrow> byte list \<Rightarrow> byte list" where
  "fmt_inline_into coefficient scale out =
     (if coefficient = 0 then out @ [48]
      else
        let digits = decimal_digits (nat \<bar>coefficient\<bar>);
            digit_count = int (length digits);
            dpi = digit_count - scale;
            out = out @ (if coefficient < 0 then [45] else [])
        in if dpi \<le> 0
           then out @ ascii ''0.'' @ replicate (nat (- dpi)) 48 @ map (\<lambda>d. of_nat (48 + d)) digits
           else out @ push_inline_digits dpi 0 digits @
                (if dpi > digit_count then replicate (nat (dpi - digit_count)) 48 else []))"

definition fmt_into :: "oracle_number \<Rightarrow> byte list \<Rightarrow> byte list" where
  "fmt_into n out =
     (case n of NText text _ \<Rightarrow> out @ text | Inline c s _ \<Rightarrow> fmt_inline_into c s out)"

definition to_canonical_string :: "oracle_number \<Rightarrow> byte list" where
  "to_canonical_string n = fmt_into n []"

definition is_integer_flag :: "oracle_number \<Rightarrow> bool" where
  "is_integer_flag n = (case n of Inline _ _ i \<Rightarrow> i | NText _ i \<Rightarrow> i)"

subsection \<open>Parsing canonical text\<close>

definition fold_i128 :: "byte list \<Rightarrow> int option" where
  "fold_i128 bs =
     foldl (\<lambda>acc b. Option.bind (Option.bind acc (\<lambda>a. checked_i128 (a * 10)))
              (\<lambda>a. checked_i128 (a + int (digit_of b)))) (Some 0) bs"

function trim_zeros :: "int \<Rightarrow> int \<Rightarrow> (int \<times> int) option" where
  "trim_zeros coefficient scale =
     (if coefficient smod 10 = 0
      then if scale - 1 < -32768 then None else trim_zeros (coefficient sdiv 10) (scale - 1)
      else Some (coefficient, scale))"
  by pat_completeness auto
termination
  by (relation "measure (\<lambda>(c, s). nat (s + 32768))") auto

declare trim_zeros.simps [simp del]

definition parse_canonical_inline :: "byte list \<Rightarrow> (int \<times> int) option" where
  "parse_canonical_inline text =
     (let is_negative = (text \<noteq> [] \<and> hd text = 45);
          rest = (if is_negative then tl text else text)
      in if rest = [] then None
         else
           let int_part = takeWhile (\<lambda>b. b \<noteq> 46) rest;
               frac_part = drop (length int_part + 1) rest
           in if \<not> list_all is_ascii_digit int_part \<or> \<not> list_all is_ascii_digit frac_part then None
              else
                Option.bind (fold_i128 (int_part @ frac_part)) (\<lambda>acc.
                let coefficient = (if is_negative then - acc else acc);
                    scale = int (length frac_part)
                in if scale > 32767 then None
                   else if coefficient = 0 \<and> scale = 0 then None
                   else if scale = 0 then trim_zeros coefficient scale
                   else Some (coefficient, scale)))"

definition from_canonical_text_with_flag :: "byte list \<Rightarrow> bool \<Rightarrow> oracle_number" where
  "from_canonical_text_with_flag text is_integer =
     (case parse_canonical_inline text of
        Some (c, s) \<Rightarrow> Inline c s is_integer
      | None \<Rightarrow> NText text is_integer)"

definition from_canonical_text :: "byte list \<Rightarrow> oracle_number" where
  "from_canonical_text text = from_canonical_text_with_flag text (46 \<notin> set text)"

subsection \<open>Exact integers\<close>

fun scale_up :: "nat \<Rightarrow> int \<Rightarrow> int option" where
  "scale_up 0 v = Some v"
| "scale_up (Suc n) v = Option.bind (checked_i128 (v * 10)) (scale_up n)"

definition inline_to_i128 :: "int \<Rightarrow> int \<Rightarrow> int option" where
  "inline_to_i128 coefficient scale =
     (if scale = 0 then Some coefficient
      else if scale < 0 then scale_up (nat (- scale)) coefficient
      else Option.bind (scale_up (nat scale) 1) (\<lambda>divisor.
           if coefficient smod divisor = 0 then Some (coefficient sdiv divisor) else None))"

end
