(* ===== verification/Number_Roundtrip.thy ===== *)
theory Number_Roundtrip
  imports Number_Codec
begin

text \<open>
  The NUMBER encoder and decoder are inverse: the digit walk undoes the base-100 pairing on
  canonical digits, and the text the decoder prints denotes the number the encoder was given.
\<close>

subsection \<open>The digit walk undoes the pairing\<close>

lemma unat_mantissa_byte:
  "v \<le> 99 \<Longrightarrow> unat (mantissa_byte neg v) = (if neg then 101 - v else v + 1)"
  using unat_of_nat_byte [of "101 - v"] unat_of_nat_byte [of "v + 1"]
  by (simp only: mantissa_byte_def split: if_splits) auto

lemma mantissa_value_byte [simp]:
  "v \<le> 99 \<Longrightarrow> mantissa_value (\<not> neg) (mantissa_byte neg v) = v"
  by (simp add: mantissa_value_def unat_mantissa_byte)

lemma mantissa_byte_not_end: "v \<le> 99 \<Longrightarrow> mantissa_byte True v \<noteq> 102"
  using unat_mantissa_byte [of v True] by auto

lemma walk_step_nonempty:
  assumes "v \<le> 99" "digits \<noteq> []" "index > 0"
  shows "walk_step (\<not> neg) fin index (mantissa_byte neg v) (digits, dpi) =
    (digits @ [v div 10] @ (if v mod 10 \<noteq> 0 \<or> index < fin then [v mod 10] else []), dpi)"
  using assms by (simp add: walk_step_def Let_def) arith

lemma walk_step_start:
  assumes "v \<le> 99" "v \<ge> 10" "index > 0"
  shows "walk_step (\<not> neg) fin index (mantissa_byte neg v) ([], dpi) =
    ([v div 10] @ (if v mod 10 \<noteq> 0 \<or> index < fin then [v mod 10] else []), dpi)"
proof -
  have "v div 10 \<noteq> 0" "v div 10 \<noteq> 10" using assms by linarith+
  then show ?thesis using assms by (simp add: walk_step_def Let_def)
qed

lemma walk_step_single:
  assumes "0 < v" "v \<le> 9"
  shows "walk_step (\<not> neg) fin index (mantissa_byte neg v) ([], dpi) = ([v], dpi - 1)"
  using assms by (simp add: walk_step_def Let_def)

definition decimals :: "nat list \<Rightarrow> bool" where
  "decimals ds \<longleftrightarrow> (\<forall>d\<in>set ds. d \<le> 9)"

lemma decimals_simps [simp]:
  "decimals []"
  "decimals (d # ds) \<longleftrightarrow> d \<le> 9 \<and> decimals ds"
  "decimals (ds @ es) \<longleftrightarrow> decimals ds \<and> decimals es"
  by (auto simp: decimals_def)

definition drop_pad :: "nat list \<Rightarrow> nat list" where
  "drop_pad ds = (if ds \<noteq> [] \<and> last ds = 0 then butlast ds else ds)"

lemma emit_pairs_length:
  "2 * n \<le> length ds \<Longrightarrow> length (emit_pairs neg s n ds) = n"
proof (induction n arbitrary: ds s)
  case (Suc n)
  then obtain d e es where "ds = d # e # es" "2 * n \<le> length es"
    by (cases ds; cases "tl ds") auto
  with Suc.IH [of es] Suc.IH [of "e # es"] show ?case by simp
qed simp

lemma emit_pairs_not_end: "decimals ds \<Longrightarrow> 102 \<notin> set (emit_pairs True s n ds)"
  using mantissa_byte_not_end by (induction True s n ds rule: emit_pairs.induct) (auto dest: sym)

lemma digit_walk_pairs:
  assumes "length ds = 2 * n" "n > 0" "decimals ds" "digits \<noteq> []" "index > 0" "fin + 1 = index + n"
  shows "digit_walk (\<not> neg) fin index (emit_pairs neg False n ds) (digits, dpi) =
    (digits @ drop_pad ds, dpi)"
  using assms
proof (induction n arbitrary: ds index digits)
  case (Suc n)
  from Suc.prems obtain d e es where ds: "ds = d # e # es" and es: "length es = 2 * n"
    by (cases ds; cases "tl ds") auto
  have v: "d * 10 + e \<le> 99" "(d * 10 + e) div 10 = d" "(d * 10 + e) mod 10 = e"
    using Suc.prems ds by auto
  show ?case
  proof (cases "n = 0")
    case True
    with Suc.prems es show ?thesis
      by (simp add: ds walk_step_nonempty v drop_pad_def)
  next
    case False
    then have "es \<noteq> []" using es by auto
    then have dp: "drop_pad ds = d # e # drop_pad es" by (simp add: drop_pad_def ds)
    show ?thesis
      using Suc.prems False es Suc.IH [of es "digits @ [d, e]" "Suc index"]
      by (simp add: ds walk_step_nonempty v dp [unfolded ds])
  qed
qed simp


lemma emit_pairs_take: "emit_pairs neg False n ds = emit_pairs neg False n (take (2 * n) ds)"
proof (induction n arbitrary: ds)
  case (Suc n)
  show ?case
  proof (cases "length ds \<ge> 2")
    case True
    then obtain d e es where "ds = d # e # es" by (cases ds; cases "tl ds") auto
    with Suc.IH [of es] show ?thesis by simp
  next
    case False
    then show ?thesis by (cases ds; cases "tl ds") auto
  qed
qed simp

lemma digit_walk_even:
  assumes "length ds = 2 * n" "n > 0" "decimals ds" "hd ds \<noteq> 0"
  shows "digit_walk (\<not> neg) n 1 (emit_pairs neg False n ds) ([], dpi) = (drop_pad ds, dpi)"
proof -
  obtain d e es m where ds: "ds = d # e # es" and n: "n = Suc m" and es: "length es = 2 * m"
    using assms by (cases n; cases ds; cases "tl ds") auto
  have v: "d * 10 + e \<le> 99" "10 \<le> d * 10 + e" "(d * 10 + e) div 10 = d" "(d * 10 + e) mod 10 = e"
    using assms ds by auto
  show ?thesis
  proof (cases m)
    case 0
    then show ?thesis using assms es by (simp add: ds n walk_step_start v drop_pad_def)
  next
    case (Suc m')
    then have "es \<noteq> []" using es by auto
    then show ?thesis
      using assms es Suc digit_walk_pairs [of es m "[d, e]" 2 n neg dpi]
      by (simp add: ds n walk_step_start v drop_pad_def numeral_2_eq_2)
  qed
qed

lemma digit_walk_odd:
  assumes "length ds = 2 * m" "decimals ds" "0 < d" "d \<le> 9"
  shows "digit_walk (\<not> neg) (Suc m) 1 (mantissa_byte neg d # emit_pairs neg False m ds) ([], dpi) =
    (d # drop_pad ds, dpi - 1)"
  using assms digit_walk_pairs [of ds m "[d]" 2 "Suc m" neg "dpi - 1"]
  by (cases m) (simp_all add: walk_step_single drop_pad_def numeral_2_eq_2)

lemma byte_top_bit: "(b AND 0x80 \<noteq> 0) = (128 \<le> unat (b :: byte))"
proof -
  have "(b AND 0x80 \<noteq> 0) = bit b 7"
    using and_exp_eq_0_iff_not_bit [of b 7] by simp
  also have "\<dots> = bit (unat b) 7" by (simp add: bit_unsigned_iff)
  also have "\<dots> = odd (unat b div 128)" by (simp add: bit_iff_odd)
  also have "\<dots> = (128 \<le> unat b)"
  proof (cases "128 \<le> unat b")
    case True
    with unat_byte_less [of b] have "unat b div 128 = 1" by linarith
    with True show ?thesis by simp
  qed simp
  finally show ?thesis .
qed

lemma unat_NOT_byte: "unat (NOT b) = 255 - unat (b :: byte)"
proof -
  have "NOT b = 255 - b" by (simp add: not_eq_complement)
  moreover have "b \<le> 255" using unat_byte_less [of b] by (simp add: word_le_nat_alt del: unat_byte_less)
  ultimately show ?thesis by (simp add: unat_sub)
qed

lemma smod_2_iff: "(k :: int) smod 2 = 0 \<longleftrightarrow> even k"
  by (simp add: signed_modulo_int_def signed_divide_int_def sgn_if) presburger

lemma sdiv_2_even: "even k \<Longrightarrow> (k :: int) sdiv 2 = k div 2"
  by (auto simp: signed_divide_int_def sgn_if elim!: evenE)


text \<open>The digits a canonical parse produces: decimal, without leading or trailing zeros.\<close>

definition canonical_digits :: "nat list \<Rightarrow> bool" where
  "canonical_digits ds \<longleftrightarrow> decimals ds \<and> ds \<noteq> [] \<and> hd ds \<noteq> 0 \<and> last ds \<noteq> 0"

text \<open>Number of mantissa digit positions the encoder emits, for a given decimal point index.\<close>

definition padded :: "nat list \<Rightarrow> int \<Rightarrow> nat list" where
  "padded ds dpi =
     (let ds1 = (if odd dpi then ds @ [0] else ds) in if odd (length ds1) then ds1 @ [0] else ds1)"

lemma digit_walk_padded:
  assumes "canonical_digits ds"
  shows "digit_walk (\<not> neg) (length (padded ds dpi) div 2) 1
      (emit_pairs neg (odd dpi) (length (padded ds dpi) div 2) (padded ds dpi))
      ([], if odd dpi then dpi + 1 else dpi) = (ds, dpi)"
proof (cases "odd dpi")
  case False
  let ?p = "padded ds dpi"
  have p: "?p = (if odd (length ds) then ds @ [0] else ds)" using False by (simp add: padded_def)
  have "decimals ?p" "hd ?p \<noteq> 0" "drop_pad ?p = ds" "even (length ?p)" "length ?p > 0"
    using assms by (auto simp: p canonical_digits_def drop_pad_def hd_append)
  moreover from this obtain n where "length ?p = 2 * n" "n > 0" by (auto elim!: evenE)
  ultimately show ?thesis using digit_walk_even [of ?p n neg dpi] False by simp
next
  case True
  from assms obtain d es where ds: "ds = d # es" and d: "0 < d" "d \<le> 9" and es: "decimals es"
      "es \<noteq> [] \<longrightarrow> last es \<noteq> 0"
    by (cases ds) (auto simp: canonical_digits_def split: if_splits)
  define m where "m = (if odd (length es) then Suc (length es) else length es) div 2"
  have p: "padded ds dpi = d # es @ (if odd (length es) then [0, 0] else [0])"
    using True by (simp add: padded_def ds)
  have len: "length (padded ds dpi) div 2 = Suc m" by (auto simp: p m_def elim!: oddE evenE)
  let ?es = "es @ (if odd (length es) then [0] else [])"
  have es': "length ?es = 2 * m" "decimals ?es" "drop_pad ?es = es"
    using es by (auto simp: m_def drop_pad_def elim!: oddE)
  have "emit_pairs neg True (Suc m) (padded ds dpi) = mantissa_byte neg d # emit_pairs neg False m ?es"
  proof -
    have "padded ds dpi = d # ?es @ [0]" by (simp add: p)
    moreover have "emit_pairs neg True (Suc m) (d # ?es @ [0]) =
        mantissa_byte neg d # emit_pairs neg False m (?es @ [0])"
      by (cases "?es @ [0]") auto
    moreover have "emit_pairs neg False m (?es @ [0]) = emit_pairs neg False m ?es"
      using emit_pairs_take [of neg m "?es @ [0]"] es'(1) by simp
    ultimately show ?thesis by simp
  qed
  then show ?thesis
    unfolding len using digit_walk_odd [OF es'(1,2) d, of neg "dpi + 1"] True
    by (simp add: ds es'(3))
qed


definition terminator :: "bool \<Rightarrow> nat list \<Rightarrow> byte list" where
  "terminator neg ds = (if neg \<and> length ds < NUMBER_MAX_DIGITS then [102] else [])"

definition exponent_code :: "int \<Rightarrow> int" where
  "exponent_code dpi = (if odd dpi then dpi + 1 else dpi) div 2 + 192"

lemma exponent_code_bounds:
  "-129 \<le> dpi \<Longrightarrow> dpi \<le> 126 \<Longrightarrow> 128 \<le> exponent_code dpi \<and> exponent_code dpi \<le> 255"
  unfolding exponent_code_def by presburger

definition sign_byte :: "bool \<Rightarrow> byte \<Rightarrow> byte" where
  "sign_byte neg b = (if neg then NOT b else b)"

lemma encode_number_digits_eq:
  assumes "ds \<noteq> []" "length ds \<le> 40" "-129 \<le> dpi" "dpi \<le> 126"
  shows "encode_number_digits neg ds dpi =
    Inr (sign_byte neg (of_int (exponent_code dpi)) #
         emit_pairs neg (odd dpi) (length (padded ds dpi) div 2) (padded ds dpi) @
         terminator neg (padded ds dpi))"
proof -
  have odd: "(dpi smod 2 \<noteq> 0) = odd dpi" by (simp add: smod_2_iff)
  have len: "(length xs mod 2 = 1) = odd (length xs)" for xs :: "nat list"
    by (rule odd_iff_mod_2_eq_one [symmetric])
  have b: "0 \<le> exponent_code dpi \<and> exponent_code dpi \<le> 255"
    using exponent_code_bounds [of dpi] assms by simp
  have p: "padded ds dpi \<noteq> []" using assms by (simp add: padded_def Let_def)
  show ?thesis
  proof (cases "odd dpi")
    case True
    then have e: "(dpi + 1) sdiv 2 = exponent_code dpi - 192" by (simp add: exponent_code_def sdiv_2_even)
    show ?thesis
      using assms True b p unfolding encode_number_digits_def odd len
      by (simp add: e NUMBER_MAX_DIGITS_def Let_def terminator_def padded_def sign_byte_def)
  next
    case False
    then have e: "dpi sdiv 2 = exponent_code dpi - 192" by (simp add: exponent_code_def sdiv_2_even)
    show ?thesis
      using assms False b p unfolding encode_number_digits_def odd len
      by (simp add: e NUMBER_MAX_DIGITS_def Let_def terminator_def padded_def sign_byte_def)
  qed
qed

lemma sign_byte_facts:
  assumes "-129 \<le> dpi" "dpi \<le> 126"
  shows "(sign_byte neg (of_int (exponent_code dpi)) AND 0x80 \<noteq> 0) = (\<not> neg)"
    and "uint (of_int (exponent_code dpi) :: byte) = exponent_code dpi"
proof -
  have b: "128 \<le> exponent_code dpi" "exponent_code dpi \<le> 255"
    using exponent_code_bounds assms by auto
  have "(of_int (exponent_code dpi) :: byte) = of_nat (nat (exponent_code dpi))" using b by simp
  then have u: "unat (of_int (exponent_code dpi) :: byte) = nat (exponent_code dpi)"
    using b by (simp del: of_nat_nat)
  show "uint (of_int (exponent_code dpi) :: byte) = exponent_code dpi"
    using b by (simp add: uint_word_of_int take_bit_eq_mod)
  show "(sign_byte neg (of_int (exponent_code dpi)) AND 0x80 \<noteq> 0) = (\<not> neg)"
    unfolding byte_top_bit sign_byte_def using b by (simp add: unat_NOT_byte u) linarith
qed


lemma number_digits_roundtrip:
  assumes "canonical_digits ds" "length ds \<le> 40" "-129 \<le> dpi" "dpi \<le> 126"
    and "\<not> (length ds = 40 \<and> odd dpi)"
  obtains w where "encode_number_digits neg ds dpi = Inr w" "length w \<le> 21"
    "decode_number_parts w text = Inr (ds, text, DParts neg dpi (dpi > 0 \<and> dpi \<ge> int (length ds)))"
proof
  let ?p = "padded ds dpi" let ?n = "length ?p div 2"
  let ?e = "sign_byte neg (of_int (exponent_code dpi))"
  let ?m = "emit_pairs neg (odd dpi) ?n ?p"
  let ?w = "?e # ?m @ terminator neg ?p"
  have ds: "ds \<noteq> []" using assms by (simp add: canonical_digits_def)
  show "encode_number_digits neg ds dpi = Inr ?w"
    using encode_number_digits_eq assms ds by simp
  have pd: "decimals ?p" using assms by (simp add: canonical_digits_def padded_def Let_def)
  have lm: "length ?m = ?n" by (rule emit_pairs_length) simp
  have p: "length ?p \<le> 40" "even (length ?p)" "0 < length ?p"
    using assms ds by (auto simp: padded_def Let_def elim!: oddE)
  have n: "0 < ?n" "?n \<le> 20" "neg \<longrightarrow> terminator neg ?p = [] \<longrightarrow> ?n = 20"
  proof -
    from p obtain k where "length ?p = 2 * k" "0 < k" by (auto elim!: evenE)
    with p show "0 < ?n" "?n \<le> 20" "neg \<longrightarrow> terminator neg ?p = [] \<longrightarrow> ?n = 20"
      by (auto simp: terminator_def NUMBER_MAX_DIGITS_def)
  qed
  show len: "length ?w \<le> 21"
    using n p by (auto simp: lm terminator_def NUMBER_MAX_DIGITS_def elim!: evenE)
  have pos: "(hd ?w AND 0x80 \<noteq> 0) = (\<not> neg)" using sign_byte_facts(1) assms by simp
  have we: "wire_end ?w = Suc ?n"
  proof (cases "neg \<and> terminator neg ?p = []")
    case True
    then have "last ?w \<in> set ?m" using lm n by (cases ?m rule: rev_cases) auto
    then have "last ?w \<noteq> 102" using emit_pairs_not_end [of ?p] True pd by auto
    with True pos lm show ?thesis unfolding wire_end_def by auto
  next
    case False
    then show ?thesis using pos lm by (auto simp: wire_end_def terminator_def)
  qed
  have wd: "wire_dpi ?w = (if odd dpi then dpi + 1 else dpi)"
  proof -
    have "int (unat (if hd ?w AND 0x80 \<noteq> 0 then hd ?w else NOT (hd ?w))) = exponent_code dpi"
      unfolding pos using sign_byte_facts(2) [of dpi] assms exponent_code_bounds [of dpi]
      by (simp add: sign_byte_def)
    then show ?thesis unfolding wire_dpi_def Let_def
      by (auto simp: exponent_code_def)
  qed
  have "tl (take (Suc ?n) ?w) = ?m" using lm by simp
  then show "decode_number_parts ?w text =
      Inr (ds, text, DParts neg dpi (dpi > 0 \<and> dpi \<ge> int (length ds)))"
    using len n lm digit_walk_padded [OF assms(1), of neg dpi]
    unfolding decode_number_parts_def we wd pos
    by (simp add: Let_def)
qed


subsection \<open>Values of digits and texts\<close>


definition digits_value :: "nat list \<Rightarrow> nat" where
  "digits_value ds = foldl (\<lambda>a d. a * 10 + d) 0 ds"

lemma digits_value_Nil [simp]: "digits_value [] = 0"
  by (simp add: digits_value_def)

lemma digits_value_snoc [simp]: "digits_value (ds @ [d]) = digits_value ds * 10 + d"
  by (simp add: digits_value_def)

lemma digits_value_append:
  "digits_value (ds @ es) = digits_value ds * 10 ^ length es + digits_value es"
proof (induction es rule: rev_induct)
  case (snoc e es)
  have "digits_value (ds @ es @ [e]) = digits_value ((ds @ es) @ [e])" by simp
  also have "\<dots> = (digits_value ds * 10 ^ length es + digits_value es) * 10 + e"
    using snoc by (simp only: digits_value_snoc)
  finally show ?case by (simp add: distrib_right)
qed simp

lemma digits_value_Cons [simp]:
  "digits_value (d # ds) = d * 10 ^ length ds + digits_value ds"
  using digits_value_append [of "[d]" ds] by (simp add: digits_value_def)

lemma digits_value_zeros [simp]: "digits_value (replicate k 0) = 0"
  by (induction k) auto

lemma digits_value_less: "decimals ds \<Longrightarrow> digits_value ds < 10 ^ length ds"
proof (induction ds)
  case (Cons d ds)
  have "d * 10 ^ length ds \<le> 9 * 10 ^ length ds"
    using Cons.prems by (intro mult_le_mono1) simp
  moreover have "digits_value ds < 10 ^ length ds" using Cons by simp
  moreover have "(10 :: nat) ^ length (d # ds) = 9 * 10 ^ length ds + 10 ^ length ds" by simp
  ultimately show ?case unfolding digits_value_Cons by linarith
qed simp

lemma digits_value_pos: "ds \<noteq> [] \<Longrightarrow> hd ds \<noteq> 0 \<Longrightarrow> 0 < digits_value ds"
  by (cases ds) auto

lemma decimal_value_digits: "decimal_value bs = digits_value (map digit_of bs)"
  by (simp add: decimal_value_def digits_value_def foldl_map)

lemma digit_of_le: "is_ascii_digit b \<Longrightarrow> digit_of b \<le> 9"
  by (auto simp: is_ascii_digit_def digit_of_def word_le_nat_alt)

definition scaled_value :: "bool \<Rightarrow> nat list \<Rightarrow> int \<Rightarrow> rat" where
  "scaled_value neg ds dpi =
     (if neg then -1 else 1) * of_nat (digits_value ds) * 10 powi (dpi - int (length ds))"

definition text_value :: "byte list \<Rightarrow> rat" where
  "text_value t =
     (let neg = (t \<noteq> [] \<and> hd t = 45);
          body = (if neg then tl t else t);
          mant = takeWhile (\<lambda>b. b \<noteq> 101 \<and> b \<noteq> 69) body;
          ex = drop (length mant + 1) body;
          ip = takeWhile (\<lambda>b. b \<noteq> 46) mant;
          fp = drop (length ip + 1) mant;
          e = (if ex = [] then 0 else if hd ex = 45 then - int (decimal_value (tl ex))
               else if hd ex = 43 then int (decimal_value (tl ex)) else int (decimal_value ex))
      in (if neg then -1 else 1) * of_nat (decimal_value (ip @ fp)) * 10 powi (e - int (length fp)))"

definition lead_ok :: "nat list \<Rightarrow> bool" where
  "lead_ok ds \<longleftrightarrow> decimals ds \<and> (ds = [] \<or> hd ds \<noteq> 0)"

lemma lead_ok_snoc: "lead_ok ds \<Longrightarrow> d \<le> 9 \<Longrightarrow> \<not> (d = 0 \<and> ds = []) \<Longrightarrow> lead_ok (ds @ [d])"
  by (auto simp: lead_ok_def hd_append)

lemma scan_int_sound:
  assumes "scan_int body digits = Inr (digits', rest)" "lead_ok digits"
  shows "\<exists>ip. body = ip @ rest \<and> list_all is_ascii_digit ip \<and>
      (rest = [] \<or> hd rest \<in> {46, 101, 69}) \<and> lead_ok digits' \<and>
      digits_value digits' = digits_value (digits @ map digit_of ip)"
  using assms
proof (induction body digits rule: scan_int.induct)
  case (2 b rest0 digits)
  show ?case
  proof (cases "b = 46 \<or> b = 101 \<or> b = 69")
    case True
    then show ?thesis using "2.prems" by auto
  next
    case False
    with "2.prems" have d: "is_ascii_digit b" by (auto split: if_splits)
    show ?thesis
    proof (cases "digit_of b = 0 \<and> digits = []")
      case True
      with "2.IH"(1) "2.prems" False d obtain ip where
        "rest0 = ip @ rest" "list_all is_ascii_digit ip" "rest = [] \<or> hd rest \<in> {46, 101, 69}"
        "lead_ok digits'" "digits_value digits' = digits_value (digits @ map digit_of ip)"
        by auto
      with True d show ?thesis by (intro exI [of _ "b # ip"]) auto
    next
      case c: False
      have "lead_ok (digits @ [digit_of b])"
        using lead_ok_snoc "2.prems"(2) digit_of_le [OF d] c by blast
      moreover have "scan_int rest0 (digits @ [digit_of b]) = Inr (digits', rest)"
        using "2.prems"(1) c d False by auto
      ultimately obtain ip where
        "rest0 = ip @ rest" "list_all is_ascii_digit ip" "rest = [] \<or> hd rest \<in> {46, 101, 69}"
        "lead_ok digits'"
        "digits_value digits' = digits_value ((digits @ [digit_of b]) @ map digit_of ip)"
        using "2.IH"(2) False c d by auto
      with d show ?thesis by (intro exI [of _ "b # ip"]) auto
    qed
  qed
qed auto

lemma scan_frac_sound:
  assumes "scan_frac body digits dpi = Inr (digits', dpi', rest)" "lead_ok digits"
  shows "\<exists>fp. body = fp @ rest \<and> list_all is_ascii_digit fp \<and>
      (rest = [] \<or> hd rest \<in> {101, 69}) \<and> lead_ok digits' \<and>
      digits_value digits' = digits_value (digits @ map digit_of fp) \<and>
      int (length digits') - dpi' = int (length digits) - dpi + int (length fp)"
  using assms
proof (induction body digits dpi rule: scan_frac.induct)
  case (2 b rest0 digits dpi)
  show ?case
  proof (cases "b = 101 \<or> b = 69")
    case True
    then show ?thesis using "2.prems" by auto
  next
    case False
    with "2.prems" have d: "is_ascii_digit b" by (auto split: if_splits)
    show ?thesis
    proof (cases "digit_of b = 0 \<and> digits = []")
      case True
      with "2.IH"(1) "2.prems" False d obtain fp where
        "rest0 = fp @ rest" "list_all is_ascii_digit fp" "rest = [] \<or> hd rest \<in> {101, 69}"
        "lead_ok digits'" "digits_value digits' = digits_value (digits @ map digit_of fp)"
        "int (length digits') - dpi' = int (length digits) - (dpi - 1) + int (length fp)"
        by auto
      with True d show ?thesis by (intro exI [of _ "b # fp"]) auto
    next
      case c: False
      have "lead_ok (digits @ [digit_of b])"
        using lead_ok_snoc "2.prems"(2) digit_of_le [OF d] c by blast
      moreover have "scan_frac rest0 (digits @ [digit_of b]) dpi = Inr (digits', dpi', rest)"
        using "2.prems"(1) c d False by auto
      ultimately obtain fp where
        "rest0 = fp @ rest" "list_all is_ascii_digit fp" "rest = [] \<or> hd rest \<in> {101, 69}"
        "lead_ok digits'"
        "digits_value digits' = digits_value ((digits @ [digit_of b]) @ map digit_of fp)"
        "int (length digits') - dpi' = int (length (digits @ [digit_of b])) - dpi + int (length fp)"
        using "2.IH"(2) False c d by auto
      with d show ?thesis by (intro exI [of _ "b # fp"]) auto
    qed
  qed
qed auto


lemma strip_zeros_simps [simp]:
  "strip_zeros [] = []"
  "strip_zeros (ds @ [d]) = (if d = 0 then strip_zeros ds else ds @ [d])"
  by (simp_all add: strip_zeros_def)

lemma strip_zeros_split: "\<exists>k. digits = strip_zeros digits @ replicate k 0"
proof (induction digits rule: rev_induct)
  case (snoc d ds)
  show ?case
  proof (cases "d = 0")
    case True
    from snoc obtain k where "ds = strip_zeros ds @ replicate k 0" by blast
    then have "ds @ [d] = strip_zeros ds @ replicate (Suc k) 0"
      using True by (simp only: replicate_append_same [symmetric] replicate.simps append_assoc [symmetric])
    moreover have "strip_zeros (ds @ [d]) = strip_zeros ds" using True by simp
    ultimately show ?thesis by (intro exI [of _ "Suc k"]) simp
  next
    case False
    then show ?thesis by (intro exI [of _ 0]) simp
  qed
qed simp

lemma strip_zeros_canonical:
  "lead_ok ds \<Longrightarrow> strip_zeros ds = [] \<or> canonical_digits (strip_zeros ds)"
proof (induction ds rule: rev_induct)
  case (snoc d ds)
  have "lead_ok ds" using snoc.prems by (cases ds) (auto simp: lead_ok_def)
  moreover have "d \<noteq> 0 \<longrightarrow> canonical_digits (ds @ [d])"
    using snoc.prems by (simp add: lead_ok_def canonical_digits_def)
  ultimately show ?case using snoc.IH by simp
qed simp

lemma scaled_value_strip: "scaled_value neg (strip_zeros ds) dpi = scaled_value neg ds dpi"
proof -
  obtain k where k: "ds = strip_zeros ds @ replicate k 0" using strip_zeros_split by blast
  let ?s = "strip_zeros ds"
  have v: "digits_value ds = digits_value ?s * 10 ^ k"
    by (subst k) (simp add: digits_value_append)
  have l: "int (length ds) = int (length ?s) + int k" by (subst k) simp
  have "(10 :: rat) powi (dpi - int (length ?s)) = 10 powi (int k + (dpi - int (length ds)))"
    using l by (simp add: algebra_simps)
  also have "\<dots> = 10 ^ k * 10 powi (dpi - int (length ds))"
    by (simp add: power_int_add)
  finally show ?thesis by (simp add: scaled_value_def v)
qed

lemma ascii_digit_not:
  "is_ascii_digit b \<Longrightarrow> b \<noteq> 46 \<and> b \<noteq> 101 \<and> b \<noteq> 69 \<and> b \<noteq> 45 \<and> b \<noteq> 43"
  by (auto simp: is_ascii_digit_def)

lemma takeWhile_digits:
  assumes "list_all is_ascii_digit ip" "rest = [] \<or> \<not> P (hd rest)" "\<And>b. is_ascii_digit b \<Longrightarrow> P b"
  shows "takeWhile P (ip @ rest) = ip"
proof -
  have "takeWhile P (ip @ rest) = ip @ takeWhile P rest"
    using assms by (intro takeWhile_append2) (auto simp: list_all_iff)
  also have "takeWhile P rest = []" using assms(2) by (cases rest) auto
  finally show ?thesis by simp
qed

definition exponent_value :: "byte list \<Rightarrow> int" where
  "exponent_value ex =
     (if ex = [] then 0 else if hd ex = 45 then - int (decimal_value (tl ex))
      else if hd ex = 43 then int (decimal_value (tl ex)) else int (decimal_value ex))"

lemma text_value_parts:
  assumes "list_all is_ascii_digit ip" "list_all is_ascii_digit fp"
    and "tail = [] \<or> hd tail = 101 \<or> hd tail = 69"
    and "mant = ip @ (if dot then 46 # fp else [])" "\<not> dot \<longrightarrow> fp = []"
    and "t = (if neg then 45 # mant @ tail else mant @ tail)"
    and "\<not> neg \<longrightarrow> t \<noteq> [] \<longrightarrow> hd t \<noteq> 45"
  shows "text_value t = (if neg then -1 else 1) * of_nat (decimal_value (ip @ fp)) *
           10 powi (exponent_value (drop 1 tail) - int (length fp))"
proof -
  have n: "(t \<noteq> [] \<and> hd t = 45) = neg" using assms(6,7) by auto
  have b: "(if neg then tl t else t) = mant @ tail" using assms(6) by simp
  have m: "takeWhile (\<lambda>b. b \<noteq> 101 \<and> b \<noteq> 69) (mant @ tail) = mant"
  proof -
    have "takeWhile (\<lambda>b. b \<noteq> 101 \<and> b \<noteq> 69) (mant @ tail) = mant @ takeWhile (\<lambda>b. b \<noteq> 101 \<and> b \<noteq> 69) tail"
      using assms(1,2,4) by (intro takeWhile_append2) (auto simp: list_all_iff dest: ascii_digit_not split: if_splits)
    also have "takeWhile (\<lambda>b. b \<noteq> 101 \<and> b \<noteq> 69) tail = []" using assms(3) by (cases tail) auto
    finally show ?thesis by simp
  qed
  have ip: "takeWhile (\<lambda>b. b \<noteq> 46) mant = ip"
    unfolding assms(4) using assms(1) by (intro takeWhile_digits) (auto dest: ascii_digit_not)
  have fp: "drop (length ip + 1) mant = fp" using assms(4,5) by auto
  have ex: "drop (length mant + 1) (mant @ tail) = drop 1 tail" by simp
  show ?thesis
    unfolding text_value_def Let_def n b m ip fp ex exponent_value_def by simp
qed


lemma scan_exponent_sound:
  assumes "scan_exponent ex = Inr (e, rest)"
  shows "rest = [] \<and> e = exponent_value ex"
  using assms
  by (auto simp: scan_exponent_def exponent_value_def Let_def split: list.splits if_splits prod.splits)

lemma add_exponent_sound: "add_exponent dpi e = Inr r \<Longrightarrow> r = dpi + e"
  by (simp add: add_exponent_def split: if_splits)

lemma ebind_InrE:
  "ebind m f = Inr r \<Longrightarrow> (\<And>x. m = Inr x \<Longrightarrow> f x = Inr r \<Longrightarrow> P) \<Longrightarrow> P"
  by (cases m) (auto simp: ebind_def)

lemma scaled_valueI:
  assumes "digits_value ds = v" "dpi - int (length ds) = k"
  shows "scaled_value neg ds dpi = (if neg then -1 else 1) * of_nat v * 10 powi k"
  using assms by (simp add: scaled_value_def)

lemma scan_fraction_sound:
  assumes "scan_fraction d1 r1 = Inr (d2, p2, r2)" "lead_ok d1" "r1 = [] \<or> hd r1 \<in> {46, 101, 69}"
  obtains dot fp where "r1 = (if dot then 46 # fp else []) @ r2" "list_all is_ascii_digit fp"
    "\<not> dot \<longrightarrow> fp = []" "r2 = [] \<or> hd r2 = 101 \<or> hd r2 = 69" "lead_ok d2"
    "digits_value d2 = digits_value (d1 @ map digit_of fp)" "p2 - int (length d2) = - int (length fp)"
proof (cases "r1 \<noteq> [] \<and> hd r1 = 46")
  case True
  then obtain r where r: "r1 = 46 # r" by (cases r1) auto
  with assms have "scan_frac r d1 (int (length d1)) = Inr (d2, p2, r2)" by (simp add: scan_fraction_def)
  from scan_frac_sound [OF this assms(2)] obtain fp where "r = fp @ r2" "list_all is_ascii_digit fp"
      "r2 = [] \<or> hd r2 \<in> {101, 69}" "lead_ok d2"
      "digits_value d2 = digits_value (d1 @ map digit_of fp)"
      "int (length d2) - p2 = int (length d1) - int (length d1) + int (length fp)"
    by blast
  then show ?thesis using r by (intro that [of True fp]) simp_all
next
  case False
  then have "d2 = d1 \<and> p2 = int (length d1) \<and> r2 = r1"
    using assms(1) by (auto simp: scan_fraction_def split: list.splits)
  then show ?thesis using False assms by (intro that [of False "[]"]) auto
qed

lemma scan_suffix_sound:
  assumes "scan_suffix p2 r2 = Inr (dpi, rest)" "r2 = [] \<or> hd r2 = 101 \<or> hd r2 = 69"
  shows "rest = [] \<and> dpi = p2 + exponent_value (drop 1 r2)"
proof (cases r2)
  case Nil
  then show ?thesis using assms by (simp add: scan_suffix_def exponent_value_def)
next
  case (Cons b r)
  then have b: "b = 101 \<or> b = 69" using assms(2) by simp
  obtain e where "scan_exponent r = Inr (e, rest)" "add_exponent p2 e = Inr dpi"
    using assms(1) b unfolding Cons scan_suffix_def by (auto simp: ebind_Inr_iff)
  then show ?thesis using scan_exponent_sound add_exponent_sound Cons by fastforce
qed

lemma parse_number_textE:
  assumes "parse_number_text t = Inr (neg, ds, dpi)"
  obtains d1 r1 d2 p2 r2 rest where "t \<noteq> []" "neg = (hd t = 45)"
    "scan_int (if neg then tl t else t) [] = Inr (d1, r1)"
    "scan_fraction d1 r1 = Inr (d2, p2, r2)" "scan_suffix p2 r2 = Inr (dpi, rest)"
    "ds = strip_zeros d2"
  using assms
  by (auto simp: parse_number_text_def Let_def ebind_Inr_iff split: if_splits)

lemma parse_number_text_sound:
  assumes "parse_number_text t = Inr (neg, ds, dpi)"
  shows "(ds = [] \<or> canonical_digits ds) \<and> scaled_value neg ds dpi = text_value t"
proof -
  obtain d1 r1 d2 p2 r2 rest where t: "t \<noteq> []" "neg = (hd t = 45)" and
    s1: "scan_int (if neg then tl t else t) [] = Inr (d1, r1)" and
    s2: "scan_fraction d1 r1 = Inr (d2, p2, r2)" and s3: "scan_suffix p2 r2 = Inr (dpi, rest)" and
    ds: "ds = strip_zeros d2"
    using assms by (rule parse_number_textE)
  from scan_int_sound [OF s1] obtain ip where
      ip: "(if neg then tl t else t) = ip @ r1" "list_all is_ascii_digit ip"
      "r1 = [] \<or> hd r1 \<in> {46, 101, 69}" "lead_ok d1" "digits_value d1 = decimal_value ip"
    by (auto simp: lead_ok_def decimal_value_digits)
  obtain dot fp where fp: "r1 = (if dot then 46 # fp else []) @ r2" "list_all is_ascii_digit fp"
      "\<not> dot \<longrightarrow> fp = []" "r2 = [] \<or> hd r2 = 101 \<or> hd r2 = 69" "lead_ok d2"
      "digits_value d2 = digits_value (d1 @ map digit_of fp)" "p2 - int (length d2) = - int (length fp)"
    by (rule scan_fraction_sound [OF s2 ip(4,3)])
  have v: "digits_value d2 = decimal_value (ip @ fp)"
    using fp(6) ip(5) by (simp add: digits_value_append decimal_value_digits)
  have "t = (if neg then 45 # (ip @ (if dot then 46 # fp else [])) @ r2
      else (ip @ (if dot then 46 # fp else [])) @ r2)"
    using t ip(1) fp(1) by (cases t; cases neg) simp_all
  then have "text_value t = (if neg then -1 else 1) * of_nat (decimal_value (ip @ fp)) *
      10 powi (exponent_value (drop 1 r2) - int (length fp))"
    by (rule text_value_parts [OF ip(2) fp(2,4) refl fp(3)]) (use t in simp)
  also have "\<dots> = scaled_value neg d2 dpi"
    using v fp(7) scan_suffix_sound [OF s3 fp(4)] by (intro scaled_valueI [symmetric]) auto
  finally show ?thesis
    using strip_zeros_canonical [OF fp(5)] scaled_value_strip by (simp add: ds)
qed


definition digit_char :: "nat \<Rightarrow> byte" where
  "digit_char d = of_nat (48 + d)"

lemma digit_char:
  "d \<le> 9 \<Longrightarrow> is_ascii_digit (digit_char d)" "d \<le> 9 \<Longrightarrow> digit_of (digit_char d) = d"
  by (simp_all add: is_ascii_digit_def digit_of_def digit_char_def word_le_nat_alt
      unat_of_nat_byte [of "48 + d", simplified])

lemma digit_chars:
  assumes "decimals ds"
  shows "list_all is_ascii_digit (map digit_char ds)" "map digit_of (map digit_char ds) = ds"
  using assms by (induction ds) (auto simp: digit_char)

lemma push_digits_append:
  "push_digits dpi i (xs @ ys) = push_digits dpi i xs @ push_digits dpi (i + length xs) ys"
  by (induction xs arbitrary: i) auto

lemma push_digits_plain:
  "\<forall>j. i \<le> j \<and> j < i + length ds \<and> 0 < j \<longrightarrow> int j \<noteq> dpi \<Longrightarrow>
   push_digits dpi i ds = map digit_char ds"
proof (induction ds arbitrary: i)
  case (Cons d ds)
  have "push_digits dpi (i + 1) ds = map digit_char ds"
    using Cons.prems by (intro Cons.IH) auto
  with Cons.prems show ?case by (auto simp: digit_char_def)
qed simp

lemma push_digits_dot:
  assumes "0 < k" "k < length ds"
  shows "push_digits (int k) 0 ds = map digit_char (take k ds) @ 46 # map digit_char (drop k ds)"
proof -
  obtain d es where d: "drop k ds = d # es" using assms by (cases "drop k ds") auto
  have "push_digits (int k) 0 (take k ds @ drop k ds) =
      push_digits (int k) 0 (take k ds) @ push_digits (int k) k (drop k ds)"
    using assms push_digits_append [of "int k" 0 "take k ds" "drop k ds"] by simp
  also have "push_digits (int k) 0 (take k ds) = map digit_char (take k ds)"
    by (rule push_digits_plain) auto
  also have "push_digits (int k) k (drop k ds) = 46 # map digit_char (drop k ds)"
    using assms push_digits_plain [of "Suc k" es "int k"] by (simp add: d digit_char_def)
  finally show ?thesis by simp
qed

text \<open>The printed text in its three shapes.\<close>

lemma format_number_digits_eq:
  "format_number_digits ds neg dpi text = text @ (if neg then [45] else []) @
     (if dpi \<le> 0 then [48, 46] @ replicate (nat (- dpi)) 48 @ map digit_char ds
      else if dpi < int (length ds)
      then map digit_char (take (nat dpi) ds) @ 46 # map digit_char (drop (nat dpi) ds)
      else map digit_char ds @ replicate (nat (dpi - int (length ds))) 48)"
proof -
  consider "dpi \<le> 0" | "0 < dpi" "dpi < int (length ds)" | "0 < dpi" "int (length ds) \<le> dpi" by linarith
  then show ?thesis
  proof cases
    case 1
    then have "push_digits dpi 0 ds = map digit_char ds" by (intro push_digits_plain) auto
    with 1 show ?thesis by (simp add: format_number_digits_def ascii_def)
  next
    case 2
    then have "push_digits dpi 0 ds = map digit_char (take (nat dpi) ds) @ 46 # map digit_char (drop (nat dpi) ds)"
      using push_digits_dot [of "nat dpi" ds] by simp
    with 2 show ?thesis by (simp add: format_number_digits_def)
  next
    case 3
    then have "push_digits dpi 0 ds = map digit_char ds" by (intro push_digits_plain) auto
    with 3 show ?thesis by (simp add: format_number_digits_def)
  qed
qed

lemma replicate_zero_char: "replicate k 48 = map digit_char (replicate k 0)"
  by (simp add: digit_char_def)

lemma text_value_digits:
  assumes "decimals is" "decimals fs" "is \<noteq> []" "\<not> dot \<longrightarrow> fs = []"
  shows "text_value ((if neg then [45] else []) @ map digit_char is @ (if dot then 46 # map digit_char fs else [])) =
    (if neg then -1 else 1) * of_nat (digits_value (is @ fs)) * 10 powi (- int (length fs))"
proof -
  obtain i is' where i: "is = i # is'" using assms(3) by (cases "is") auto
  have "digit_char i \<noteq> 45" using assms(1) digit_char(1) [of i] ascii_digit_not by (auto simp: i)
  then have "text_value ((if neg then [45] else []) @ map digit_char is @ (if dot then 46 # map digit_char fs else [])) =
    (if neg then -1 else 1) * of_nat (decimal_value (map digit_char is @ map digit_char fs)) *
      10 powi (exponent_value (drop 1 []) - int (length (map digit_char fs)))"
    using assms(4)
    by (intro text_value_parts [OF digit_chars(1) [OF assms(1)] digit_chars(1) [OF assms(2)] _ refl])
       (auto simp: i)
  then show ?thesis
    using digit_chars(2) [OF assms(1)] digit_chars(2) [OF assms(2)]
    by (simp add: decimal_value_digits exponent_value_def)
qed

lemma decimals_zeros [simp]: "decimals (replicate k 0)"
  by (auto simp: decimals_def)

lemma text_value_format:
  assumes "decimals ds" "ds \<noteq> []"
  shows "text_value (format_number_digits ds neg dpi []) = scaled_value neg ds dpi"
proof -
  consider "dpi \<le> 0" | "0 < dpi" "dpi < int (length ds)" | "0 < dpi" "int (length ds) \<le> dpi" by linarith
  then show ?thesis
  proof cases
    case 1
    let ?fs = "replicate (nat (- dpi)) 0 @ ds"
    have "format_number_digits ds neg dpi [] =
        (if neg then [45] else []) @ map digit_char [0] @ (if True then 46 # map digit_char ?fs else [])"
      using 1 by (simp add: format_number_digits_eq replicate_zero_char) (simp add: digit_char_def)
    moreover have "decimals ?fs" using assms by simp
    ultimately show ?thesis using 1 text_value_digits [of "[0]" ?fs True neg]
      by (simp add: scaled_value_def digits_value_append)
  next
    case 2
    let ?i = "take (nat dpi) ds" let ?f = "drop (nat dpi) ds"
    have "format_number_digits ds neg dpi [] =
        (if neg then [45] else []) @ map digit_char ?i @ (if True then 46 # map digit_char ?f else [])"
      using 2 by (simp add: format_number_digits_eq)
    moreover have "decimals ?i" "decimals ?f" "?i \<noteq> []"
      using assms 2 by (auto simp: decimals_def dest: in_set_takeD in_set_dropD)
    ultimately show ?thesis using 2 text_value_digits [of ?i ?f True neg]
      by (simp add: scaled_value_def of_nat_diff)
  next
    case 3
    let ?k = "nat (dpi - int (length ds))"
    let ?i = "ds @ replicate ?k 0"
    have "format_number_digits ds neg dpi [] =
        (if neg then [45] else []) @ map digit_char ?i @ (if False then 46 # map digit_char [] else [])"
      using 3 by (simp add: format_number_digits_eq replicate_zero_char)
    moreover have "decimals ?i" using assms by simp
    moreover have "(10 :: rat) powi (dpi - int (length ds)) = 10 ^ ?k"
      using 3 by (simp add: power_int_def)
    ultimately show ?thesis using 3 assms text_value_digits [of ?i "[]" False neg]
      by (simp add: scaled_value_def digits_value_append)
  qed
qed


lemma format_point_iff:
  assumes "decimals ds"
  shows "46 \<in> set (format_number_digits ds neg dpi []) \<longleftrightarrow> \<not> (dpi > 0 \<and> dpi \<ge> int (length ds))"
proof -
  have "46 \<notin> digit_char ` set xs" if "decimals xs" for xs
    using digit_chars(1) [OF that] ascii_digit_not by (auto simp: list_all_iff)
  moreover have "decimals (take k ds)" "decimals (drop k ds)" for k
    using assms by (auto simp: decimals_def dest: in_set_takeD in_set_dropD)
  ultimately show ?thesis using assms by (auto simp: format_number_digits_eq)
qed

lemma encode_number_textE:
  assumes "encode_number_text t = Inr w"
  obtains (zero) neg dpi where "parse_number_text t = Inr (neg, [], dpi)" "w = [128]"
  | (digits) neg ds dpi where "parse_number_text t = Inr (neg, ds, dpi)" "canonical_digits ds"
      "length ds \<le> 40" "-129 \<le> dpi" "dpi \<le> 126" "encode_number_digits neg ds dpi = Inr w"
proof -
  from assms obtain neg ds dpi where p: "parse_number_text t = Inr (neg, ds, dpi)" and
    e: "encode_number_digits neg ds dpi = Inr w"
    by (auto simp: encode_number_text_def ebind_Inr_iff)
  have r: "length ds \<le> 40 \<and> -129 \<le> dpi \<and> dpi \<le> 126"
    using e by (auto simp: encode_number_digits_def NUMBER_MAX_DIGITS_def split: if_splits)
  from parse_number_text_sound [OF p] show ?thesis
  proof (elim conjE disjE)
    assume "ds = []"
    with e p r show ?thesis
      by (intro zero) (simp_all add: encode_number_digits_def NUMBER_MAX_DIGITS_def)
  next
    assume "canonical_digits ds"
    with e p r show ?thesis by (intro digits) simp_all
  qed
qed

lemma padded_length_odd40:
  "length ds = 40 \<Longrightarrow> odd dpi \<Longrightarrow> length (padded ds dpi) = 42"
  by (simp add: padded_def)

lemma encode_40_digits_length:
  assumes "length ds = 40" "odd dpi" "-129 \<le> dpi" "dpi \<le> 126"
  shows "\<exists>w. encode_number_digits neg ds dpi = Inr w \<and> length w = 22"
proof -
  have "ds \<noteq> []" using assms by auto
  then show ?thesis
    using assms encode_number_digits_eq [of ds dpi neg] padded_length_odd40 [OF assms(1,2)]
      emit_pairs_length [of 21 "padded ds dpi" neg True]
    by (simp add: terminator_def NUMBER_MAX_DIGITS_def)
qed

lemma encoded_number_decodes:
  assumes "encode_number_text t = Inr w" "length w \<le> 21"
  obtains (zero) "w = [128]" "text_value t = 0"
  | (digits) neg ds dpi where "canonical_digits ds" "scaled_value neg ds dpi = text_value t"
      "\<And>text. decode_number_parts w text =
        Inr (ds, text, DParts neg dpi (dpi > 0 \<and> dpi \<ge> int (length ds)))"
  using assms(1)
proof (cases rule: encode_number_textE)
  case (zero neg dpi)
  with parse_number_text_sound [OF zero(1)] show ?thesis
    by (intro that(1)) (simp_all add: scaled_value_def)
next
  case (digits neg ds dpi)
  have "\<not> (length ds = 40 \<and> odd dpi)"
    using encode_40_digits_length [of ds dpi neg] digits assms(2) by auto
  note rt = number_digits_roundtrip [OF digits(2,3,4,5) this]
  have "decode_number_parts w tx =
        Inr (ds, tx, DParts neg dpi (dpi > 0 \<and> dpi \<ge> int (length ds)))" for tx
    by (rule rt [of neg tx]) (use digits(6) in simp)
  with digits parse_number_text_sound [OF digits(1)] show ?thesis by (intro that(2)) auto
qed


lemmas num_encode_eval =
  encode_number_text_def parse_number_text_def scan_fraction_def scan_suffix_def scan_exponent_def
  add_exponent_def strip_zeros_def encode_number_digits_def mantissa_byte_def is_ascii_digit_def
  digit_of_def decimal_value_def NUMBER_AS_TEXT_CHARS_def NUMBER_MAX_DIGITS_def ascii_def
  signed_modulo_int_def signed_divide_int_def


lemma number_too_long:
  assumes "length bs > 21"
  shows "decode_number_parts bs text = Inl (TtcDecode ''encoded NUMBER too long'')"
    and "from_wire bs = Inl (TtcDecode ''encoded NUMBER too long'')"
  using assms by (simp_all only: decode_number_parts_def from_wire_def decode_number_parts_stack_def
      if_True ebind_simps)

text \<open>
  C26. A number with forty significant digits and an odd decimal point index is encoded to 22
  bytes, which the decoder of the same crate refuses.
\<close>

theorem number_40_digits_refused:
  assumes "length ds = 40" "odd dpi" "-129 \<le> dpi" "dpi \<le> 126"
  shows "\<exists>w. encode_number_digits neg ds dpi = Inr w \<and>
           decode_number_parts w text = Inl (TtcDecode ''encoded NUMBER too long'') \<and>
           from_wire w = Inl (TtcDecode ''encoded NUMBER too long'')"
proof -
  obtain w where w: "encode_number_digits neg ds dpi = Inr w" "length w > 21"
    using encode_40_digits_length [OF assms, of neg] by auto
  show ?thesis using w(1) number_too_long [OF w(2)] by blast
qed

theorem number_40_digits_refused_witness:
  "\<exists>w. encode_number_digits False (replicate 40 7) 1 = Inr w \<and>
       decode_number_parts w [] = Inl (TtcDecode ''encoded NUMBER too long'') \<and>
       from_wire w = Inl (TtcDecode ''encoded NUMBER too long'')"
  by (rule number_40_digits_refused [OF length_replicate]) simp_all

end
