(* ===== verification/Number_Inline.thy ===== *)
theory Number_Inline
  imports Number_Roundtrip
begin

text \<open>
  The inline NUMBER representation: the allocation-free decode agrees with the heap decode, the
  owned and borrowed paths print the same canonical text, and the exact integer conversion is
  correct.
\<close>

subsection \<open>The stack walk is the heap walk\<close>

definition coeff_fold :: "nat list \<Rightarrow> int option" where
  "coeff_fold ds = foldl (\<lambda>acc d. Option.bind (Option.bind acc (\<lambda>a. checked_i128 (a * 10)))
     (\<lambda>a. checked_i128 (a + int d))) (Some 0) ds"

lemma coeff_fold_snoc [simp]:
  "coeff_fold (ds @ [d]) =
     Option.bind (Option.bind (coeff_fold ds) (\<lambda>a. checked_i128 (a * 10))) (\<lambda>a. checked_i128 (a + int d))"
  by (simp add: coeff_fold_def)

lemma coeff_fold_value:
  "coeff_fold ds = (if int (digits_value ds) \<le> i128_max then Some (int (digits_value ds)) else None)"
proof (induction ds rule: rev_induct)
  case (snoc d ds)
  then show ?case by (simp add: checked_i128_def i128_min_def i128_max_def)
qed (simp add: coeff_fold_def i128_max_def)

lemma digits_to_i128_fold:
  "digits_to_i128 ds neg = map_option (\<lambda>a. if neg then - a else a) (coeff_fold ds)"
  by (simp add: digits_to_i128_def coeff_fold_def)

lemma push_digit_fold:
  "length ds < MAX_DIGITS \<Longrightarrow> push_digit d (ds, coeff_fold ds) = (ds @ [d], coeff_fold (ds @ [d]))"
  by (simp add: push_digit_def)

lemma walk_step_length:
  assumes "mantissa_value pos b \<le> 99" "walk_step pos fin i b (ds, dpi) = (ds', dpi')"
  shows "length ds' \<le> length ds + 2"
proof -
  have "mantissa_value pos b div 10 \<noteq> 10" using assms(1) by linarith
  then show ?thesis using assms(2) by (auto simp: walk_step_def Let_def split: if_splits)
qed

lemma stack_step_fold:
  assumes "mantissa_value pos b \<le> 99" "length ds + 2 \<le> MAX_DIGITS"
    and "walk_step pos fin i b (ds, dpi) = (ds', dpi')"
  shows "stack_step pos fin i b ((ds, coeff_fold ds), dpi) = ((ds', coeff_fold ds'), dpi')"
proof -
  have "mantissa_value pos b div 10 \<noteq> 10" using assms(1) by linarith
  then show ?thesis using assms(2,3)
    by (auto simp: walk_step_def stack_step_def Let_def push_digit_fold simp del: coeff_fold_snoc
        split: if_splits)
qed

lemma stack_walk_fold:
  assumes "\<forall>b\<in>set bs. mantissa_value pos b \<le> 99" "length ds + 2 * length bs \<le> MAX_DIGITS"
    and "digit_walk pos fin i bs (ds, dpi) = (ds', dpi')"
  shows "stack_walk pos fin i bs ((ds, coeff_fold ds), dpi) = ((ds', coeff_fold ds'), dpi')"
  using assms
proof (induction bs arbitrary: i ds dpi)
  case (Cons b bs)
  obtain e p where s: "walk_step pos fin i b (ds, dpi) = (e, p)" by force
  have "length e \<le> length ds + 2" using Cons.prems by (intro walk_step_length [OF _ s]) simp
  with Cons.prems have "length e + 2 * length bs \<le> MAX_DIGITS" by simp
  moreover have "stack_step pos fin i b ((ds, coeff_fold ds), dpi) = ((e, coeff_fold e), p)"
    using Cons.prems by (intro stack_step_fold [OF _ _ s]) auto
  ultimately show ?case using Cons s by simp
qed simp

text \<open>The mantissa bytes of a wire value: those after the exponent byte and before the terminator.\<close>

definition wire_mantissa :: "byte list \<Rightarrow> nat list" where
  "wire_mantissa w = map (mantissa_value (hd w AND 0x80 \<noteq> 0)) (tl (take (wire_end w) w))"

definition as_stack :: "(nat list \<times> byte list \<times> decoded_number) \<Rightarrow> nat list \<times> decoded_number_stack" where
  "as_stack r = (case r of (ds, text, d) \<Rightarrow> (case d of
     DText i \<Rightarrow> (ds, Sentinel text i)
   | DParts neg dpi i \<Rightarrow> (ds, Parts (length ds) neg dpi i (digits_to_i128 ds neg))))"

lemma stack_matches_heap:
  assumes "list_all (\<lambda>v. v \<le> 99) (wire_mantissa w)"
  shows "decode_number_parts_stack w = ebind (decode_number_parts w []) (\<lambda>r. Inr (as_stack r))"
proof -
  consider "length w > 21" | "length w = 0" | "length w = 1" | "2 \<le> length w" "length w \<le> 21"
    by linarith
  then show ?thesis
  proof cases
    case 4
    let ?pos = "hd w AND 0x80 \<noteq> 0" and ?bs = "tl (take (wire_end w) w)"
    obtain ds dpi where dw: "digit_walk ?pos (wire_end w - 1) 1 ?bs ([], wire_dpi w) = (ds, dpi)" by force
    have "\<forall>b\<in>set ?bs. mantissa_value ?pos b \<le> 99"
      using assms by (simp add: wire_mantissa_def list_all_iff)
    moreover have "length ?bs \<le> 20" using 4 by (auto simp: wire_end_def)
    ultimately have sw: "stack_walk ?pos (wire_end w - 1) 1 ?bs (([], Some 0), wire_dpi w) =
        ((ds, coeff_fold ds), dpi)"
      using stack_walk_fold [of ?bs ?pos "[]", OF _ _ dw] by (simp add: MAX_DIGITS_def coeff_fold_def)
    have c: "\<not> length w > 21" "w \<noteq> []" "length w \<noteq> 1" using 4 by auto
    show ?thesis
      unfolding decode_number_parts_stack_def decode_number_parts_def Let_def dw sw
      using c by (simp add: as_stack_def digits_to_i128_fold) (auto intro!: option.map_cong)
  next
    case 3
    then show ?thesis
      by (simp add: decode_number_parts_stack_def decode_number_parts_def as_stack_def)
  qed (simp_all add: decode_number_parts_stack_def decode_number_parts_def)
qed


subsection \<open>Printing the inline form\<close>

lemma decimal_digits_0 [simp]: "decimal_digits 0 = []"
  by (simp add: decimal_digits.simps)

lemma decimal_digits_step: "0 < n * 10 + d \<Longrightarrow> d \<le> 9 \<Longrightarrow> decimal_digits (n * 10 + d) = decimal_digits n @ [d]"
  by (subst decimal_digits.simps) simp

lemma decimal_digits_value:
  "decimals ds \<Longrightarrow> ds \<noteq> [] \<Longrightarrow> hd ds \<noteq> 0 \<Longrightarrow> decimal_digits (digits_value ds) = ds"
proof (induction ds rule: rev_induct)
  case (snoc d ds)
  show ?case
  proof (cases "ds = []")
    case True
    then show ?thesis using snoc.prems decimal_digits_step [of 0 d] by simp
  next
    case False
    then have "decimal_digits (digits_value ds) = ds" "0 < digits_value ds"
      using snoc digits_value_pos [of ds] by auto
    then show ?thesis using snoc.prems decimal_digits_step [of "digits_value ds" d] by simp
  qed
qed simp

lemma push_inline_digits_eq: "0 < dpi \<Longrightarrow> push_inline_digits dpi i ds = push_digits dpi i ds"
  by (induction ds arbitrary: i) auto

definition signed :: "bool \<Rightarrow> nat \<Rightarrow> int" where
  "signed neg n = (if neg then - int n else int n)"

lemma fmt_inline_digits:
  assumes "decimals ds" "ds \<noteq> []" "hd ds \<noteq> 0"
  shows "fmt_inline_into (signed neg (digits_value ds)) (int (length ds) - dpi) out =
    format_number_digits ds neg dpi out"
proof -
  have "0 < digits_value ds" using assms digits_value_pos by simp
  then have c: "signed neg (digits_value ds) \<noteq> 0" "(signed neg (digits_value ds) < 0) = neg"
      "nat \<bar>signed neg (digits_value ds)\<bar> = digits_value ds"
    by (auto simp: signed_def)
  have p: "push_digits dpi 0 ds = map (\<lambda>d. of_nat (48 + d)) ds" if "dpi \<le> 0"
    using push_digits_plain [of 0 ds dpi] that by (auto simp: digit_char_def [abs_def])
  show ?thesis
    unfolding fmt_inline_into_def Let_def c(2,3) if_not_P [OF c(1)] decimal_digits_value [OF assms]
      format_number_digits_def
    by (cases "dpi \<le> 0") (simp_all add: p push_inline_digits_eq)
qed

subsection \<open>Digits of a canonical wire value\<close>

definition canonical_wire :: "byte list \<Rightarrow> bool" where
  "canonical_wire w \<longleftrightarrow> w \<noteq> [] \<and> length w \<le> 21 \<and> list_all (\<lambda>v. v \<le> 99) (wire_mantissa w) \<and>
     (length w > 1 \<longrightarrow> wire_mantissa w \<noteq> [] \<and> hd (wire_mantissa w) \<noteq> 0)"

lemma walk_step_decimals:
  assumes "mantissa_value pos b \<le> 99" "walk_step pos fin i b (ds, dpi) = (ds', dpi')" "decimals ds"
    and "ds \<noteq> [] \<and> hd ds \<noteq> 0 \<or> ds = [] \<and> mantissa_value pos b \<noteq> 0"
  shows "decimals ds' \<and> ds' \<noteq> [] \<and> hd ds' \<noteq> 0"
proof -
  let ?v = "mantissa_value pos b"
  have v: "?v div 10 \<noteq> 10" "?v div 10 \<le> 9" "?v mod 10 \<le> 9" using assms(1) by linarith+
  have "?v mod 10 \<noteq> 0" if "?v div 10 = 0" "?v \<noteq> 0" using that by presburger
  then show ?thesis using assms(2,3,4) v
    by (auto simp: walk_step_def Let_def hd_append split: if_splits)
qed

lemma digit_walk_decimals:
  assumes "\<forall>b\<in>set bs. mantissa_value pos b \<le> 99" "digit_walk pos fin i bs (ds, dpi) = (ds', dpi')"
    and "decimals ds" "ds \<noteq> [] \<and> hd ds \<noteq> 0 \<or> ds = [] \<and> bs \<noteq> [] \<and> mantissa_value pos (hd bs) \<noteq> 0"
  shows "decimals ds' \<and> ds' \<noteq> [] \<and> hd ds' \<noteq> 0"
  using assms
proof (induction bs arbitrary: i ds dpi)
  case (Cons b bs)
  obtain e p where s: "walk_step pos fin i b (ds, dpi) = (e, p)" by force
  have "decimals e \<and> e \<noteq> [] \<and> hd e \<noteq> 0"
    using Cons.prems by (intro walk_step_decimals [OF _ s]) auto
  then show ?case using Cons.prems s by (intro Cons.IH [of "i + 1" e p]) auto
qed auto

lemma canonical_wire_digits:
  assumes "canonical_wire w" "1 < length w"
  obtains neg ds dpi where "decode_number_parts w tx =
      Inr (ds, tx, DParts neg dpi (dpi > 0 \<and> dpi \<ge> int (length ds)))"
    "decimals ds" "ds \<noteq> []" "hd ds \<noteq> 0"
proof -
  let ?pos = "hd w AND 0x80 \<noteq> 0" and ?bs = "tl (take (wire_end w) w)"
  obtain ds dpi where dw: "digit_walk ?pos (wire_end w - 1) 1 ?bs ([], wire_dpi w) = (ds, dpi)" by force
  have "decimals ds \<and> ds \<noteq> [] \<and> hd ds \<noteq> 0"
    using assms by (intro digit_walk_decimals [OF _ dw])
      (auto simp: canonical_wire_def wire_mantissa_def list_all_iff hd_map)
  moreover have "\<not> length w > 21" "w \<noteq> []" "length w \<noteq> 1" using assms by (auto simp: canonical_wire_def)
  then have "decode_number_parts w tx =
      Inr (ds, tx, DParts (\<not> ?pos) dpi (dpi > 0 \<and> dpi \<ge> int (length ds)))"
    unfolding decode_number_parts_def Let_def dw by simp
  ultimately show ?thesis by (intro that) auto
qed


subsection \<open>Parsing canonical text\<close>

lemma fold_i128_digits: "fold_i128 bs = coeff_fold (map digit_of bs)"
  by (simp add: fold_i128_def coeff_fold_def foldl_map)

lemma parse_canonical_digits:
  assumes "decimals is" "decimals fs" "is \<noteq> []" "\<not> dot \<longrightarrow> fs = []"
  shows "parse_canonical_inline
      ((if neg then [45] else []) @ map digit_char is @ (if dot then 46 # map digit_char fs else [])) =
    Option.bind (coeff_fold (is @ fs)) (\<lambda>acc.
      if int (length fs) > 32767 then None
      else if acc = 0 \<and> fs = [] then None
      else if fs = [] then trim_zeros (if neg then - acc else acc) 0
      else Some (if neg then - acc else acc, int (length fs)))"
proof -
  obtain i is' where i: "is = i # is'" using assms(3) by (cases "is") auto
  let ?r = "map digit_char is @ (if dot then 46 # map digit_char fs else [])"
  let ?t = "(if neg then [45] else []) @ ?r"
  have d45: "digit_char i \<noteq> 45" using assms(1) digit_char(1) [of i] ascii_digit_not by (auto simp: i)
  have n: "(?t \<noteq> [] \<and> hd ?t = 45) = neg" "(if neg then tl ?t else ?t) = ?r" "?r \<noteq> []"
    using d45 by (auto simp: i)
  have ip: "takeWhile (\<lambda>b. b \<noteq> 46) ?r = map digit_char is"
    using digit_chars(1) [OF assms(1)] by (intro takeWhile_digits) (auto dest: ascii_digit_not)
  have fp: "drop (length (map digit_char is) + 1) ?r = map digit_char fs" using assms(4) by auto
  have f: "fold_i128 (map digit_char is @ map digit_char fs) = coeff_fold (is @ fs)"
    using digit_chars(2) [OF assms(1)] digit_chars(2) [OF assms(2)] by (simp add: fold_i128_digits)
  show ?thesis
    unfolding parse_canonical_inline_def Let_def n(1,2) if_not_P [OF n(3)] ip fp f
    using digit_chars(1) [OF assms(1)] digit_chars(1) [OF assms(2)]
    by (cases "coeff_fold (is @ fs)"; cases neg; cases fs) simp_all
qed

lemma fmt_inline_trailing:
  assumes "c \<noteq> 0" "s \<le> 0"
  shows "fmt_inline_into (c * 10) s out = fmt_inline_into c (s - 1) out"
proof -
  have d: "decimal_digits (nat \<bar>c * 10\<bar>) = decimal_digits (nat \<bar>c\<bar>) @ [0]"
    using decimal_digits_step [of "nat \<bar>c\<bar>" 0] assms(1) by (simp add: abs_mult nat_mult_distrib)
  let ?d = "decimal_digits (nat \<bar>c\<bar>)"
  have p: "push_inline_digits dpi 0 ds = map digit_char ds" if "dpi \<ge> int (length ds)" "0 < dpi" for ds dpi
    using that by (simp add: push_inline_digits_eq) (rule push_digits_plain, auto)
  have "replicate (nat (1 - s)) (48 :: byte) = 48 # replicate (nat (- s)) 48"
    using assms(2) by (simp add: Suc_nat_eq_nat_zadd1 [symmetric] flip: replicate_Suc)
  moreover have "decimal_digits (nat \<bar>c\<bar>) \<noteq> []"
    using assms(1) by (subst decimal_digits.simps) simp
  ultimately show ?thesis
    unfolding fmt_inline_into_def Let_def d using assms
    by (auto simp: p digit_char_def mult_less_0_iff)
qed

lemma trim_zeros_fmt:
  assumes "trim_zeros c s = Some (c', s')" "c \<noteq> 0" "s \<le> 0"
  shows "fmt_inline_into c' s' out = fmt_inline_into c s out"
  using assms
proof (induction c s rule: trim_zeros.induct)
  case (1 c s)
  show ?case
  proof (cases "c smod 10 = 0")
    case True
    then have "c = (c sdiv 10) * 10" using sdiv_mult_smod_eq [of c 10] by simp
    moreover from this have "c sdiv 10 \<noteq> 0" using "1.prems" by auto
    moreover have "trim_zeros (c sdiv 10) (s - 1) = Some (c', s')" "\<not> s - 1 < -32768"
      using "1.prems" True by (auto simp: trim_zeros.simps [of c s] split: if_splits)
    ultimately show ?thesis
      using "1.IH" [OF True] "1.prems" fmt_inline_trailing [of "c sdiv 10" s out] by simp
  next
    case False
    then show ?thesis using "1.prems" by (simp add: trim_zeros.simps [of c s])
  qed
qed


text \<open>Canonical text survives being parsed into the inline form and printed again.\<close>

lemma canonical_text_stable:
  assumes "decimals ds" "ds \<noteq> []" "hd ds \<noteq> 0"
  shows "to_canonical_string (from_canonical_text_with_flag (format_number_digits ds neg dpi []) i) =
    format_number_digits ds neg dpi []"
proof -
  let ?t = "format_number_digits ds neg dpi []"
  have inl: "fmt_inline_into c s [] = ?t" if "parse_canonical_inline ?t = Some (c, s)" for c s
  proof -
    have pos: "0 < digits_value ds" using assms digits_value_pos by simp
    have f: "fmt_inline_into (signed neg (digits_value ds)) (int (length ds) - dpi) [] = ?t"
      using fmt_inline_digits [OF assms] by simp
    consider "dpi \<le> 0" | "0 < dpi" "dpi < int (length ds)" | "0 < dpi" "int (length ds) \<le> dpi" by linarith
    then show ?thesis
    proof cases
      case 1
      let ?fs = "replicate (nat (- dpi)) 0 @ ds"
      have "?t = (if neg then [45] else []) @ map digit_char [0] @ (if True then 46 # map digit_char ?fs else [])"
        using 1 by (simp add: format_number_digits_eq replicate_zero_char) (simp add: digit_char_def)
      then have "c = signed neg (digits_value ds) \<and> s = int (length ?fs)"
        using that parse_canonical_digits [of "[0]" ?fs True neg] assms
        by (auto simp: coeff_fold_value digits_value_append signed_def split: if_splits)
      then show ?thesis using f 1 by simp
    next
      case 2
      let ?i = "take (nat dpi) ds" let ?f = "drop (nat dpi) ds"
      have "?t = (if neg then [45] else []) @ map digit_char ?i @ (if True then 46 # map digit_char ?f else [])"
        using 2 by (simp add: format_number_digits_eq)
      moreover have "decimals ?i" "decimals ?f" "?i \<noteq> []"
        using assms 2 by (auto simp: decimals_def dest: in_set_takeD in_set_dropD)
      ultimately have "c = signed neg (digits_value ds) \<and> s = int (length ?f)"
        using that parse_canonical_digits [of ?i ?f True neg] 2
        by (auto simp: coeff_fold_value signed_def split: if_splits)
      then show ?thesis using f 2 by (simp add: of_nat_diff)
    next
      case 3
      let ?k = "nat (dpi - int (length ds))"
      let ?i = "ds @ replicate ?k 0"
      have t: "?t = (if neg then [45] else []) @ map digit_char ?i @ (if False then 46 # map digit_char [] else [])"
        using 3 by (simp add: format_number_digits_eq replicate_zero_char)
      then have "trim_zeros (signed neg (digits_value ?i)) 0 = Some (c, s)"
        using that parse_canonical_digits [of ?i "[]" False neg] assms
        by (auto simp: coeff_fold_value signed_def split: if_splits)
      moreover have "digits_value ?i > 0" using assms by (intro digits_value_pos) auto
      ultimately have "fmt_inline_into c s [] = fmt_inline_into (signed neg (digits_value ?i)) 0 []"
        by (intro trim_zeros_fmt) (auto simp: signed_def)
      also have "\<dots> = format_number_digits ?i neg dpi []"
        using fmt_inline_digits [of ?i neg dpi "[]"] assms 3 by simp
      also have "\<dots> = ?t" using 3 by (simp add: format_number_digits_eq replicate_zero_char)
      finally show ?thesis .
    qed
  qed
  show ?thesis
    using inl by (auto simp: from_canonical_text_with_flag_def to_canonical_string_def fmt_into_def
        split: option.splits)
qed

text \<open>The owned decode prints what the borrowed decode prints.\<close>

lemma from_wire_canonical:
  assumes "canonical_wire w" "1 < length w"
    and "decode_number_parts w [] = Inr (ds, [], DParts neg dpi i)"
    and "decimals ds" "ds \<noteq> []" "hd ds \<noteq> 0"
  shows "\<exists>n. from_wire w = Inr n \<and> to_canonical_string n = format_number_digits ds neg dpi [] \<and>
           is_integer_flag n = i"
proof -
  have "decode_number_parts_stack w = Inr (ds, Parts (length ds) neg dpi i (digits_to_i128 ds neg))"
    using stack_matches_heap [of w] assms(1,3) by (simp add: canonical_wire_def as_stack_def)
  moreover have "digits_to_i128 ds neg = Some c \<Longrightarrow> c = signed neg (digits_value ds)" for c
    by (auto simp: digits_to_i128_fold coeff_fold_value signed_def split: if_splits)
  ultimately show ?thesis
    using fmt_inline_digits [OF assms(4,5,6), of neg dpi "[]"]
    by (auto simp: from_wire_def to_canonical_string_def fmt_into_def is_integer_flag_def spill_text_def
        Let_def split: option.splits)
qed


lemmas num_decode_eval =
  decode_number_text_into_def decode_number_parts_def decode_number_parts_stack_def wire_end_def
  wire_dpi_def mantissa_value_def walk_step_def stack_step_def push_digit_def checked_i128_def
  format_number_digits_def ascii_def MAX_DIGITS_def i128_min_def i128_max_def wire_mantissa_def
  from_wire_def

text \<open>
  The stack-buffer digit walk with its fused coefficient gives exactly what the heap walk
  followed by a separate fold over the digits gives, for every byte string whose mantissa bytes
  are base-100 digits, errors and one-byte sentinels included.
\<close>

theorem number_walks_agree:
  assumes "list_all (\<lambda>v. v \<le> 99) (wire_mantissa w)"
  shows "decode_number_parts_stack w = ebind (decode_number_parts w []) (\<lambda>r. Inr (as_stack r))"
  by (rule stack_matches_heap) fact

theorem number_walks_agree_witness:
  "decode_number_parts_stack [193, 2, 51] =
     ebind (decode_number_parts [193, 2, 51] []) (\<lambda>r. Inr (as_stack r))"
  by (rule number_walks_agree) (simp add: num_decode_eval)



text \<open>
  Outside canonical wire values the paths differ: a zero leading mantissa byte is printed by the
  borrowed decode and lost by the owned one, and a mantissa byte above 101 yields bytes that are
  not digits.
\<close>

lemma number_paths_differ:
  "decode_number_text_into [194, 1, 2] [] = Inr (ascii ''001'', True)"
  "from_wire [194, 1, 2] = Inr (Inline 1 0 True)"
  by (simp_all add: num_decode_eval)

lemma number_text_not_digits:
  "decode_number_text_into [193, 255] [] = Inr (ascii ''I4'', True)"
  by (simp add: num_decode_eval)

subsection \<open>Exact integers\<close>

lemma checked_i128_Some: "checked_i128 x = Some y \<longleftrightarrow> y = x \<and> i128_min \<le> x \<and> x \<le> i128_max"
  by (auto simp: checked_i128_def)

lemma scale_up_eq:
  assumes "i128_min \<le> v" "v \<le> i128_max"
  shows "scale_up n v = checked_i128 (v * 10 ^ n)"
  using assms
proof (induction n arbitrary: v)
  case (Suc n)
  show ?case
  proof (cases "i128_min \<le> v * 10 \<and> v * 10 \<le> i128_max")
    case True
    then show ?thesis using Suc.IH [of "v * 10"] by (simp add: checked_i128_def ac_simps)
  next
    case False
    have *: "(10 :: int) * 1 \<le> 10 * 10 ^ n" by (intro mult_left_mono) auto
    have "v * (10 * 10 ^ n) < i128_min \<or> i128_max < v * (10 * 10 ^ n)"
    proof (cases "0 \<le> v")
      case True
      then have "v * (10 * 1) \<le> v * (10 * 10 ^ n)" using * by (intro mult_left_mono) auto
      then show ?thesis using False True by (auto simp: i128_min_def)
    next
      case neg: False
      then have "v * (10 * 10 ^ n) \<le> v * (10 * 1)" by (intro mult_left_mono_neg [OF *]) simp
      moreover have "v * 10 \<le> i128_max" using neg by (simp add: i128_max_def)
      then have "v * 10 < i128_min" using False by linarith
      ultimately show ?thesis by linarith
    qed
    then show ?thesis using False by (auto simp: checked_i128_def)
  qed
qed (simp add: checked_i128_def)


definition inline_value :: "int \<Rightarrow> int \<Rightarrow> rat" where
  "inline_value coefficient scale = of_int coefficient * 10 powi (- scale)"

lemma inline_value_neg: "s < 0 \<Longrightarrow> inline_value c s = of_int (c * 10 ^ nat (- s))"
  by (simp add: inline_value_def power_int_def)

lemma inline_value_pos: "0 < s \<Longrightarrow> of_int v = inline_value c s \<longleftrightarrow> v * 10 ^ nat s = c"
proof -
  assume s: "0 < s"
  have "of_int v = inline_value c s \<longleftrightarrow> (of_int v :: rat) * 10 ^ nat s = of_int c"
    using s by (simp add: inline_value_def power_int_def field_simps)
  also have "\<dots> \<longleftrightarrow> (of_int (v * 10 ^ nat s) :: rat) = of_int c" by simp
  finally show ?thesis by (simp only: of_int_eq_iff)
qed

lemma pow10_i128: "(10 :: int) ^ n \<le> i128_max \<longleftrightarrow> n \<le> 38"
proof
  assume "(10 :: int) ^ n \<le> i128_max"
  also have "i128_max < 10 ^ 39" by (simp add: i128_max_def)
  finally show "n \<le> 38" using power_increasing [of 39 n "10 :: int"] by (cases "39 \<le> n") auto
next
  assume "n \<le> 38"
  then have "(10 :: int) ^ n \<le> 10 ^ 38" by (intro power_increasing) auto
  also have "\<dots> \<le> i128_max" by (simp add: i128_max_def)
  finally show "(10 :: int) ^ n \<le> i128_max" .
qed

text \<open>
  Converting an inline number to an integer succeeds exactly when the number denotes an
  integer that fits 128 bits, and returns that integer.
\<close>

theorem inline_to_i128_exact:
  assumes "i128_min \<le> c" "c \<le> i128_max" "c \<noteq> 0"
  shows "inline_to_i128 c s = Some v \<longleftrightarrow>
    of_int v = inline_value c s \<and> i128_min \<le> v \<and> v \<le> i128_max"
proof -
  consider "s = 0" | "s < 0" | "0 < s" by linarith
  then show ?thesis
  proof cases
    case 1
    then show ?thesis using assms by (auto simp: inline_to_i128_def inline_value_def)
  next
    case 2
    then show ?thesis
      unfolding inline_value_neg [OF 2] of_int_eq_iff
      using scale_up_eq [OF assms(1,2)] by (auto simp: inline_to_i128_def checked_i128_Some)
  next
    case 3
    let ?d = "(10 :: int) ^ nat s"
    have up: "scale_up (nat s) 1 = (if nat s \<le> 38 then Some ?d else None)"
    proof -
      have "i128_min \<le> 0" by (simp add: i128_min_def)
      also have "0 \<le> ?d" by simp
      finally have "i128_min \<le> ?d" .
      moreover have "i128_min \<le> 1" "1 \<le> i128_max" by (simp_all add: i128_min_def i128_max_def)
      ultimately show ?thesis
        using scale_up_eq [of 1 "nat s"] pow10_i128 [of "nat s"] by (simp add: checked_i128_def)
    qed
    have small: "\<bar>c\<bar> < ?d" if "\<not> nat s \<le> 38"
    proof -
      have "\<bar>c\<bar> < 10 ^ 39" using assms by (auto simp: i128_min_def i128_max_def)
      also have "(10 :: int) ^ 39 \<le> ?d" using that by (intro power_increasing) auto
      finally show ?thesis .
    qed
    have no: "v * ?d \<noteq> c" if "\<not> nat s \<le> 38"
      using small [OF that] assms(3) dvd_imp_le_int [of c ?d] by (metis dvd_triv_right abs_of_pos not_le zero_less_power zero_less_numeral)
    have div: "(c smod ?d = 0 \<and> v = c sdiv ?d) = (v * ?d = c)"
    proof
      assume "c smod ?d = 0 \<and> v = c sdiv ?d"
      then show "v * ?d = c" using sdiv_mult_smod_eq [of c ?d] by simp
    next
      assume e: "v * ?d = c"
      show "c smod ?d = 0 \<and> v = c sdiv ?d"
        by (auto simp: e [symmetric] signed_modulo_int_def signed_divide_int_def abs_mult sgn_mult)
           (simp add: sgn_if)
    qed
    have range: "i128_min \<le> v \<and> v \<le> i128_max" if "v * ?d = c"
    proof -
      have "(10 :: int) ^ 1 \<le> ?d" using 3 by (intro power_increasing) auto
      then have "\<bar>v\<bar> * 10 \<le> \<bar>v\<bar> * ?d" by (intro mult_left_mono) auto
      also have "\<dots> = \<bar>c\<bar>" by (simp add: that [symmetric] abs_mult)
      finally show ?thesis using assms by (auto simp: i128_min_def i128_max_def)
    qed
    show ?thesis
      unfolding inline_value_pos [OF 3] inline_to_i128_def up
      using 3 no div range by (auto split: if_splits)
  qed
qed

theorem inline_to_i128_exact_witness:
  "inline_to_i128 2500 2 = Some 25 \<longleftrightarrow>
     of_int 25 = inline_value 2500 2 \<and> i128_min \<le> 25 \<and> (25 :: int) \<le> i128_max"
  by (rule inline_to_i128_exact) (simp_all add: i128_min_def i128_max_def)

end
