(* ===== verification/Pool_Lifecycle.thy ===== *)
theory Pool_Lifecycle
  imports Transitions
begin

text \<open>
  The pure lifecycle state machine of the connection pool
  (\<^verbatim>\<open>crates/oracledb/src/pool.rs\<close>, module \<^verbatim>\<open>lifecycle\<close>). Slots and waiters are
  numbered by \<^verbatim>\<open>u64\<close> counters, \<open>nat\<close> here: the model does not wrap after
  \<open>2 ^ 64\<close> requests. A method taking \<^verbatim>\<open>&mut self\<close> returns its result and the new state,
  also when the result is an error.
\<close>

type_synonym slot_id = nat
type_synonym waiter_id = nat

datatype pool_close_reason = Reap | Graceful | Force | Unhealthy

datatype pool_effect =
    Open slot_id "waiter_id option"
  | Ping slot_id waiter_id
  | Close slot_id pool_close_reason

datatype pool_slot_state =
    Opening "waiter_id option"
  | Idle
  | CheckedOut waiter_id
  | Validating "waiter_id option"
  | Retiring
  | Closing
  | Closed

datatype pool_lifecycle_error =
    Busy
  | PoolClosed
  | UnknownSlot slot_id
  | InvalidState slot_id pool_slot_state string

record pool_counts =
  opening_count :: nat
  idle_count :: nat
  checked_out_count :: nat
  validating_count :: nat
  retiring_count :: nat
  closing_count :: nat
  closed_count :: nat
  waiters_count :: nat

record pool_slot =
  slot_no :: slot_id
  slot_state :: pool_slot_state

record pure_pool_state =
  min_size :: nat
  max_size :: nat
  slots :: "pool_slot list"
  waiters :: "waiter_id list"
  effects :: "pool_effect list"
  history :: "string list"
  closing :: bool
  next_slot :: slot_id
  next_waiter :: waiter_id

type_synonym 'a lifecycle = "(pool_lifecycle_error + 'a) \<times> pure_pool_state"

subsection \<open>Helpers\<close>

definition show_waiter :: "waiter_id option \<Rightarrow> string" where
  "show_waiter w = (case w of None \<Rightarrow> ''None'' | Some n \<Rightarrow> ''Some('' @ show_nat n @ '')'')"

definition push_history :: "string \<Rightarrow> pure_pool_state \<Rightarrow> pure_pool_state" where
  "push_history msg s = s\<lparr>history := history s @ [msg]\<rparr>"

definition emit :: "pool_effect \<Rightarrow> pure_pool_state \<Rightarrow> pure_pool_state" where
  "emit e s = s\<lparr>effects := effects s @ [e]\<rparr>"

definition set_slot :: "nat \<Rightarrow> pool_slot_state \<Rightarrow> pure_pool_state \<Rightarrow> pure_pool_state" where
  "set_slot ix st s = s\<lparr>slots := (slots s)[ix := (slots s ! ix)\<lparr>slot_state := st\<rparr>]\<rparr>"

definition live_slot_count :: "pure_pool_state \<Rightarrow> nat" where
  "live_slot_count s = length (filter (\<lambda>x. slot_state x \<noteq> Closed) (slots s))"

definition slot_index :: "slot_id \<Rightarrow> pure_pool_state \<Rightarrow> nat option" where
  "slot_index slot s = position (\<lambda>c. slot_no c = slot) (slots s)"

definition state_of :: "slot_id \<Rightarrow> pure_pool_state \<Rightarrow> pool_slot_state option" where
  "state_of slot s = map_option slot_state (find (\<lambda>c. slot_no c = slot) (slots s))"

text \<open>\<^verbatim>\<open>invalid_state\<close> is only called on a slot found by \<open>slot_index\<close>.\<close>

definition invalid_state :: "slot_id \<Rightarrow> string \<Rightarrow> pure_pool_state \<Rightarrow> pool_lifecycle_error" where
  "invalid_state slot action s =
     (case state_of slot s of Some st \<Rightarrow> InvalidState slot st action | None \<Rightarrow> UnknownSlot slot)"

definition open_slot :: "waiter_id option \<Rightarrow> pure_pool_state \<Rightarrow> pure_pool_state" where
  "open_slot waiter s =
     (let slot = next_slot s
      in push_history (''open slot='' @ show_nat slot @ '' waiter='' @ show_waiter waiter)
           (emit (Open slot waiter)
             (s\<lparr>next_slot := slot + 1,
                slots := slots s @ [\<lparr>slot_no = slot, slot_state = Opening waiter\<rparr>]\<rparr>)))"

definition release_slot_at :: "nat \<Rightarrow> pool_close_reason \<Rightarrow> pure_pool_state \<Rightarrow> pure_pool_state" where
  "release_slot_at ix reason s =
     (let slot = slot_no (slots s ! ix)
      in if closing s
         then push_history (''release slot='' @ show_nat slot @ '' close'')
                (emit (Close slot reason) (set_slot ix Closing s))
         else push_history (''release slot='' @ show_nat slot @ '' idle'') (set_slot ix Idle s))"

subsection \<open>The two loops\<close>

text \<open>
  One turn of \<^verbatim>\<open>drive_waiters\<close> for the popped waiter: validate an idle slot, or open a new
  one below the maximum; \<open>None\<close> when the waiter has to be put back.
\<close>

definition serve_waiter :: "waiter_id \<Rightarrow> pure_pool_state \<Rightarrow> pure_pool_state option" where
  "serve_waiter waiter s =
     (case position (\<lambda>x. slot_state x = Idle) (slots s) of
        Some ix \<Rightarrow>
          let slot = slot_no (slots s ! ix)
          in Some (push_history (''validate slot='' @ show_nat slot @ '' waiter='' @ show_nat waiter)
               (emit (Ping slot waiter) (set_slot ix (Validating (Some waiter)) s)))
      | None \<Rightarrow>
          if live_slot_count s < max_size s then Some (open_slot (Some waiter) s) else None)"

lemma waiters_update_simps [simp]:
  "waiters (push_history m s) = waiters s" "waiters (emit e s) = waiters s"
  "waiters (set_slot ix st s) = waiters s" "waiters (open_slot w s) = waiters s"
  by (simp_all add: push_history_def emit_def set_slot_def open_slot_def Let_def)

lemma serve_waiter_waiters: "serve_waiter w s = Some s' \<Longrightarrow> waiters s' = waiters s"
  by (auto simp: serve_waiter_def Let_def split: option.splits if_splits)

function drive_waiters :: "pure_pool_state \<Rightarrow> pure_pool_state" where
  "drive_waiters s =
     (if closing s then s
      else case waiters s of
        [] \<Rightarrow> s
      | waiter # rest \<Rightarrow>
          (case serve_waiter waiter (s\<lparr>waiters := rest\<rparr>) of
             Some s' \<Rightarrow> drive_waiters s'
           | None \<Rightarrow> s\<lparr>waiters := waiter # rest\<rparr>))"
  by pat_completeness auto
termination
  by (relation "measure (\<lambda>s. length (waiters s))") (auto dest!: serve_waiter_waiters)

declare drive_waiters.simps [simp del]

lemma live_open_slot [simp]: "live_slot_count (open_slot w s) = Suc (live_slot_count s)"
  by (simp add: live_slot_count_def open_slot_def push_history_def emit_def Let_def)

lemma open_slot_same [simp]:
  "min_size (open_slot w s) = min_size s" "max_size (open_slot w s) = max_size s"
  "closing (open_slot w s) = closing s" "next_waiter (open_slot w s) = next_waiter s"
  by (simp_all add: open_slot_def push_history_def emit_def Let_def)

function ensure_min_opening :: "pure_pool_state \<Rightarrow> pure_pool_state" where
  "ensure_min_opening s =
     (if \<not> closing s \<and> live_slot_count s < min_size s then ensure_min_opening (open_slot None s) else s)"
  by pat_completeness auto
termination
  by (relation "measure (\<lambda>s. min_size s - live_slot_count s)") auto

declare ensure_min_opening.simps [simp del]

subsection \<open>The operations\<close>

text \<open>\<open>None\<close> is the panic of \<^verbatim>\<open>assert!(min <= max)\<close>.\<close>

definition new_state :: "nat \<Rightarrow> nat \<Rightarrow> pure_pool_state option" where
  "new_state mn mx =
     (if mn \<le> mx
      then Some (ensure_min_opening
             \<lparr>min_size = mn, max_size = mx, slots = [], waiters = [], effects = [], history = [],
              closing = False, next_slot = 1, next_waiter = 1\<rparr>)
      else None)"

definition request_acquire :: "pure_pool_state \<Rightarrow> waiter_id lifecycle" where
  "request_acquire s =
     (if closing s then (Inl PoolClosed, s)
      else
        let waiter = next_waiter s;
            s = push_history (''acquire waiter='' @ show_nat waiter) (s\<lparr>next_waiter := waiter + 1\<rparr>);
            s = s\<lparr>waiters := waiters s @ [waiter]\<rparr>
        in (Inr waiter, drive_waiters s))"

text \<open>The slot loop of \<^verbatim>\<open>cancel_acquire\<close> stops at the first slot held for the waiter.\<close>

fun state_waiter :: "pool_slot_state \<Rightarrow> waiter_id option" where
  "state_waiter (Opening w) = w"
| "state_waiter (Validating w) = w"
| "state_waiter (CheckedOut w) = Some w"
| "state_waiter _ = None"

definition cancel_acquire :: "waiter_id \<Rightarrow> pure_pool_state \<Rightarrow> unit lifecycle" where
  "cancel_acquire waiter s =
     (let s = push_history (''cancel waiter='' @ show_nat waiter) s;
          s = s\<lparr>waiters := filter (\<lambda>q. q \<noteq> waiter) (waiters s)\<rparr>
      in case position (\<lambda>x. state_waiter (slot_state x) = Some waiter) (slots s) of
           None \<Rightarrow> (Inr (), s)
         | Some ix \<Rightarrow>
             (case slot_state (slots s ! ix) of
                Opening _ \<Rightarrow> (Inr (), set_slot ix (Opening None) s)
              | Validating _ \<Rightarrow> (Inr (), set_slot ix (Validating None) s)
              | CheckedOut _ \<Rightarrow> (Inr (), drive_waiters (release_slot_at ix Graceful s))
              | _ \<Rightarrow> (Inr (), s)))"

definition requeue :: "waiter_id option \<Rightarrow> pure_pool_state \<Rightarrow> pure_pool_state" where
  "requeue waiter s =
     (if \<not> closing s then
        (case waiter of Some w \<Rightarrow> s\<lparr>waiters := w # waiters s\<rparr> | None \<Rightarrow> s)
      else s)"

definition complete_open :: "slot_id \<Rightarrow> bool \<Rightarrow> pure_pool_state \<Rightarrow> unit lifecycle" where
  "complete_open slot healthy s =
     (case slot_index slot s of
        None \<Rightarrow> (Inl (UnknownSlot slot), s)
      | Some ix \<Rightarrow>
          (case slot_state (slots s ! ix) of
             Opening waiter \<Rightarrow>
               (Inr (),
                if healthy then
                  if closing s then
                    push_history (''open slot='' @ show_nat slot @ '' close'')
                      (emit (Close slot Force) (set_slot ix Closing s))
                  else (case waiter of
                      Some w \<Rightarrow>
                        push_history (''open slot='' @ show_nat slot @ '' grant waiter='' @ show_nat w)
                          (set_slot ix (CheckedOut w) s)
                    | None \<Rightarrow>
                        drive_waiters (push_history (''open slot='' @ show_nat slot @ '' idle'') (set_slot ix Idle s)))
                else
                  ensure_min_opening (drive_waiters (requeue waiter
                    (push_history (''open slot='' @ show_nat slot @ '' failed'') (set_slot ix Closed s)))))
           | _ \<Rightarrow> (Inl (invalid_state slot ''complete_open'' s), s)))"

definition complete_ping :: "slot_id \<Rightarrow> bool \<Rightarrow> pure_pool_state \<Rightarrow> unit lifecycle" where
  "complete_ping slot healthy s =
     (case slot_index slot s of
        None \<Rightarrow> (Inl (UnknownSlot slot), s)
      | Some ix \<Rightarrow>
          (case slot_state (slots s ! ix) of
             Validating waiter \<Rightarrow>
               (Inr (),
                if healthy then
                  if closing s then emit (Close slot Force) (set_slot ix Closing s)
                  else (case waiter of
                      Some w \<Rightarrow>
                        push_history (''ping slot='' @ show_nat slot @ '' grant waiter='' @ show_nat w)
                          (set_slot ix (CheckedOut w) s)
                    | None \<Rightarrow>
                        drive_waiters (push_history (''ping slot='' @ show_nat slot @ '' idle'') (set_slot ix Idle s)))
                else
                  push_history (''ping slot='' @ show_nat slot @ '' unhealthy'')
                    (requeue waiter (emit (Close slot Unhealthy) (set_slot ix Retiring s))))
           | _ \<Rightarrow> (Inl (invalid_state slot ''complete_ping'' s), s)))"

definition release :: "slot_id \<Rightarrow> pure_pool_state \<Rightarrow> unit lifecycle" where
  "release slot s =
     (case slot_index slot s of
        None \<Rightarrow> (Inl (UnknownSlot slot), s)
      | Some ix \<Rightarrow>
          (case slot_state (slots s ! ix) of
             CheckedOut _ \<Rightarrow> (Inr (), drive_waiters (release_slot_at ix Graceful s))
           | _ \<Rightarrow> (Inl (invalid_state slot ''release'' s), s)))"

definition reap_idle :: "slot_id \<Rightarrow> pure_pool_state \<Rightarrow> unit lifecycle" where
  "reap_idle slot s =
     (case slot_index slot s of
        None \<Rightarrow> (Inl (UnknownSlot slot), s)
      | Some ix \<Rightarrow>
          (case slot_state (slots s ! ix) of
             Idle \<Rightarrow>
               (Inr (), push_history (''reap slot='' @ show_nat slot)
                  (emit (Close slot Reap) (set_slot ix Retiring s)))
           | _ \<Rightarrow> (Inl (invalid_state slot ''reap_idle'' s), s)))"

definition complete_close :: "slot_id \<Rightarrow> pure_pool_state \<Rightarrow> unit lifecycle" where
  "complete_close slot s =
     (case slot_index slot s of
        None \<Rightarrow> (Inl (UnknownSlot slot), s)
      | Some ix \<Rightarrow>
          if slot_state (slots s ! ix) \<in> {Retiring, Closing}
          then (Inr (), ensure_min_opening (drive_waiters
                 (push_history (''close slot='' @ show_nat slot @ '' done'') (set_slot ix Closed s))))
          else (Inl (invalid_state slot ''complete_close'' s), s))"

definition counts :: "pure_pool_state \<Rightarrow> pool_counts" where
  "counts s =
     (let n = (\<lambda>P. length (filter (\<lambda>x. P (slot_state x)) (slots s)))
      in \<lparr>opening_count = n (\<lambda>t. case t of Opening _ \<Rightarrow> True | _ \<Rightarrow> False),
          idle_count = n (\<lambda>t. t = Idle),
          checked_out_count = n (\<lambda>t. case t of CheckedOut _ \<Rightarrow> True | _ \<Rightarrow> False),
          validating_count = n (\<lambda>t. case t of Validating _ \<Rightarrow> True | _ \<Rightarrow> False),
          retiring_count = n (\<lambda>t. t = Retiring),
          closing_count = n (\<lambda>t. t = Closing),
          closed_count = n (\<lambda>t. t = Closed),
          waiters_count = length (waiters s)\<rparr>)"

text \<open>The slot loop of \<^verbatim>\<open>begin_close\<close>: the new slots and the close effects, in order.\<close>

definition close_slot :: "pool_slot \<Rightarrow> pool_slot" where
  "close_slot x =
     (case slot_state x of
        Idle \<Rightarrow> x\<lparr>slot_state := Closing\<rparr> | CheckedOut _ \<Rightarrow> x\<lparr>slot_state := Closing\<rparr> | _ \<Rightarrow> x)"

definition close_effects :: "bool \<Rightarrow> pool_slot list \<Rightarrow> pool_effect list" where
  "close_effects force xs =
     map (\<lambda>x. Close (slot_no x) (if force then Force else Graceful))
       (filter (\<lambda>x. case slot_state x of Idle \<Rightarrow> True | CheckedOut _ \<Rightarrow> True | _ \<Rightarrow> False) xs)"

definition begin_close :: "bool \<Rightarrow> pure_pool_state \<Rightarrow> unit lifecycle" where
  "begin_close force s =
     (let s = push_history (''begin_close force='' @ (if force then ''true'' else ''false'')) s
      in if \<not> force \<and> (checked_out_count (counts s) > 0 \<or> validating_count (counts s) > 0 \<or>
              opening_count (counts s) > 0 \<or> waiters s \<noteq> [])
         then (Inl Busy, s)
         else
           let s = s\<lparr>closing := True\<rparr>;
               s = (if force then s\<lparr>waiters := []\<rparr> else s)
           in (Inr (), s\<lparr>slots := map close_slot (slots s),
                         effects := effects s @ close_effects force (slots s)\<rparr>))"

definition take_effects :: "pure_pool_state \<Rightarrow> pool_effect list \<times> pure_pool_state" where
  "take_effects s = (effects s, s\<lparr>effects := []\<rparr>)"

end
