(* ===== verification/Pool_Invariant.thy ===== *)
theory Pool_Invariant
  imports Pool_Lifecycle
begin

text \<open>
  The invariant of the pool lifecycle machine: the size bounds, the uniqueness of slots and of
  waiters, the shape of a closing pool, and why a queued waiter is still waiting. Every operation
  keeps it, so every reachable state has it.
\<close>

subsection \<open>Frame facts of the primitive updates\<close>

lemma slots_simps [simp]:
  "slots (push_history m s) = slots s" "slots (emit e s) = slots s"
  "slots (set_slot ix st s) = (slots s)[ix := (slots s ! ix)\<lparr>slot_state := st\<rparr>]"
  "slots (open_slot w s) = slots s @ [\<lparr>slot_no = next_slot s, slot_state = Opening w\<rparr>]"
  by (simp_all add: push_history_def emit_def set_slot_def open_slot_def Let_def)

lemma frame_simps [simp]:
  "min_size (push_history m s) = min_size s" "min_size (emit e s) = min_size s" "min_size (set_slot ix st s) = min_size s"
  "max_size (push_history m s) = max_size s" "max_size (emit e s) = max_size s" "max_size (set_slot ix st s) = max_size s"
  "closing (push_history m s) = closing s" "closing (emit e s) = closing s" "closing (set_slot ix st s) = closing s"
  "next_slot (push_history m s) = next_slot s" "next_slot (emit e s) = next_slot s" "next_slot (set_slot ix st s) = next_slot s"
  "next_slot (open_slot w s) = Suc (next_slot s)"
  "next_waiter (push_history m s) = next_waiter s" "next_waiter (emit e s) = next_waiter s" "next_waiter (set_slot ix st s) = next_waiter s"
  by (simp_all add: push_history_def emit_def set_slot_def open_slot_def Let_def)

subsection \<open>The invariant\<close>

definition holds :: "pure_pool_state \<Rightarrow> waiter_id \<Rightarrow> nat" where
  "holds s w = count_list (waiters s) w +
     length (filter (\<lambda>x. state_waiter (slot_state x) = Some w) (slots s))"

definition slots_wf :: "pure_pool_state \<Rightarrow> bool" where
  "slots_wf s \<longleftrightarrow> distinct (map slot_no (slots s)) \<and> (\<forall>x\<in>set (slots s). slot_no x < next_slot s)"

definition waiters_wf :: "pure_pool_state \<Rightarrow> bool" where
  "waiters_wf s \<longleftrightarrow> (\<forall>w. holds s w \<le> 1 \<and> (0 < holds s w \<longrightarrow> w < next_waiter s))"

definition closing_wf :: "pure_pool_state \<Rightarrow> bool" where
  "closing_wf s \<longleftrightarrow> (closing s \<longrightarrow> waiters s = [] \<and>
     (\<forall>x\<in>set (slots s). slot_state x \<noteq> Idle \<and> (\<forall>w. slot_state x \<noteq> CheckedOut w)))"

definition core :: "pure_pool_state \<Rightarrow> bool" where
  "core s \<longleftrightarrow> min_size s \<le> max_size s \<and> live_slot_count s \<le> max_size s \<and> slots_wf s \<and>
     waiters_wf s \<and> closing_wf s"

lemma core_push_history [simp]: "core (push_history m s) = core s"
  by (simp add: core_def live_slot_count_def slots_wf_def waiters_wf_def closing_wf_def holds_def)

lemma core_emit [simp]: "core (emit e s) = core s"
  by (simp add: core_def live_slot_count_def slots_wf_def waiters_wf_def closing_wf_def holds_def)

lemma live_simps [simp]:
  "live_slot_count (push_history m s) = live_slot_count s" "live_slot_count (emit e s) = live_slot_count s"
  "live_slot_count (s\<lparr>waiters := ws\<rparr>) = live_slot_count s"
  by (simp_all add: live_slot_count_def)

lemma live_set_slot:
  assumes "ix < length (slots s)" "slot_state (slots s ! ix) \<noteq> Closed"
  shows "live_slot_count (set_slot ix st s) = (if st = Closed then live_slot_count s - 1 else live_slot_count s)"
  using length_filter_update [of ix "slots s" "\<lambda>x. slot_state x \<noteq> Closed" "(slots s ! ix)\<lparr>slot_state := st\<rparr>"] assms
  by (auto simp: live_slot_count_def)

lemma holds_set_slot:
  assumes "ix < length (slots s)"
  shows "holds (set_slot ix st s) w + (if state_waiter (slot_state (slots s ! ix)) = Some w then 1 else 0) =
    holds s w + (if state_waiter st = Some w then 1 else 0)"
  using length_filter_update [of ix "slots s" "\<lambda>x. state_waiter (slot_state x) = Some w" "(slots s ! ix)\<lparr>slot_state := st\<rparr>"] assms
  by (auto simp: holds_def)

lemma slots_wf_set_slot: "slots_wf s \<Longrightarrow> ix < length (slots s) \<Longrightarrow> slots_wf (set_slot ix st s)"
proof -
  assume wf: "slots_wf s" and ix: "ix < length (slots s)"
  have "map slot_no ((slots s)[ix := (slots s ! ix)\<lparr>slot_state := st\<rparr>]) = map slot_no (slots s)"
    using ix by (simp add: map_update list_update_same_conv)
  then show ?thesis using wf ix
    by (auto simp: slots_wf_def dest!: subsetD [OF set_update_subset_insert])
qed

lemma waiters_wf_mono:
  assumes "waiters_wf s" "\<And>w. holds s' w \<le> holds s w" "next_waiter s' = next_waiter s"
  shows "waiters_wf s'"
  unfolding waiters_wf_def assms(3)
proof (intro allI conjI impI)
  fix w
  show "holds s' w \<le> 1" using assms(1) assms(2) [of w] by (auto simp: waiters_wf_def intro: le_trans)
  assume "0 < holds s' w"
  then have "0 < holds s w" using assms(2) [of w] by linarith
  then show "w < next_waiter s" using assms(1) by (simp add: waiters_wf_def)
qed

lemma set_slots_cases:
  "x \<in> set (slots (set_slot ix st s)) \<Longrightarrow>
   x \<in> set (slots s) \<or> slot_state x = st"
  by (auto dest!: subsetD [OF set_update_subset_insert])

lemma closing_wf_set_slot:
  assumes "closing_wf s" "closing s \<longrightarrow> st \<noteq> Idle \<and> (\<forall>w. st \<noteq> CheckedOut w)"
  shows "closing_wf (set_slot ix st s)"
  unfolding closing_wf_def
proof (intro impI conjI ballI)
  assume c: "closing (set_slot ix st s)"
  then show "waiters (set_slot ix st s) = []" using assms(1) by (simp add: closing_wf_def)
  fix x assume "x \<in> set (slots (set_slot ix st s))"
  then have "x \<in> set (slots s) \<or> slot_state x = st" using set_slots_cases by blast
  then show "slot_state x \<noteq> Idle" "\<forall>w. slot_state x \<noteq> CheckedOut w"
    using assms c by (auto simp: closing_wf_def)
qed

lemma holds_set_slot_le:
  assumes "ix < length (slots s)"
    and "state_waiter st = None \<or> state_waiter st = state_waiter (slot_state (slots s ! ix))"
  shows "holds (set_slot ix st s) w \<le> holds s w"
  using holds_set_slot [OF assms(1), of st w] assms(2) by (elim disjE) simp_all

lemma core_set_slot:
  assumes "core s" "ix < length (slots s)" "slot_state (slots s ! ix) \<noteq> Closed"
    and "state_waiter st = None \<or> state_waiter st = state_waiter (slot_state (slots s ! ix))"
    and "closing s \<longrightarrow> st \<noteq> Idle \<and> (\<forall>w. st \<noteq> CheckedOut w)"
  shows "core (set_slot ix st s)"
proof -
  have "waiters_wf (set_slot ix st s)"
    by (rule waiters_wf_mono [of s, OF _ holds_set_slot_le [OF assms(2,4)]])
       (use assms(1) in \<open>simp_all add: core_def\<close>)
  moreover have "closing_wf (set_slot ix st s)"
    using assms(1,5) by (intro closing_wf_set_slot) (simp_all add: core_def)
  moreover have "live_slot_count (set_slot ix st s) \<le> live_slot_count s"
    by (simp add: live_set_slot [OF assms(2,3)])
  ultimately show ?thesis
    using assms(1) slots_wf_set_slot [OF _ assms(2), of st] by (simp add: core_def)
qed


lemma core_open_slot:
  assumes "core s" "\<not> closing s" "live_slot_count s < max_size s" "holds s w = 0" "w < next_waiter s"
  shows "core (open_slot (Some w) s)" "holds (open_slot (Some w) s) v = holds s v + (if v = w then 1 else 0)"
proof -
  show h: "holds (open_slot (Some w) s) v = holds s v + (if v = w then 1 else 0)" for v
    by (simp add: holds_def)
  show "core (open_slot (Some w) s)"
    using assms h by (auto simp: core_def slots_wf_def waiters_wf_def closing_wf_def less_Suc_eq)
qed

lemma core_open_slot_None:
  assumes "core s" "\<not> closing s" "live_slot_count s < max_size s"
  shows "core (open_slot None s)"
proof -
  have "holds (open_slot None s) v = holds s v" for v by (simp add: holds_def)
  then show ?thesis
    using assms by (auto simp: core_def slots_wf_def waiters_wf_def closing_wf_def less_Suc_eq)
qed

lemma holds_pop:
  "waiters s = w # rest \<Longrightarrow> holds s v = holds (s\<lparr>waiters := rest\<rparr>) v + (if v = w then 1 else 0)"
  by (auto simp: holds_def)

lemma core_pop:
  assumes "core s" "\<not> closing s" "waiters s = w # rest"
  shows "core (s\<lparr>waiters := rest\<rparr>)" "holds (s\<lparr>waiters := rest\<rparr>) w = 0" "w < next_waiter s"
proof -
  have h: "holds (s\<lparr>waiters := rest\<rparr>) v \<le> holds s v" for v using holds_pop [OF assms(3), of v] by simp
  have "waiters_wf (s\<lparr>waiters := rest\<rparr>)"
    by (rule waiters_wf_mono [OF _ h]) (use assms in \<open>simp_all add: core_def\<close>)
  then show "core (s\<lparr>waiters := rest\<rparr>)"
    using assms by (simp add: core_def slots_wf_def closing_wf_def)
  have "holds s w \<le> 1" "0 < holds s w \<longrightarrow> w < next_waiter s"
    using assms by (simp_all add: core_def waiters_wf_def)
  then show "holds (s\<lparr>waiters := rest\<rparr>) w = 0" "w < next_waiter s"
    using holds_pop [OF assms(3), of w] by simp_all
qed

lemma serve_waiter_core:
  assumes "core s" "\<not> closing s" "holds s w = 0" "w < next_waiter s" "serve_waiter w s = Some s'"
  shows "core s' \<and> (\<forall>v. holds s' v = holds s v + (if v = w then 1 else 0)) \<and>
    closing s' = closing s \<and> min_size s' = min_size s \<and> max_size s' = max_size s \<and>
    next_waiter s' = next_waiter s \<and> live_slot_count s \<le> live_slot_count s'"
proof (cases "position (\<lambda>x. slot_state x = Idle) (slots s)")
  case None
  with assms(5) have "live_slot_count s < max_size s" "s' = open_slot (Some w) s"
    by (auto simp: serve_waiter_def split: if_splits)
  with core_open_slot [OF assms(1,2) _ assms(3,4)] show ?thesis by simp
next
  case (Some ix)
  then have ix: "ix < length (slots s)" "slot_state (slots s ! ix) = Idle" by (auto dest: position_SomeD)
  let ?t = "set_slot ix (Validating (Some w)) s"
  have h: "holds ?t v = holds s v + (if v = w then 1 else 0)" for v
    using holds_set_slot [OF ix(1), of "Validating (Some w)" v] ix(2) by auto
  have "waiters_wf ?t"
    unfolding waiters_wf_def h using assms by (auto simp: core_def waiters_wf_def)
  moreover have "closing_wf ?t" by (rule closing_wf_set_slot) (use assms in \<open>auto simp: core_def\<close>)
  moreover have "live_slot_count ?t = live_slot_count s" using live_set_slot [OF ix(1)] ix(2) by simp
  ultimately have "core ?t" using assms(1) slots_wf_set_slot [OF _ ix(1)] by (simp add: core_def)
  moreover have "\<exists>m e. s' = push_history m (emit e ?t)"
    using assms(5) Some by (auto simp: serve_waiter_def Let_def)
  ultimately show ?thesis using h \<open>live_slot_count ?t = live_slot_count s\<close>
    by (auto simp: holds_def)
qed


text \<open>What the driving loops keep of a state, and when the waiters of a state are served.\<close>

definition grown :: "pure_pool_state \<Rightarrow> pure_pool_state \<Rightarrow> bool" where
  "grown s s' \<longleftrightarrow> closing s' = closing s \<and> min_size s' = min_size s \<and> max_size s' = max_size s \<and>
     next_waiter s' = next_waiter s \<and> live_slot_count s \<le> live_slot_count s' \<and>
     (\<forall>v. holds s' v = holds s v)"

lemma grown_trans: "grown s t \<Longrightarrow> grown t u \<Longrightarrow> grown s u"
  by (auto simp: grown_def)

lemma grown_refl [simp]: "grown s s"
  by (simp add: grown_def)

definition served :: "pure_pool_state \<Rightarrow> bool" where
  "served s \<longleftrightarrow> (\<not> closing s \<longrightarrow> waiters s = [] \<or>
     (\<forall>x\<in>set (slots s). slot_state x \<noteq> Idle) \<and> live_slot_count s = max_size s)"

lemma drive_waiters_core: "core s \<Longrightarrow> core (drive_waiters s) \<and> grown s (drive_waiters s) \<and> served (drive_waiters s)"
proof (induction s rule: drive_waiters.induct)
  case (1 s)
  consider "closing s" | "\<not> closing s" "waiters s = []"
    | w rest where "\<not> closing s" "waiters s = w # rest" by (cases "waiters s") auto
  then show ?case
  proof cases
    case 3
    let ?p = "s\<lparr>waiters := rest\<rparr>"
    note pop = core_pop [OF "1.prems" 3]
    show ?thesis
    proof (cases "serve_waiter w ?p")
      case None
      then have "drive_waiters s = s" using 3 by (simp add: drive_waiters.simps [of s])
      moreover have "served s"
        using None "1.prems" 3
        by (auto simp: served_def serve_waiter_def core_def Let_def position_None split: option.splits if_splits)
      ultimately show ?thesis using "1.prems" by simp
    next
      case (Some t)
      have t: "core t" "\<forall>v. holds t v = holds s v" "closing t = closing s" "min_size t = min_size s"
          "max_size t = max_size s" "next_waiter t = next_waiter s" "live_slot_count s \<le> live_slot_count t"
        using serve_waiter_core [OF pop(1) _ pop(2) _ Some] pop(3) 3 holds_pop [OF 3(2)] by auto
      have "drive_waiters s = drive_waiters t" using 3 Some by (simp add: drive_waiters.simps [of s])
      moreover have "grown s t" using t by (simp add: grown_def)
      ultimately show ?thesis using "1.IH" [OF 3 Some t(1)] grown_trans by auto
    qed
  qed (use "1.prems" in \<open>simp_all add: drive_waiters.simps [of s] served_def\<close>)
qed

lemma ensure_min_core:
  "core s \<Longrightarrow> served s \<Longrightarrow> core (ensure_min_opening s) \<and> grown s (ensure_min_opening s) \<and>
    served (ensure_min_opening s) \<and>
    (\<not> closing s \<longrightarrow> min_size s \<le> live_slot_count (ensure_min_opening s))"
proof (induction s rule: ensure_min_opening.induct)
  case (1 s)
  show ?case
  proof (cases "\<not> closing s \<and> live_slot_count s < min_size s")
    case True
    then have lt: "live_slot_count s < max_size s" using "1.prems" by (simp add: core_def)
    have "core (open_slot None s)" using core_open_slot_None "1.prems" True lt by blast
    moreover have "served (open_slot None s)" using "1.prems" True lt by (auto simp: served_def)
    moreover have "grown s (open_slot None s)" by (simp add: grown_def holds_def)
    ultimately show ?thesis
      using "1.IH" True grown_trans [of s "open_slot None s"]
      by (simp add: ensure_min_opening.simps [of s] grown_def)
  next
    case False
    then show ?thesis using "1.prems" by (auto simp: ensure_min_opening.simps [of s])
  qed
qed


definition pool_inv :: "pure_pool_state \<Rightarrow> bool" where
  "pool_inv s \<longleftrightarrow> core s \<and> (\<not> closing s \<longrightarrow> min_size s \<le> live_slot_count s) \<and>
     (served s \<or> (\<exists>x\<in>set (slots s). slot_state x = Retiring))"

lemma pool_inv_push_history [simp]: "pool_inv (push_history m s) = pool_inv s"
  by (simp add: pool_inv_def served_def)

lemma pool_inv_emit [simp]: "pool_inv (emit e s) = pool_inv s"
  by (simp add: pool_inv_def served_def)

lemma pool_inv_drive:
  "core s \<Longrightarrow> \<not> closing s \<longrightarrow> min_size s \<le> live_slot_count s \<Longrightarrow> pool_inv (drive_waiters s)"
  using drive_waiters_core [of s] by (auto simp: pool_inv_def grown_def)

lemma pool_inv_drive_ensure: "core s \<Longrightarrow> pool_inv (ensure_min_opening (drive_waiters s))"
  using drive_waiters_core [of s] ensure_min_core [of "drive_waiters s"]
  by (auto simp: pool_inv_def grown_def)

lemma pool_inv_set_slot:
  assumes "pool_inv s" "ix < length (slots s)" "slot_state (slots s ! ix) \<noteq> Closed"
    "slot_state (slots s ! ix) \<noteq> Retiring" "st \<noteq> Closed" "st \<noteq> Idle"
    and "state_waiter st = None \<or> state_waiter st = state_waiter (slot_state (slots s ! ix))"
    and "closing s \<longrightarrow> (\<forall>w. st \<noteq> CheckedOut w)"
  shows "pool_inv (set_slot ix st s)"
proof -
  have l: "live_slot_count (set_slot ix st s) = live_slot_count s"
    using live_set_slot [OF assms(2,3), of st] assms(5) by simp
  have "core (set_slot ix st s)"
    using assms by (intro core_set_slot) (auto simp: pool_inv_def)
  moreover have "served (set_slot ix st s)" if "served s"
    using that assms(6) l set_slots_cases [of _ ix st s] by (fastforce simp: served_def)
  moreover have "\<exists>x\<in>set (slots (set_slot ix st s)). slot_state x = Retiring"
    if r: "x \<in> set (slots s)" "slot_state x = Retiring" for x
  proof -
    obtain j where "j < length (slots s)" "x = slots s ! j" using r(1) by (auto simp: in_set_conv_nth)
    moreover from this have "j \<noteq> ix" using assms(4) r(2) by auto
    ultimately have "x \<in> set (slots (set_slot ix st s))"
      by (auto simp: in_set_conv_nth intro!: exI [of _ j])
    then show ?thesis using r(2) by blast
  qed
  ultimately show ?thesis using assms(1) l by (auto simp: pool_inv_def)
qed

lemma holds_requeue:
  "holds (requeue wo s) v = holds s v + (if \<not> closing s \<and> wo = Some v then 1 else 0)"
  by (auto simp: requeue_def holds_def split: option.splits)

lemma requeue_simps [simp]:
  "slots (requeue wo s) = slots s" "closing (requeue wo s) = closing s"
  "min_size (requeue wo s) = min_size s" "max_size (requeue wo s) = max_size s"
  "next_waiter (requeue wo s) = next_waiter s" "next_slot (requeue wo s) = next_slot s"
  "live_slot_count (requeue wo s) = live_slot_count s"
  "closing s \<Longrightarrow> requeue wo s = s"
  by (auto simp: requeue_def split: option.splits)

lemma core_requeue:
  assumes "core s" "ix < length (slots s)" "slot_state (slots s ! ix) \<noteq> Closed"
    and "state_waiter (slot_state (slots s ! ix)) = wo" "st = Closed \<or> st = Retiring"
    and t: "slots t = slots (set_slot ix st s)" "waiters t = waiters s" "closing t = closing s"
      "min_size t = min_size s" "max_size t = max_size s" "next_slot t = next_slot s" "next_waiter t = next_waiter s"
  shows "core (requeue wo t)"
proof -
  let ?t = "set_slot ix st s"
  have c: "core ?t" using assms(1-5) by (intro core_set_slot) auto
  have ht: "holds t v = holds ?t v" for v by (simp add: holds_def t)
  have "holds (requeue wo t) v \<le> holds s v" for v
    using holds_set_slot [OF assms(2), of st v] assms(4,5) by (auto simp: holds_requeue ht split: if_splits)
  then have "waiters_wf (requeue wo t)"
    by (rule waiters_wf_mono [rotated]) (use assms(1) t in \<open>simp_all add: core_def\<close>)
  moreover have "closing_wf (requeue wo t)"
    using c t by (auto simp: core_def closing_wf_def)
  moreover have "live_slot_count t = live_slot_count ?t" by (simp add: live_slot_count_def t)
  moreover have "slots_wf (requeue wo t)" using c t by (simp add: core_def slots_wf_def)
  ultimately show ?thesis using c t by (simp add: core_def)
qed


subsection \<open>Every operation keeps the invariant\<close>

lemma slot_indexD: "slot_index slot s = Some ix \<Longrightarrow> ix < length (slots s) \<and> slot_no (slots s ! ix) = slot"
  by (auto simp: slot_index_def dest: position_SomeD)

lemma new_state_inv: "new_state mn mx = Some s \<Longrightarrow> pool_inv s"
proof -
  assume n: "new_state mn mx = Some s"
  let ?z = "\<lparr>min_size = mn, max_size = mx, slots = [], waiters = [], effects = [], history = [],
              closing = False, next_slot = 1, next_waiter = 1\<rparr>"
  have "mn \<le> mx" "s = ensure_min_opening ?z" using n by (auto simp: new_state_def split: if_splits)
  moreover from this have "core ?z" "served ?z"
    by (simp_all add: core_def live_slot_count_def slots_wf_def waiters_wf_def closing_wf_def holds_def served_def)
  ultimately show ?thesis using ensure_min_core [of ?z] by (auto simp: pool_inv_def grown_def)
qed

definition enqueued :: "pure_pool_state \<Rightarrow> pure_pool_state" where
  "enqueued s = (push_history (''acquire waiter='' @ show_nat (next_waiter s))
     (s\<lparr>next_waiter := next_waiter s + 1\<rparr>))\<lparr>waiters := waiters s @ [next_waiter s]\<rparr>"

lemma request_acquire_eq:
  "request_acquire s =
     (if closing s then (Inl PoolClosed, s) else (Inr (next_waiter s), drive_waiters (enqueued s)))"
  by (simp add: request_acquire_def enqueued_def Let_def push_history_def)

lemma enqueued_simps [simp]:
  "slots (enqueued s) = slots s" "closing (enqueued s) = closing s" "min_size (enqueued s) = min_size s"
  "max_size (enqueued s) = max_size s" "next_slot (enqueued s) = next_slot s"
  "next_waiter (enqueued s) = Suc (next_waiter s)" "waiters (enqueued s) = waiters s @ [next_waiter s]"
  "live_slot_count (enqueued s) = live_slot_count s"
  by (simp_all add: enqueued_def push_history_def live_slot_count_def)

lemma holds_enqueued: "holds (enqueued s) v = holds s v + (if v = next_waiter s then 1 else 0)"
  by (simp add: holds_def)

lemma enqueued_core:
  assumes "core s" "\<not> closing s"
  shows "core (enqueued s)"
proof -
  have "holds s (next_waiter s) = 0"
    using assms by (auto simp: core_def waiters_wf_def)
  then have "waiters_wf (enqueued s)"
    using assms by (auto simp: core_def waiters_wf_def holds_enqueued less_Suc_eq)
  then show ?thesis using assms by (simp add: core_def slots_wf_def closing_wf_def)
qed

lemma request_acquire_inv: "pool_inv s \<Longrightarrow> pool_inv (snd (request_acquire s))"
  using enqueued_core [of s] pool_inv_drive [of "enqueued s"]
  by (simp add: request_acquire_eq) (simp add: pool_inv_def)

lemma release_slot_at_core:
  assumes "core s" "ix < length (slots s)" "slot_state (slots s ! ix) = CheckedOut w"
  shows "core (release_slot_at ix r s)" "live_slot_count (release_slot_at ix r s) = live_slot_count s"
    "closing (release_slot_at ix r s) = closing s" "min_size (release_slot_at ix r s) = min_size s"
    "waiters (release_slot_at ix r s) = waiters s"
    "holds (release_slot_at ix r s) v = holds s v - (if v = w then 1 else 0)"
    "next_waiter (release_slot_at ix r s) = next_waiter s"
proof -
  have "core (set_slot ix (if closing s then Closing else Idle) s)"
    using assms by (intro core_set_slot) auto
  then show "core (release_slot_at ix r s)" by (simp add: release_slot_at_def Let_def split: if_splits)
  show "live_slot_count (release_slot_at ix r s) = live_slot_count s"
    using live_set_slot [OF assms(2)] assms(3) by (simp add: release_slot_at_def Let_def)
  have "holds (release_slot_at ix r s) v = holds (set_slot ix (if closing s then Closing else Idle) s) v"
    by (simp add: release_slot_at_def Let_def holds_def)
  then show "holds (release_slot_at ix r s) v = holds s v - (if v = w then 1 else 0)"
    using holds_set_slot [OF assms(2), of "if closing s then Closing else Idle" v] assms(3)
    by (auto split: if_splits)
qed (simp_all add: release_slot_at_def Let_def)

lemma release_at_inv:
  assumes "pool_inv s" "ix < length (slots s)" "slot_state (slots s ! ix) = CheckedOut w"
  shows "pool_inv (drive_waiters (release_slot_at ix r s))"
  using assms by (intro pool_inv_drive) (simp_all add: pool_inv_def release_slot_at_core)

definition drop_waiter :: "waiter_id \<Rightarrow> pure_pool_state \<Rightarrow> pure_pool_state" where
  "drop_waiter w s = (push_history (''cancel waiter='' @ show_nat w) s)
     \<lparr>waiters := filter (\<lambda>q. q \<noteq> w) (waiters s)\<rparr>"

lemma drop_waiter_simps [simp]:
  "slots (drop_waiter w s) = slots s" "closing (drop_waiter w s) = closing s"
  "min_size (drop_waiter w s) = min_size s" "max_size (drop_waiter w s) = max_size s"
  "next_waiter (drop_waiter w s) = next_waiter s" "next_slot (drop_waiter w s) = next_slot s"
  "waiters (drop_waiter w s) = filter (\<lambda>q. q \<noteq> w) (waiters s)"
  "live_slot_count (drop_waiter w s) = live_slot_count s"
  by (simp_all add: drop_waiter_def push_history_def live_slot_count_def)

lemma count_list_filter: "count_list (filter P xs) v = (if P v then count_list xs v else 0)"
  by (induction xs) auto

lemma drop_waiter_inv:
  assumes "pool_inv s"
  shows "pool_inv (drop_waiter w s)"
proof -
  have "holds (drop_waiter w s) v \<le> holds s v" for v by (simp add: holds_def count_list_filter)
  then have "waiters_wf (drop_waiter w s)"
    by (rule waiters_wf_mono [rotated]) (use assms in \<open>simp_all add: pool_inv_def core_def\<close>)
  then show ?thesis
    using assms by (auto simp: pool_inv_def core_def slots_wf_def closing_wf_def served_def)
qed

lemma cancel_acquire_eq:
  "cancel_acquire w s = (Inr (),
     case position (\<lambda>x. state_waiter (slot_state x) = Some w) (slots s) of
       None \<Rightarrow> drop_waiter w s
     | Some ix \<Rightarrow>
         (case slot_state (slots s ! ix) of
            Opening _ \<Rightarrow> set_slot ix (Opening None) (drop_waiter w s)
          | Validating _ \<Rightarrow> set_slot ix (Validating None) (drop_waiter w s)
          | CheckedOut _ \<Rightarrow> drive_waiters (release_slot_at ix Graceful (drop_waiter w s))
          | _ \<Rightarrow> drop_waiter w s))"
  by (simp add: cancel_acquire_def drop_waiter_def Let_def split: option.splits pool_slot_state.splits)

lemma cancel_acquire_inv:
  assumes "pool_inv s"
  shows "pool_inv (snd (cancel_acquire w s))"
proof (cases "position (\<lambda>x. state_waiter (slot_state x) = Some w) (slots s)")
  case None
  then show ?thesis using drop_waiter_inv [OF assms] by (simp add: cancel_acquire_eq)
next
  case (Some ix)
  then have ix: "ix < length (slots s)" by (simp add: position_Some)
  have d: "pool_inv (drop_waiter w s)" using drop_waiter_inv [OF assms] .
  show ?thesis
    using Some ix d
    by (cases "slot_state (slots s ! ix)")
       (auto simp: cancel_acquire_eq intro!: pool_inv_set_slot release_at_inv)
qed

lemma complete_open_inv:
  assumes "pool_inv s"
  shows "pool_inv (snd (complete_open slot healthy s))"
proof (cases "slot_index slot s")
  case (Some ix)
  then have ix: "ix < length (slots s)" by (simp add: slot_indexD)
  show ?thesis
  proof (cases "slot_state (slots s ! ix)")
    case (Opening wo)
    have idle: "pool_inv (drive_waiters (push_history m (set_slot ix Idle s)))" if "\<not> closing s" for m
      using that assms ix Opening live_set_slot [OF ix, of Idle]
      by (intro pool_inv_drive) (auto simp: pool_inv_def intro!: core_set_slot)
    have fail: "pool_inv (ensure_min_opening (drive_waiters (requeue wo (push_history m (set_slot ix Closed s)))))" for m
      using assms ix Opening
      by (intro pool_inv_drive_ensure core_requeue [of s ix _ Closed]) (auto simp: pool_inv_def)
    show ?thesis
      using Some ix Opening assms idle fail
      by (auto simp: complete_open_def intro!: pool_inv_set_slot split: option.splits)
  qed (use Some assms in \<open>simp_all add: complete_open_def\<close>)
qed (use assms in \<open>simp add: complete_open_def\<close>)


lemma complete_ping_inv:
  assumes "pool_inv s"
  shows "pool_inv (snd (complete_ping slot healthy s))"
proof (cases "slot_index slot s")
  case (Some ix)
  then have ix: "ix < length (slots s)" by (simp add: slot_indexD)
  show ?thesis
  proof (cases "slot_state (slots s ! ix)")
    case (Validating wo)
    have idle: "pool_inv (drive_waiters (push_history m (set_slot ix Idle s)))" if "\<not> closing s" for m
      using that assms ix Validating live_set_slot [OF ix, of Idle]
      by (intro pool_inv_drive) (auto simp: pool_inv_def intro!: core_set_slot)
    have fail: "pool_inv (push_history m (requeue wo (emit e (set_slot ix Retiring s))))" for m e
    proof -
      have "core (requeue wo (emit e (set_slot ix Retiring s)))"
        using assms ix Validating by (intro core_requeue [of s ix _ Retiring]) (auto simp: pool_inv_def)
      moreover have "(slots s ! ix)\<lparr>slot_state := Retiring\<rparr> \<in> set (slots (set_slot ix Retiring s))"
        using ix by (simp add: set_update_memI)
      then have "\<exists>x\<in>set (slots (set_slot ix Retiring s)). slot_state x = Retiring"
        by (rule rev_bexI) simp
      ultimately show ?thesis
        using assms live_set_slot [OF ix, of Retiring] Validating by (simp add: pool_inv_def)
    qed
    show ?thesis
      using Some ix Validating assms idle fail
      by (auto simp: complete_ping_def intro!: pool_inv_set_slot split: option.splits)
  qed (use Some assms in \<open>simp_all add: complete_ping_def\<close>)
qed (use assms in \<open>simp add: complete_ping_def\<close>)

lemma release_inv:
  assumes "pool_inv s"
  shows "pool_inv (snd (release slot s))"
proof (cases "slot_index slot s")
  case (Some ix)
  then show ?thesis
    using assms release_at_inv [OF assms conjunct1 [OF slot_indexD [OF Some]]]
    by (cases "slot_state (slots s ! ix)") (simp_all add: release_def)
qed (use assms in \<open>simp add: release_def\<close>)

lemma reap_idle_inv:
  assumes "pool_inv s"
  shows "pool_inv (snd (reap_idle slot s))"
proof (cases "slot_index slot s")
  case (Some ix)
  then show ?thesis
    using assms pool_inv_set_slot [OF assms conjunct1 [OF slot_indexD [OF Some]], of Retiring]
    by (cases "slot_state (slots s ! ix)") (simp_all add: reap_idle_def)
qed (use assms in \<open>simp add: reap_idle_def\<close>)

lemma complete_close_inv:
  assumes "pool_inv s"
  shows "pool_inv (snd (complete_close slot s))"
proof (cases "slot_index slot s")
  case (Some ix)
  then have ix: "ix < length (slots s)" by (simp add: slot_indexD)
  have "pool_inv (ensure_min_opening (drive_waiters (push_history m (set_slot ix Closed s))))"
    if "slot_state (slots s ! ix) = Retiring \<or> slot_state (slots s ! ix) = Closing" for m
    using that assms ix by (intro pool_inv_drive_ensure) (auto simp: pool_inv_def intro!: core_set_slot)
  then show ?thesis using Some assms by (auto simp: complete_close_def)
qed (use assms in \<open>simp add: complete_close_def\<close>)

lemma close_slot_facts [simp]:
  "slot_no (close_slot x) = slot_no x" "(slot_state (close_slot x) = Closed) = (slot_state x = Closed)"
  "slot_state (close_slot x) \<noteq> Idle" "slot_state (close_slot x) \<noteq> CheckedOut w"
  by (auto simp: close_slot_def split: pool_slot_state.splits)

lemma close_slot_waiter:
  "state_waiter (slot_state (close_slot x)) = Some w \<Longrightarrow> state_waiter (slot_state x) = Some w"
  by (auto simp: close_slot_def split: pool_slot_state.splits)

lemma length_filter_map_le:
  "(\<And>x. P (f x) \<Longrightarrow> Q x) \<Longrightarrow> length (filter P (map f xs)) \<le> length (filter Q xs)"
  by (induction xs) (auto intro: le_SucI)

lemma begin_close_inv:
  assumes "pool_inv s"
  shows "pool_inv (snd (begin_close force s))"
proof (cases "fst (begin_close force s)")
  case (Inl e)
  then show ?thesis using assms by (auto simp: begin_close_def Let_def split: if_splits)
next
  case (Inr u)
  let ?t = "snd (begin_close force s)"
  have t: "slots ?t = map close_slot (slots s)" "waiters ?t = []" "closing ?t"
      "min_size ?t = min_size s" "max_size ?t = max_size s" "next_slot ?t = next_slot s"
      "next_waiter ?t = next_waiter s"
    using Inr by (auto simp: begin_close_def Let_def split: if_splits)
  have "holds ?t v \<le> holds s v" for v
    unfolding holds_def t by (rule add_mono, simp, rule length_filter_map_le, erule close_slot_waiter)
  then have "waiters_wf ?t"
    by (rule waiters_wf_mono [rotated]) (use assms t in \<open>simp_all add: pool_inv_def core_def\<close>)
  moreover have "live_slot_count ?t \<le> live_slot_count s"
    unfolding live_slot_count_def t by (rule length_filter_map_le) simp
  moreover have "slots_wf ?t" "closing_wf ?t"
    using assms t by (auto simp: pool_inv_def core_def slots_wf_def closing_wf_def comp_def)
  ultimately have "core ?t" using assms t by (auto simp: pool_inv_def core_def)
  then show ?thesis using t by (simp add: pool_inv_def served_def)
qed

lemma take_effects_inv: "pool_inv s \<Longrightarrow> pool_inv (snd (take_effects s))"
  by (simp add: take_effects_def pool_inv_def core_def live_slot_count_def slots_wf_def waiters_wf_def
      closing_wf_def holds_def served_def)

subsection \<open>The machine\<close>

definition lifecycle_init :: "pure_pool_state \<Rightarrow> bool" where
  "lifecycle_init s \<longleftrightarrow> (\<exists>mn mx. new_state mn mx = Some s)"

inductive lifecycle_step :: "pure_pool_state \<Rightarrow> pure_pool_state \<Rightarrow> bool" where
  "lifecycle_step s (snd (request_acquire s))"
| "lifecycle_step s (snd (cancel_acquire w s))"
| "lifecycle_step s (snd (complete_open slot healthy s))"
| "lifecycle_step s (snd (complete_ping slot healthy s))"
| "lifecycle_step s (snd (release slot s))"
| "lifecycle_step s (snd (reap_idle slot s))"
| "lifecycle_step s (snd (complete_close slot s))"
| "lifecycle_step s (snd (begin_close force s))"
| "lifecycle_step s (snd (take_effects s))"

lemmas lifecycle_invs =
  request_acquire_inv cancel_acquire_inv complete_open_inv complete_ping_inv release_inv
  reap_idle_inv complete_close_inv begin_close_inv take_effects_inv

interpretation lifecycle: state_machine lifecycle_init lifecycle_step pool_inv
proof
  show "pool_inv s" if "lifecycle_init s" for s using that new_state_inv by (auto simp: lifecycle_init_def)
  show "pool_inv s'" if "pool_inv s" "lifecycle_step s s'" for s s'
    using that(2,1) by (cases rule: lifecycle_step.cases) (auto intro: lifecycle_invs)
qed

end
