(* ===== verification/Pool_Properties.thy ===== *)
theory Pool_Properties
  imports Pool_Invariant
begin

text \<open>
  What the lifecycle machine guarantees in every reachable state: size bounds, one place per
  waiter, a cause for every queued waiter, finality of cancellation, and draining on close.
\<close>

subsection \<open>A waiter leaves for good\<close>

definition ages :: "pure_pool_state \<Rightarrow> pure_pool_state \<Rightarrow> bool" where
  "ages s s' \<longleftrightarrow> next_waiter s \<le> next_waiter s' \<and> (\<forall>v<next_waiter s. holds s' v \<le> holds s v)"

lemma ages_trans: "ages s t \<Longrightarrow> ages t u \<Longrightarrow> ages s u"
  unfolding ages_def by (meson le_trans less_le_trans)

lemma ages_refl [simp]: "ages s s"
  by (simp add: ages_def)

lemma ages_push_history [simp]: "ages s (push_history m t) = ages s t" "ages (push_history m s) t = ages s t"
  by (simp_all add: ages_def holds_def)

lemma ages_emit [simp]: "ages s (emit e t) = ages s t"
  by (simp add: ages_def holds_def)

lemma grown_ages: "grown s t \<Longrightarrow> ages s t"
  by (simp add: grown_def ages_def)

lemma ages_drive: "core t \<Longrightarrow> ages s t \<Longrightarrow> ages s (drive_waiters t)"
  using drive_waiters_core grown_ages ages_trans by blast

lemma ages_drive_ensure: "core t \<Longrightarrow> ages s t \<Longrightarrow> ages s (ensure_min_opening (drive_waiters t))"
  using drive_waiters_core [of t] ensure_min_core [of "drive_waiters t"] grown_ages ages_trans by blast

lemma ages_set_slot:
  assumes "ix < length (slots s)"
    and "state_waiter st = None \<or> state_waiter st = state_waiter (slot_state (slots s ! ix))"
  shows "ages s (set_slot ix st s)"
  using holds_set_slot_le [OF assms] by (simp add: ages_def)

lemma ages_requeue:
  assumes "ix < length (slots s)" "state_waiter (slot_state (slots s ! ix)) = wo" "state_waiter st = None"
    and "\<And>v. holds t v = holds (set_slot ix st s) v" "next_waiter t = next_waiter s" "closing t = closing s"
  shows "ages s (requeue wo t)"
proof -
  have "holds (requeue wo t) v \<le> holds s v" for v
    using holds_set_slot [OF assms(1), of st v] assms(2,3) by (auto simp: holds_requeue assms(4))
  then show ?thesis using assms(5) by (simp add: ages_def)
qed

lemma ages_drop: "ages s (drop_waiter w s)"
  by (simp add: ages_def holds_def count_list_filter)

lemma holds_emit [simp]: "holds (emit e s) v = holds s v" "holds (push_history m s) v = holds s v"
  by (simp_all add: holds_def)

lemma cancel_ages:
  assumes "pool_inv s"
  shows "ages s (snd (cancel_acquire w s)) \<and> holds (snd (cancel_acquire w s)) w = 0"
proof (cases "position (\<lambda>x. state_waiter (slot_state x) = Some w) (slots s)")
  case None
  then have "filter (\<lambda>x. state_waiter (slot_state x) = Some w) (slots s) = []"
    by (simp add: position_None)
  then show ?thesis using None ages_drop by (simp add: cancel_acquire_eq holds_def count_list_filter)
next
  case (Some ix)
  let ?d = "drop_waiter w s"
  have ix: "ix < length (slots ?d)" "state_waiter (slot_state (slots ?d ! ix)) = Some w"
    using Some by (simp_all add: position_Some)
  have "holds s w \<le> 1" using assms by (simp add: pool_inv_def core_def waiters_wf_def)
  then have d1: "holds ?d w \<le> 1" by (simp add: holds_def count_list_filter)
  have core: "core ?d" using drop_waiter_inv [OF assms] by (simp add: pool_inv_def)
  have set: "holds (set_slot ix st ?d) w = 0" if "state_waiter st = None" for st
    using holds_set_slot [OF ix(1), of st w] ix(2) d1 that by simp
  have ages: "ages s (set_slot ix st ?d)" if "state_waiter st = None" for st
    using ages_set_slot [OF ix(1)] ages_drop ages_trans that by blast
  show ?thesis
  proof (cases "slot_state (slots s ! ix)")
    case (CheckedOut v)
    then have v: "v = w" "slot_state (slots ?d ! ix) = CheckedOut w" using ix(2) by auto
    let ?r = "release_slot_at ix Graceful ?d"
    have r: "core ?r" "holds ?r u = holds ?d u - (if u = w then 1 else 0)" for u
      using release_slot_at_core [OF core ix(1) v(2)] by auto
    have "ages s ?r"
      using ages_drop [of s w] r release_slot_at_core(7) [OF core ix(1) v(2)]
      by (auto simp: ages_def intro: le_trans [OF diff_le_self])
    moreover have "holds (drive_waiters ?r) w = holds ?r w"
      using drive_waiters_core [OF r(1)] by (simp add: grown_def)
    ultimately show ?thesis using Some CheckedOut ages_drive r d1 by (simp add: cancel_acquire_eq)
  qed (use Some ix set ages in \<open>auto simp: cancel_acquire_eq\<close>)
qed


lemma complete_ages:
  assumes "pool_inv s"
  shows "ages s (snd (complete_open slot healthy s))" "ages s (snd (complete_ping slot healthy s))"
proof -
  have c: "core s" using assms by (simp add: pool_inv_def)
  show "ages s (snd (complete_open slot healthy s))"
  proof (cases "slot_index slot s")
    case (Some ix)
    then have ix: "ix < length (slots s)" by (simp add: slot_indexD)
    show ?thesis
    proof (cases "slot_state (slots s ! ix)")
      case (Opening wo)
      have idle: "ages s (drive_waiters (push_history m (set_slot ix Idle s)))" if "\<not> closing s" for m
        using that c ix Opening by (intro ages_drive) (simp_all add: core_set_slot ages_set_slot)
      have fail: "ages s (ensure_min_opening (drive_waiters (requeue wo (push_history m (set_slot ix Closed s)))))" for m
        using c ix Opening
        by (intro ages_drive_ensure core_requeue [of s ix _ Closed] ages_requeue [of ix _ _ Closed]) simp_all
      show ?thesis using Some ix Opening idle fail
        by (auto simp: complete_open_def intro!: ages_set_slot split: option.splits)
    qed (use Some in \<open>simp_all add: complete_open_def\<close>)
  qed (simp add: complete_open_def)
  show "ages s (snd (complete_ping slot healthy s))"
  proof (cases "slot_index slot s")
    case (Some ix)
    then have ix: "ix < length (slots s)" by (simp add: slot_indexD)
    show ?thesis
    proof (cases "slot_state (slots s ! ix)")
      case (Validating wo)
      have idle: "ages s (drive_waiters (push_history m (set_slot ix Idle s)))" if "\<not> closing s" for m
        using that c ix Validating by (intro ages_drive) (simp_all add: core_set_slot ages_set_slot)
      have fail: "ages s (requeue wo (emit e (set_slot ix Retiring s)))" for e
        using ix Validating by (intro ages_requeue [of ix _ _ Retiring]) simp_all
      show ?thesis using Some ix Validating idle fail
        by (auto simp: complete_ping_def intro!: ages_set_slot split: option.splits)
    qed (use Some in \<open>simp_all add: complete_ping_def\<close>)
  qed (simp add: complete_ping_def)
qed

lemma slot_ops_ages:
  assumes "pool_inv s"
  shows "ages s (snd (release slot s))" "ages s (snd (reap_idle slot s))" "ages s (snd (complete_close slot s))"
proof -
  have c: "core s" using assms by (simp add: pool_inv_def)
  have rel: "ages s (drive_waiters (release_slot_at ix Graceful s))"
    if "ix < length (slots s)" "slot_state (slots s ! ix) = CheckedOut w" for ix w
    using release_slot_at_core [OF c that] by (intro ages_drive) (simp_all add: ages_def)
  show "ages s (snd (release slot s))"
    by (cases "slot_index slot s")
       (auto simp: release_def intro!: rel dest: slot_indexD split: pool_slot_state.splits)
  show "ages s (snd (reap_idle slot s))"
    by (cases "slot_index slot s")
       (auto simp: reap_idle_def intro!: ages_set_slot dest: slot_indexD split: pool_slot_state.splits)
  show "ages s (snd (complete_close slot s))"
    using c by (cases "slot_index slot s")
      (auto simp: complete_close_def dest: slot_indexD intro!: ages_drive_ensure ages_set_slot core_set_slot)
qed

lemma begin_close_ages: "ages s (snd (begin_close force s))"
proof -
  have "holds (snd (begin_close force s)) v \<le> holds s v" for v
  proof -
    have "length (filter (\<lambda>x. state_waiter (slot_state x) = Some v) (map close_slot (slots s))) \<le>
        length (filter (\<lambda>x. state_waiter (slot_state x) = Some v) (slots s))"
      by (rule length_filter_map_le) (erule close_slot_waiter)
    then show ?thesis by (simp add: begin_close_def Let_def holds_def)
  qed
  then show ?thesis by (simp add: ages_def begin_close_def Let_def)
qed

lemma request_acquire_ages:
  assumes "pool_inv s"
  shows "ages s (snd (request_acquire s))"
proof -
  have "ages s (enqueued s)" by (simp add: ages_def holds_enqueued)
  then show ?thesis
    using assms ages_drive [of "enqueued s" s] enqueued_core [of s]
    by (simp add: request_acquire_eq pool_inv_def)
qed

lemma lifecycle_step_ages: "pool_inv s \<Longrightarrow> lifecycle_step s s' \<Longrightarrow> ages s s'"
  by (erule lifecycle_step.cases)
     (auto simp: cancel_ages complete_ages slot_ops_ages begin_close_ages request_acquire_ages,
      simp add: take_effects_def ages_def holds_def)

lemma lifecycle_steps_ages: "lifecycle_step\<^sup>*\<^sup>* s s' \<Longrightarrow> pool_inv s \<Longrightarrow> ages s s'"
proof (induction rule: rtranclp_induct)
  case (step t u)
  then have "pool_inv t" using lifecycle.steps_inv by blast
  then show ?case using step lifecycle_step_ages ages_trans by blast
qed simp


subsection \<open>A closing pool drains\<close>

fun close_rank :: "pool_slot_state \<Rightarrow> nat" where
  "close_rank Closed = 0"
| "close_rank Closing = 1"
| "close_rank Retiring = 1"
| "close_rank _ = 2"

definition pool_rank :: "pure_pool_state \<Rightarrow> nat" where
  "pool_rank s = sum_list (map (\<lambda>x. close_rank (slot_state x)) (slots s))"

lemma pool_rank_0: "pool_rank s = 0 \<longleftrightarrow> (\<forall>x\<in>set (slots s). slot_state x = Closed)"
proof -
  have "close_rank t = 0 \<longleftrightarrow> t = Closed" for t by (cases t) auto
  then show ?thesis by (simp add: pool_rank_def)
qed

lemma pool_rank_set_slot:
  assumes "ix < length (slots s)"
  shows "pool_rank (set_slot ix st s) + close_rank (slot_state (slots s ! ix)) = pool_rank s + close_rank st"
proof -
  let ?f = "\<lambda>x. close_rank (slot_state x)"
  have "pool_rank (set_slot ix st s) = sum_list ((map ?f (slots s))[ix := close_rank st])"
    by (simp add: pool_rank_def map_update)
  also have "\<dots> = sum_list (map ?f (slots s)) + close_rank st - map ?f (slots s) ! ix"
    using assms by (simp add: sum_list_update)
  finally show ?thesis
    using assms member_le_sum_list [of "map ?f (slots s) ! ix" "map ?f (slots s)"]
    by (simp add: pool_rank_def)
qed

lemma pool_rank_simps [simp]:
  "pool_rank (push_history m s) = pool_rank s" "pool_rank (emit e s) = pool_rank s"
  "pool_rank (s\<lparr>effects := es\<rparr>) = pool_rank s"
  by (simp_all add: pool_rank_def)

lemma closing_loops [simp]:
  "closing s \<Longrightarrow> drive_waiters s = s" "closing s \<Longrightarrow> ensure_min_opening s = s"
  by (simp_all add: drive_waiters.simps [of s] ensure_min_opening.simps [of s])

lemma rank_drop:
  assumes "ix < length (slots s)" "close_rank st \<le> close_rank (slot_state (slots s ! ix))"
  shows "pool_rank (set_slot ix st s) \<le> pool_rank s"
  using pool_rank_set_slot [OF assms(1), of st] assms(2) by simp

lemma release_closing:
  "closing s \<Longrightarrow> ix < length (slots s) \<Longrightarrow> slot_state (slots s ! ix) = CheckedOut w \<Longrightarrow>
   closing (release_slot_at ix r s) \<and> pool_rank (release_slot_at ix r s) \<le> pool_rank s"
  by (simp add: release_slot_at_def Let_def rank_drop)

lemma drop_waiter_rank [simp]: "pool_rank (drop_waiter w s) = pool_rank s"
  by (simp add: pool_rank_def)

lemma closing_step:
  assumes "closing s" "lifecycle_step s s'"
  shows "closing s' \<and> pool_rank s' \<le> pool_rank s"
  using assms(2)
proof (cases rule: lifecycle_step.cases)
  case (2 w)
  then show ?thesis
    using assms(1) release_closing [of "drop_waiter w s"]
    by (auto simp: cancel_acquire_eq position_Some intro!: rank_drop [of _ "drop_waiter w s", simplified]
        split: option.splits pool_slot_state.splits)
next
  case (8 force)
  have "sum_list (map (\<lambda>x. close_rank (slot_state (close_slot x))) xs) \<le>
      sum_list (map (\<lambda>x. close_rank (slot_state x)) xs)" for xs
    by (intro sum_list_mono) (auto simp: close_slot_def split: pool_slot_state.splits)
  then show ?thesis using 8 assms(1) by (simp add: begin_close_def Let_def pool_rank_def comp_def)
qed (use assms(1) in \<open>auto simp: request_acquire_def complete_open_def complete_ping_def release_def
       reap_idle_def complete_close_def take_effects_def release_closing
       dest!: slot_indexD intro!: rank_drop split: option.splits pool_slot_state.splits\<close>)


lemma slot_index_nth:
  assumes "slots_wf s" "j < length (slots s)"
  shows "slot_index (slot_no (slots s ! j)) s = Some j"
proof -
  have "slot_no (slots s ! i) \<noteq> slot_no (slots s ! j)" if "i < j" for i
    using assms that nth_eq_iff_index_eq [of "map slot_no (slots s)" i j] by (simp add: slots_wf_def)
  then show ?thesis using assms(2) by (simp add: slot_index_def position_Some)
qed

lemma closing_progress:
  assumes "pool_inv s" "closing s" "x \<in> set (slots s)" "slot_state x \<noteq> Closed"
  shows "\<exists>s'. lifecycle_step s s' \<and> pool_rank s' < pool_rank s"
proof -
  obtain j where j: "j < length (slots s)" "x = slots s ! j" using assms(3) by (auto simp: in_set_conv_nth)
  let ?k = "slot_no (slots s ! j)"
  have ix: "slot_index ?k s = Some j" using slot_index_nth j assms(1) by (simp add: pool_inv_def core_def)
  have no: "slot_state x \<noteq> Idle" "slot_state x \<noteq> CheckedOut w" for w
    using assms by (auto simp: pool_inv_def core_def closing_wf_def)
  note r = pool_rank_set_slot [OF j(1)]
  consider w where "slot_state (slots s ! j) = Opening w" | w where "slot_state (slots s ! j) = Validating w"
    | "slot_state (slots s ! j) \<in> {Retiring, Closing}"
    using assms(4) no j(2) by (cases "slot_state x") auto
  then show ?thesis
  proof cases
    case 1
    then have "pool_rank (snd (complete_open ?k True s)) < pool_rank s"
      using ix assms(2) r [of Closing] by (simp add: complete_open_def)
    then show ?thesis using lifecycle_step.intros by blast
  next
    case 2
    then have "pool_rank (snd (complete_ping ?k True s)) < pool_rank s"
      using ix assms(2) r [of Closing] by (simp add: complete_ping_def)
    then show ?thesis using lifecycle_step.intros by blast
  next
    case 3
    then have "pool_rank (snd (complete_close ?k s)) < pool_rank s"
      using ix assms(2) r [of Closed] by (auto simp: complete_close_def)
    then show ?thesis using lifecycle_step.intros by blast
  qed
qed

lemma closing_drains:
  "pool_inv s \<Longrightarrow> closing s \<Longrightarrow>
   \<exists>s'. lifecycle_step\<^sup>*\<^sup>* s s' \<and> (\<forall>x\<in>set (slots s'). slot_state x = Closed)"
proof (induction "pool_rank s" arbitrary: s rule: less_induct)
  case less
  show ?case
  proof (cases "\<forall>x\<in>set (slots s). slot_state x = Closed")
    case False
    then obtain s1 where s1: "lifecycle_step s s1" "pool_rank s1 < pool_rank s"
      using closing_progress less.prems by blast
    then have "pool_inv s1" "closing s1"
      using less.prems lifecycle.step_inv closing_step by blast+
    then show ?thesis using less.hyps [OF s1(2)] s1(1) converse_rtranclp_into_rtranclp
      by (metis (no_types, lifting))
  qed auto
qed

subsection \<open>Properties of every reachable pool\<close>

abbreviation reachable_pool :: "pure_pool_state \<Rightarrow> bool" where
  "reachable_pool \<equiv> reachable lifecycle_init lifecycle_step"

text \<open>
  C6. In every reachable state the live slots never exceed the maximum, an open pool always has at
  least the minimum, and no two slots share an identifier.
\<close>

theorem pool_size_bounds:
  assumes "reachable_pool s"
  shows "live_slot_count s \<le> max_size s \<and> (\<not> closing s \<longrightarrow> min_size s \<le> live_slot_count s) \<and>
    distinct (map slot_no (slots s))"
  using lifecycle.reachable_inv [OF assms] by (simp add: pool_inv_def core_def slots_wf_def)

text \<open>
  C18. In every reachable state a waiter stands in at most one place: once in the queue, or on one
  slot that is opening, validating or checked out for it. So no request is granted two connections.
\<close>

theorem waiter_in_one_place:
  assumes "reachable_pool s"
  shows "count_list (waiters s) w +
    length (filter (\<lambda>x. state_waiter (slot_state x) = Some w) (slots s)) \<le> 1"
  using lifecycle.reachable_inv [OF assms] by (simp add: pool_inv_def core_def waiters_wf_def holds_def)

text \<open>
  C19. A waiter queued in an open pool is queued for a reason: either no slot is idle and the pool is
  at its maximum, or a slot is retiring, whose close completion drives the queue again.
\<close>

theorem queued_waiter_has_cause:
  assumes "reachable_pool s" "\<not> closing s" "waiters s \<noteq> []"
  shows "(\<forall>x\<in>set (slots s). slot_state x \<noteq> Idle) \<and> live_slot_count s = max_size s \<or>
    (\<exists>x\<in>set (slots s). slot_state x = Retiring)"
  using lifecycle.reachable_inv [OF assms(1)] assms(2,3) by (simp add: pool_inv_def served_def)

text \<open>
  C21. Cancelling an acquire is final: after it the waiter is neither queued nor on any slot, in the
  resulting state and in every state the pool can reach from there.
\<close>

theorem cancel_is_final:
  assumes "reachable_pool s" "w < next_waiter s" "lifecycle_step\<^sup>*\<^sup>* (snd (cancel_acquire w s)) s'"
  shows "w \<notin> set (waiters s') \<and> (\<forall>x\<in>set (slots s'). state_waiter (slot_state x) \<noteq> Some w)"
proof -
  have inv: "pool_inv s" using lifecycle.reachable_inv [OF assms(1)] .
  have "ages (snd (cancel_acquire w s)) s'"
    using lifecycle_steps_ages [OF assms(3)] cancel_acquire_inv [OF inv] by blast
  moreover have "ages s (snd (cancel_acquire w s))" "holds (snd (cancel_acquire w s)) w = 0"
    using cancel_ages [OF inv] by auto
  moreover from this have "w < next_waiter (snd (cancel_acquire w s))"
    using assms(2) by (auto simp: ages_def)
  ultimately have "holds s' w = 0" by (metis ages_def le_zero_eq)
  then show ?thesis by (auto simp: holds_def count_list_0_iff filter_empty_conv)
qed

text \<open>
  C22. Closing is irreversible and can always finish: no operation on a closing pool reopens it or
  raises its remaining close work, and completing the outstanding opens, pings and closes leads to a
  state in which every slot is closed.
\<close>

theorem closing_pool_drains:
  assumes "reachable_pool s" "closing s"
  shows "(\<forall>s'. lifecycle_step s s' \<longrightarrow> closing s' \<and> pool_rank s' \<le> pool_rank s) \<and>
    (\<exists>s'. lifecycle_step\<^sup>*\<^sup>* s s' \<and> (\<forall>x\<in>set (slots s'). slot_state x = Closed))"
  using closing_step [OF assms(2)] closing_drains [OF lifecycle.reachable_inv [OF assms(1)] assms(2)]
  by blast

subsection \<open>Concrete runs\<close>

text \<open>A pool of at most one connection with two requests: the second waits.\<close>

definition busy_pool :: pure_pool_state where
  "busy_pool = snd (request_acquire (snd (request_acquire (the (new_state 0 1)))))"

lemmas lifecycle_eval = new_state_def request_acquire_def open_slot_def push_history_def emit_def
  set_slot_def live_slot_count_def slot_index_def serve_waiter_def Let_def

lemma busy_pool_eval:
  "waiters busy_pool = [2]" "map slot_state (slots busy_pool) = [Opening (Some 1)]"
  "closing busy_pool = False" "next_waiter busy_pool = 3"
  by (simp_all add: busy_pool_def lifecycle_eval ensure_min_opening.simps drive_waiters.simps)

lemma new_reachable: "mn \<le> mx \<Longrightarrow> reachable_pool (the (new_state mn mx))"
  by (rule reachable_init) (auto simp: lifecycle_init_def new_state_def)

lemma busy_pool_reachable: "reachable_pool busy_pool"
  unfolding busy_pool_def
  by (rule reachable_step [OF reachable_step [OF new_reachable lifecycle_step.intros(1)] lifecycle_step.intros(1)]) simp

theorem pool_size_bounds_witness:
  "live_slot_count busy_pool \<le> max_size busy_pool \<and> \<not> closing busy_pool \<and>
   min_size busy_pool \<le> live_slot_count busy_pool \<and> distinct (map slot_no (slots busy_pool))"
  using pool_size_bounds [OF busy_pool_reachable] by (simp add: busy_pool_eval(3))

theorem waiter_in_one_place_witness:
  "count_list (waiters busy_pool) 2 +
     length (filter (\<lambda>x. state_waiter (slot_state x) = Some 2) (slots busy_pool)) \<le> 1"
  by (rule waiter_in_one_place [OF busy_pool_reachable])

theorem queued_waiter_has_cause_witness:
  "(\<forall>x\<in>set (slots busy_pool). slot_state x \<noteq> Idle) \<and> live_slot_count busy_pool = max_size busy_pool \<or>
    (\<exists>x\<in>set (slots busy_pool). slot_state x = Retiring)"
  by (rule queued_waiter_has_cause [OF busy_pool_reachable]) (simp_all add: busy_pool_eval)

theorem cancel_is_final_witness:
  "2 \<notin> set (waiters (snd (cancel_acquire 2 busy_pool))) \<and>
   list_all (\<lambda>x. state_waiter (slot_state x) \<noteq> Some 2) (slots (snd (cancel_acquire 2 busy_pool)))"
  unfolding list_all_iff
  by (rule cancel_is_final [OF busy_pool_reachable _ rtranclp.rtrancl_refl]) (simp add: busy_pool_eval)

theorem closing_pool_drains_witness:
  "closing (snd (begin_close True busy_pool)) \<and>
   (\<exists>s'. lifecycle_step\<^sup>*\<^sup>* (snd (begin_close True busy_pool)) s' \<and>
      (\<forall>x\<in>set (slots s'). slot_state x = Closed))"
proof
  show c: "closing (snd (begin_close True busy_pool))" by (simp add: begin_close_def Let_def)
  show "\<exists>s'. lifecycle_step\<^sup>*\<^sup>* (snd (begin_close True busy_pool)) s' \<and>
      (\<forall>x\<in>set (slots s'). slot_state x = Closed)"
    by (rule conjunct2 [OF closing_pool_drains [OF reachable_step [OF busy_pool_reachable
          lifecycle_step.intros(8)] c]])
qed

text \<open>Two slots open, one acquire validated on the first slot, and that ping fails.\<close>

definition parked_pool :: pure_pool_state where
  "parked_pool = snd (complete_ping 1 False (snd (request_acquire
     (snd (complete_open 2 True (snd (complete_open 1 True (the (new_state 2 2)))))))))"

text \<open>
  C28. A failed ping puts its waiter back without driving the queue: there is a reachable open pool
  whose waiter stays queued while another slot is idle, until the failed slot's close completes.
\<close>

theorem ping_failure_parks_waiter:
  "reachable_pool parked_pool \<and> waiters parked_pool = [1] \<and> \<not> closing parked_pool \<and>
   map slot_state (slots parked_pool) = [Retiring, Idle]"
proof -
  have "reachable_pool parked_pool"
    unfolding parked_pool_def
    by (rule reachable_step [OF reachable_step [OF reachable_step [OF reachable_step [OF new_reachable
          lifecycle_step.intros(3)] lifecycle_step.intros(3)] lifecycle_step.intros(1)] lifecycle_step.intros(4)]) simp
  then show ?thesis
    by (simp add: parked_pool_def lifecycle_eval complete_open_def complete_ping_def requeue_def
        ensure_min_opening.simps drive_waiters.simps)
qed

end
