(* ===== verification/Pool_Engine.thy ===== *)
theory Pool_Engine
  imports Pool_Lifecycle "HOL-Library.Multiset"
begin

text \<open>
  The connection pool engine (\<^verbatim>\<open>crates/oracledb/src/pool.rs\<close>, \<^verbatim>\<open>pool/engine.rs\<close>,
  \<^verbatim>\<open>pool/acquire.rs\<close>). Every function that runs under the state lock is one definition
  on the record \<open>engine\<close>, which joins \<^verbatim>\<open>PoolState\<close> with the parts of
  \<^verbatim>\<open>EngineInner\<close> that the handlers change: the channel of guard-drop returns, the stop flag,
  the permit of the background notifier, a counter of waiter wake-ups, and the sequence of calls
  made on the backend. The backend's connection type is the type variable \<open>'c\<close>; its local
  liveness check and the clock are the argument \<open>env\<close>; its slow operations (create, ping) run
  without the lock, so their results are arguments of the handlers that follow them. Instants are
  nanoseconds.
\<close>

subsection \<open>Data\<close>

definition POOL_GETMODE_WAIT :: nat where "POOL_GETMODE_WAIT = 0"
definition POOL_GETMODE_NOWAIT :: nat where "POOL_GETMODE_NOWAIT = 1"
definition POOL_GETMODE_FORCEGET :: nat where "POOL_GETMODE_FORCEGET = 2"
definition POOL_GETMODE_TIMEDWAIT :: nat where "POOL_GETMODE_TIMEDWAIT = 3"

datatype pool_error =
    ErrClosed
  | NoConnectionAvailable
  | HasBusyConnections
  | ConnectionNotAcquired
  | ErrBackend string
  | Cancelled string
  | Internal string

record pool_config =
  cfg_min :: nat
  cfg_max :: nat
  increment :: nat
  getmode :: nat
  cfg_wait_timeout_ms :: nat
  timeout_secs :: nat
  max_lifetime_session_secs :: nat
  ping_interval_secs :: int
  ping_timeout_ms :: nat
  creation_cclass :: "string option"

record acquire_options =
  opt_wants_new :: bool
  opt_cclass :: "string option"

record 'c pooled_conn =
  conn_id :: nat
  conn :: 'c
  conn_cclass :: "string option"
  time_created :: nat
  time_returned :: nat
  is_pool_extra :: bool
  ever_acquired :: bool

record 'c request =
  req_id :: nat
  req_cclass :: "string option"
  cclass_matches :: bool
  wants_new :: bool
  requires_ping :: bool
  bg_processing :: bool
  is_extra :: bool
  is_replacing :: bool
  in_progress :: bool
  completed :: bool
  waiting :: bool
  req_conn :: "'c pooled_conn option"
  req_error :: "string option"

text \<open>
  What happens to backend connections: created, handed to \<^verbatim>\<open>close_connection\<close>, or dropped as
  a Rust value without that call.
\<close>

datatype backend_call = CallCreated nat | CallClosed nat | CallDropped nat

record 'c engine =
  pool_open :: bool
  config :: pool_config
  force_get :: bool
  wait_timeout_ms :: "nat option"
  free_new :: "'c pooled_conn list"
  free_used :: "'c pooled_conn list"
  busy :: "'c pooled_conn list"
  to_drop :: "'c pooled_conn list"
  requests :: "'c request list"
  open_effects :: "pool_effect list"
  in_flight_open_effects :: "pool_effect list"
  next_conn_id :: nat
  next_request_id :: nat
  drop_returns :: "nat list"
  bg_permit :: bool
  wakeups :: nat
  reaper_stop :: bool
  calls :: "backend_call list"

record 'c env =
  connection_is_open :: "'c \<Rightarrow> bool"
  now :: nat

definition elapsed :: "'c env \<Rightarrow> nat \<Rightarrow> nat" where
  "elapsed env t = now env - t"

definition from_secs :: "nat \<Rightarrow> nat" where
  "from_secs n = n * 1000000000"

definition notify_bg :: "'c engine \<Rightarrow> 'c engine" where
  "notify_bg s = s\<lparr>bg_permit := True\<rparr>"

definition wake_waiters :: "'c engine \<Rightarrow> 'c engine" where
  "wake_waiters s = s\<lparr>wakeups := wakeups s + 1\<rparr>"

definition close_connection :: "'c pooled_conn \<Rightarrow> 'c engine \<Rightarrow> 'c engine" where
  "close_connection c s = s\<lparr>calls := calls s @ [CallClosed (conn_id c)]\<rparr>"

definition remove_nth :: "nat \<Rightarrow> 'a list \<Rightarrow> 'a list" where
  "remove_nth i xs = take i xs @ drop (Suc i) xs"

subsection \<open>Counters\<close>

definition saturating_u32 :: "nat \<Rightarrow> nat" where
  "saturating_u32 n = min n 4294967295"

definition request_is_opening :: "'c request \<Rightarrow> bool" where
  "request_is_opening r \<longleftrightarrow>
     bg_processing r \<and> \<not> requires_ping r \<and> \<not> completed r \<and> req_error r = None \<and>
     (in_progress r \<or> is_extra r \<or> is_replacing r)"

definition is_open_effect :: "pool_effect \<Rightarrow> bool" where
  "is_open_effect e = (case e of Open _ _ \<Rightarrow> True | _ \<Rightarrow> False)"

definition pending_open_count :: "'c engine \<Rightarrow> nat" where
  "pending_open_count s =
     saturating_u32 (length (filter is_open_effect (open_effects s @ in_flight_open_effects s)) +
       length (filter request_is_opening (requests s)))"

definition compatible_idle_count :: "'c engine \<Rightarrow> bool \<Rightarrow> string option \<Rightarrow> bool \<Rightarrow> nat" where
  "compatible_idle_count s wants cclass matches =
     (if wants then 0
      else saturating_u32
        (length (filter (\<lambda>c. cclass = None \<or> conn_cclass c = cclass) (free_used s)) +
         (if matches then length (free_new s) else 0)))"

definition compatible_waiting_demand :: "'c engine \<Rightarrow> nat" where
  "compatible_waiting_demand s =
     saturating_u32 (length (filter (\<lambda>r. waiting r \<and> cclass_matches r \<and> \<not> completed r \<and>
       \<not> requires_ping r \<and> \<not> is_extra r \<and> \<not> is_replacing r \<and> req_conn r = None \<and> req_error r = None)
       (requests s)))"

definition active_open_count :: "'c engine \<Rightarrow> nat" where
  "active_open_count s =
     saturating_u32 (length (free_new s) + length (free_used s) + length (busy s) +
       length (filter (\<lambda>r. req_conn r \<noteq> None) (requests s)))"

definition reserved_open_count :: "'c engine \<Rightarrow> nat" where
  "reserved_open_count s = min (active_open_count s + pending_open_count s) 4294967295"

definition derived_lifecycle_counts :: "'c engine \<Rightarrow> pool_counts" where
  "derived_lifecycle_counts s =
     \<lparr>opening_count = pending_open_count s,
      idle_count = length (free_new s) + length (free_used s),
      checked_out_count = length (busy s),
      validating_count = length (filter (\<lambda>r. requires_ping r \<and> (bg_processing r \<or> in_progress r)) (requests s)),
      retiring_count = length (to_drop s),
      closing_count = 0,
      closed_count = 0,
      waiters_count = length (filter (\<lambda>r. waiting r \<and> \<not> completed r \<and> req_error r = None) (requests s))\<rparr>"

record pool_stats =
  stat_open :: nat
  stat_busy :: nat
  stat_idle :: nat
  stat_opening :: nat
  stat_validating :: nat
  stat_retiring :: nat
  stat_waiters :: nat

definition pool_stats_of :: "'c engine \<Rightarrow> pool_stats" where
  "pool_stats_of s =
     (let counts = derived_lifecycle_counts s
      in \<lparr>stat_open = active_open_count s,
          stat_busy = saturating_u32 (checked_out_count counts),
          stat_idle = saturating_u32 (idle_count counts),
          stat_opening = saturating_u32 (opening_count counts),
          stat_validating = saturating_u32 (validating_count counts),
          stat_retiring = saturating_u32 (retiring_count counts),
          stat_waiters = saturating_u32 (waiters_count counts)\<rparr>)"

subsection \<open>Growth\<close>

fun schedule_open_effects :: "nat \<Rightarrow> 'c engine \<Rightarrow> 'c engine" where
  "schedule_open_effects 0 s = s"
| "schedule_open_effects (Suc n) s =
     schedule_open_effects n
       (s\<lparr>next_conn_id := next_conn_id s + 1, open_effects := open_effects s @ [Open (next_conn_id s) None]\<rparr>)"

definition complete_open_effect :: "nat \<Rightarrow> 'c engine \<Rightarrow> 'c engine" where
  "complete_open_effect cid s =
     (case position (\<lambda>e. case e of Open slot _ \<Rightarrow> slot = cid | _ \<Rightarrow> False) (in_flight_open_effects s) of
        Some i \<Rightarrow> s\<lparr>in_flight_open_effects := remove_nth i (in_flight_open_effects s)\<rparr>
      | None \<Rightarrow> s)"

definition ensure_min_connections :: "'c engine \<Rightarrow> 'c engine" where
  "ensure_min_connections s =
     (if pool_open s
      then notify_bg (if reserved_open_count s < cfg_min (config s)
             then schedule_open_effects (cfg_min (config s) - reserved_open_count s) s else s)
      else s)"

definition drop_conn :: "'c pooled_conn \<Rightarrow> 'c engine \<Rightarrow> 'c engine" where
  "drop_conn c s = notify_bg (ensure_min_connections (s\<lparr>to_drop := to_drop s @ [c]\<rparr>))"

subsection \<open>Requests\<close>

definition request_position :: "nat \<Rightarrow> 'c engine \<Rightarrow> nat option" where
  "request_position rid s = position (\<lambda>r. req_id r = rid) (requests s)"

definition upd_request :: "nat \<Rightarrow> ('c request \<Rightarrow> 'c request) \<Rightarrow> 'c engine \<Rightarrow> 'c engine" where
  "upd_request p f s = s\<lparr>requests := (requests s)[p := f (requests s ! p)]\<rparr>"

text \<open>
  Assigning a request's connection drops the value it held before, if any, without a call to
  \<^verbatim>\<open>close_connection\<close>.
\<close>

definition attach_conn :: "nat \<Rightarrow> 'c pooled_conn \<Rightarrow> 'c engine \<Rightarrow> 'c engine" where
  "attach_conn p c s =
     upd_request p (\<lambda>r. r\<lparr>req_conn := Some c\<rparr>)
       (case req_conn (requests s ! p) of
          None \<Rightarrow> s
        | Some old \<Rightarrow> s\<lparr>calls := calls s @ [CallDropped (conn_id old)]\<rparr>)"

text \<open>\<^verbatim>\<open>reject\<close> hands a request's connection back; the request itself is already removed.\<close>

definition reject :: "'c request \<Rightarrow> 'c engine \<Rightarrow> 'c engine" where
  "reject r s =
     (case req_conn r of
        None \<Rightarrow> s
      | Some c \<Rightarrow>
          if \<not> pool_open s
          then wake_waiters (notify_bg (s\<lparr>to_drop := to_drop s @ [c\<lparr>is_pool_extra := False\<rparr>]\<rparr>))
          else wake_waiters
            (if is_pool_extra c
             then notify_bg (s\<lparr>to_drop := to_drop s @ [c\<lparr>is_pool_extra := False\<rparr>]\<rparr>)
             else if \<not> ever_acquired c then s\<lparr>free_new := free_new s @ [c]\<rparr>
             else s\<lparr>free_used := free_used s @ [c]\<rparr>))"

definition abandon_request :: "nat \<Rightarrow> 'c engine \<Rightarrow> 'c engine" where
  "abandon_request rid s =
     (case request_position rid s of
        None \<Rightarrow> s
      | Some p \<Rightarrow>
          let s = upd_request p (\<lambda>r. r\<lparr>waiting := False\<rparr>) s
          in if \<not> bg_processing (requests s ! p)
             then reject (requests s ! p) (s\<lparr>requests := remove_nth p (requests s)\<rparr>)
             else s)"

definition add_request_for_bg :: "nat \<Rightarrow> 'c engine \<Rightarrow> 'c engine" where
  "add_request_for_bg rid s =
     (case request_position rid s of
        None \<Rightarrow> s
      | Some p \<Rightarrow> notify_bg (upd_request p (\<lambda>r. r\<lparr>bg_processing := True, completed := False\<rparr>) s))"

definition new_request :: "nat \<Rightarrow> string option \<Rightarrow> bool \<Rightarrow> bool \<Rightarrow> 'c request" where
  "new_request rid cclass matches wants =
     \<lparr>req_id = rid, req_cclass = cclass, cclass_matches = matches, wants_new = wants,
      requires_ping = False, bg_processing = False, is_extra = False, is_replacing = False,
      in_progress = False, completed = False, waiting = True, req_conn = None, req_error = None\<rparr>"

definition orphan :: "'c pooled_conn \<Rightarrow> 'c request" where
  "orphan c = (new_request 0 None True False)\<lparr>waiting := False, req_conn := Some c\<rparr>"

definition needs_ping :: "'c env \<Rightarrow> 'c engine \<Rightarrow> 'c pooled_conn \<Rightarrow> bool" where
  "needs_ping env s c =
     (let interval = ping_interval_secs (config s)
      in if interval = 0 then True
         else if interval > 0 then elapsed env (time_returned c) > from_secs (nat interval)
         else False)"

definition check_connection :: "'c env \<Rightarrow> nat \<Rightarrow> 'c pooled_conn \<Rightarrow> 'c engine \<Rightarrow> 'c engine" where
  "check_connection env rid c s =
     (if \<not> connection_is_open env (conn c) then drop_conn c s
      else
        let max_lifetime = max_lifetime_session_secs (config s)
        in if max_lifetime > 0 \<and> elapsed env (time_created c) > from_secs max_lifetime then drop_conn c s
           else
             (case request_position rid s of
                None \<Rightarrow> reject (orphan c) s
              | Some p \<Rightarrow>
                  if needs_ping env s c
                  then add_request_for_bg rid
                         (upd_request p (\<lambda>r. r\<lparr>requires_ping := True\<rparr>) (attach_conn p c s))
                  else upd_request p (\<lambda>r. r\<lparr>completed := True\<rparr>) (attach_conn p c s)))"

definition enqueue_request :: "acquire_options \<Rightarrow> 'c engine \<Rightarrow> (pool_error + nat) \<times> 'c engine" where
  "enqueue_request opts s =
     (if \<not> pool_open s then (Inl ErrClosed, s)
      else
        let rid = next_request_id s;
            matches = (opt_cclass opts = None \<or> opt_cclass opts = creation_cclass (config s))
        in (Inr rid, s\<lparr>next_request_id := rid + 1,
              requests := requests s @ [new_request rid (opt_cclass opts) matches (opt_wants_new opts)]\<rparr>))"


subsection \<open>Fulfilling a request\<close>

text \<open>
  The scan of used connections from the tail. \<open>Some r\<close> is an early return with result
  \<open>r\<close>; \<open>None\<close> means the scan ran to its end.
\<close>

fun scan_used ::
  "'c env \<Rightarrow> nat \<Rightarrow> string option \<Rightarrow> nat \<Rightarrow> 'c engine \<Rightarrow> (pool_error + bool) option \<times> 'c engine" where
  "scan_used env rid cclass 0 s = (None, s)"
| "scan_used env rid cclass (Suc i) s =
     (if \<not> (cclass = None \<or> conn_cclass (free_used s ! i) = cclass) then scan_used env rid cclass i s
      else
        let s1 = check_connection env rid (free_used s ! i) (s\<lparr>free_used := remove_nth i (free_used s)\<rparr>)
        in case request_position rid s1 of
             None \<Rightarrow> (Some (Inl (Internal ''request lost'')), s1)
           | Some p \<Rightarrow>
               if completed (requests s1 ! p) \<or> requires_ping (requests s1 ! p)
               then (Some (Inr (completed (requests s1 ! p))), s1)
               else scan_used env rid cclass (min i (length (free_used s1))) s1)"

lemma notify_simps [simp]:
  "free_new (notify_bg s) = free_new s" "requests (notify_bg s) = requests s" "free_used (notify_bg s) = free_used s"
  "free_new (wake_waiters s) = free_new s" "requests (wake_waiters s) = requests s"
  by (simp_all add: notify_bg_def wake_waiters_def)

lemma schedule_simps [simp]:
  "free_new (schedule_open_effects n s) = free_new s" "requests (schedule_open_effects n s) = requests s"
  "free_used (schedule_open_effects n s) = free_used s"
  by (induction n s rule: schedule_open_effects.induct) simp_all

lemma drop_conn_simps [simp]:
  "free_new (drop_conn c s) = free_new s" "requests (drop_conn c s) = requests s"
  "free_used (drop_conn c s) = free_used s"
  by (simp_all add: drop_conn_def ensure_min_connections_def)

lemma request_position_reject [simp]: "request_position rid (reject r s) = request_position rid s"
  by (simp add: request_position_def reject_def split: option.split)

lemma check_connection_free_new:
  "request_position rid (check_connection env rid c s) = Some p \<Longrightarrow>
   free_new (check_connection env rid c s) = free_new s"
  by (cases "request_position rid s")
     (auto simp: check_connection_def Let_def upd_request_def add_request_for_bg_def attach_conn_def
       split: if_splits option.splits)

text \<open>The scan of new connections, popping from the tail.\<close>

function scan_new :: "'c env \<Rightarrow> nat \<Rightarrow> 'c engine \<Rightarrow> (pool_error + bool) option \<times> 'c engine" where
  "scan_new env rid s =
     (if free_new s = [] then (None, s)
      else
        let s1 = check_connection env rid (last (free_new s)) (s\<lparr>free_new := butlast (free_new s)\<rparr>)
        in case request_position rid s1 of
             None \<Rightarrow> (Some (Inl (Internal ''request lost'')), s1)
           | Some p \<Rightarrow>
               if completed (requests s1 ! p) \<or> requires_ping (requests s1 ! p)
               then (Some (Inr (completed (requests s1 ! p))), s1)
               else scan_new env rid s1)"
  by pat_completeness auto
termination
  by (relation "measure (\<lambda>(env, rid, s). length (free_new s))") (auto dest: check_connection_free_new)

declare scan_new.simps [simp del]

definition set_request :: "nat \<Rightarrow> ('c request \<Rightarrow> 'c request) \<Rightarrow> 'c engine \<Rightarrow> 'c engine" where
  "set_request rid f s =
     (case request_position rid s of Some p \<Rightarrow> upd_request p f s | None \<Rightarrow> s)"

text \<open>The growth decision for a request that found no free connection below the maximum.\<close>

definition plan_growth :: "bool \<Rightarrow> string option \<Rightarrow> 'c engine \<Rightarrow> 'c engine" where
  "plan_growth wants cclass s =
     (let remaining = cfg_max (config s) - reserved_open_count s;
          pending = pending_open_count s;
          idle = compatible_idle_count s wants cclass True;
          demand = compatible_waiting_demand s;
          supply = min (pending + idle) 4294967295;
          shortfall = demand - supply;
          desired = (if pending = 0 then max (increment (config s)) shortfall else shortfall)
      in if desired > 0 then schedule_open_effects (min desired remaining) s else s)"

definition grow_or_replace ::
  "nat \<Rightarrow> bool \<Rightarrow> string option \<Rightarrow> bool \<Rightarrow> 'c engine \<Rightarrow> (pool_error + bool) \<times> 'c engine" where
  "grow_or_replace rid wants cclass matches s =
     (if reserved_open_count s \<ge> cfg_max (config s) then
        if free_new s \<noteq> [] then
          (Inr False, add_request_for_bg rid (set_request rid (\<lambda>r. r\<lparr>is_replacing := True\<rparr>)
             (s\<lparr>free_new := butlast (free_new s), to_drop := to_drop s @ [last (free_new s)]\<rparr>)))
        else if free_used s \<noteq> [] then
          (Inr False, add_request_for_bg rid (set_request rid (\<lambda>r. r\<lparr>is_replacing := True\<rparr>)
             (s\<lparr>free_used := butlast (free_used s), to_drop := to_drop s @ [last (free_used s)]\<rparr>)))
        else if force_get s then
          (Inr False, add_request_for_bg rid (set_request rid (\<lambda>r. r\<lparr>is_extra := True\<rparr>) s))
        else if getmode (config s) = POOL_GETMODE_NOWAIT then (Inl NoConnectionAvailable, s)
        else (Inr False, add_request_for_bg rid s)
      else (Inr False, add_request_for_bg rid (if matches then plan_growth wants cclass s else s)))"

definition fulfill :: "'c env \<Rightarrow> nat \<Rightarrow> 'c engine \<Rightarrow> (pool_error + bool) \<times> 'c engine" where
  "fulfill env rid s =
     (if \<not> pool_open s then (Inl ErrClosed, s)
      else case request_position rid s of
        None \<Rightarrow> (Inl (Internal ''request lost''), s)
      | Some p \<Rightarrow>
          let r = requests s ! p in
          (case req_error r of
             Some e \<Rightarrow> (Inl (ErrBackend e), upd_request p (\<lambda>r. r\<lparr>req_error := None\<rparr>) s)
           | None \<Rightarrow>
               if completed r then (Inr True, s)
               else if bg_processing r then (Inr False, s)
               else
                 (case (if wants_new r then (None, s)
                        else scan_used env rid (req_cclass r) (length (free_used s)) s) of
                    (Some res, s) \<Rightarrow> (res, s)
                  | (None, s) \<Rightarrow>
                      (case (if cclass_matches r then scan_new env rid s else (None, s)) of
                         (Some res, s) \<Rightarrow> (res, s)
                       | (None, s) \<Rightarrow>
                           grow_or_replace rid (wants_new r) (req_cclass r) (cclass_matches r)
                             (set_request rid (\<lambda>r. r\<lparr>requires_ping := False\<rparr>) s)))))"

definition finish_completed_request :: "nat \<Rightarrow> 'c engine \<Rightarrow> (pool_error + nat) \<times> 'c engine" where
  "finish_completed_request rid s =
     (case request_position rid s of
        None \<Rightarrow> (Inl (Internal ''request lost''), s)
      | Some p \<Rightarrow>
          let r = requests s ! p; s = s\<lparr>requests := remove_nth p (requests s)\<rparr>
          in case req_conn r of
               None \<Rightarrow> (Inl (Internal ''completed request without connection''), s)
             | Some c \<Rightarrow> (Inr (conn_id c), s\<lparr>busy := busy s @ [c\<lparr>ever_acquired := True\<rparr>]\<rparr>))"

definition poll_request_completion ::
  "'c env \<Rightarrow> nat \<Rightarrow> 'c engine \<Rightarrow> (pool_error + nat option) \<times> 'c engine" where
  "poll_request_completion env rid s =
     (case fulfill env rid s of
        (Inr True, s) \<Rightarrow>
          (case finish_completed_request rid s of
             (Inr cid, s) \<Rightarrow> (Inr (Some cid), s)
           | (Inl e, s) \<Rightarrow> (Inl e, s))
      | (Inr False, s) \<Rightarrow> (Inr None, s)
      | (Inl e, s) \<Rightarrow> (Inl e, abandon_request rid s))"

subsection \<open>The background worker\<close>

fun peek_requests :: "'c engine \<Rightarrow> 'c request list \<Rightarrow> nat option" where
  "peek_requests s [] = None"
| "peek_requests s (r # rs) =
     (if completed r \<or> req_error r \<noteq> None \<or> in_progress r then peek_requests s rs
      else if \<not> bg_processing r then peek_requests s rs
      else if \<not> waiting r \<or> requires_ping r \<or> is_replacing r \<or> is_extra r \<or>
           (\<not> cclass_matches r \<and> reserved_open_count s < cfg_max (config s))
      then Some (req_id r)
      else None)"

definition peek_next_request :: "'c engine \<Rightarrow> nat option" where
  "peek_next_request s = peek_requests s (requests s)"

definition get_next_request :: "'c engine \<Rightarrow> nat option \<times> 'c engine" where
  "get_next_request s =
     (case peek_next_request s of
        None \<Rightarrow> (None, s)
      | Some rid \<Rightarrow> (Some rid, set_request rid (\<lambda>r. r\<lparr>in_progress := waiting r\<rparr>) s))"

definition post_process_request :: "nat \<Rightarrow> 'c engine \<Rightarrow> 'c engine" where
  "post_process_request rid s =
     (case request_position rid s of
        None \<Rightarrow> s
      | Some p \<Rightarrow>
          let s = upd_request p (\<lambda>r. r\<lparr>in_progress := False, bg_processing := False\<rparr>) s;
              r = requests s ! p
          in wake_waiters
            (if req_conn r \<noteq> None then
               let s = upd_request p (\<lambda>r. r\<lparr>completed := True\<rparr>) s
               in if \<not> waiting r
                  then reject (requests s ! p) (s\<lparr>requests := remove_nth p (requests s)\<rparr>) else s
             else
               let s = (if requires_ping r then ensure_min_connections s else s)
               in if \<not> waiting r then s\<lparr>requests := remove_nth p (requests s)\<rparr> else s))"


text \<open>
  \<^verbatim>\<open>post_create_conn\<close>: a connection created for growth goes to the first eligible request,
  or to the list of new connections; a failed creation is reported to one waiting request.
\<close>

definition growth_error_target :: "'c request \<Rightarrow> bool" where
  "growth_error_target r \<longleftrightarrow>
     bg_processing r \<and> waiting r \<and> \<not> requires_ping r \<and> \<not> is_extra r \<and> \<not> is_replacing r \<and>
     cclass_matches r \<and> req_conn r = None"

fun offer_created ::
  "nat \<Rightarrow> nat \<Rightarrow> 'c pooled_conn \<Rightarrow> 'c request list \<Rightarrow> 'c request list \<times> bool \<times> bool" where
  "offer_created mx open_count c [] = ([], False, False)"
| "offer_created mx open_count c (r # rs) =
     (if in_progress r \<or> req_conn r \<noteq> None \<or> \<not> waiting r \<or> completed r \<or> req_error r \<noteq> None
      then let (rs', given, woke) = offer_created mx open_count c rs in (r # rs', given, woke)
      else if req_cclass r = None \<or> req_cclass r = conn_cclass c
      then (r\<lparr>req_conn := Some c, completed := True, bg_processing := False\<rparr> # rs, True, True)
      else if \<not> cclass_matches r \<and> open_count \<ge> mx
      then (r\<lparr>req_conn := Some c, is_replacing := True\<rparr> # rs, True, False)
      else let (rs', given, woke) = offer_created mx open_count c rs in (r # rs', given, woke))"

definition post_create_conn :: "nat \<Rightarrow> (string + 'c pooled_conn) \<Rightarrow> 'c engine \<Rightarrow> 'c engine" where
  "post_create_conn cid created s =
     (let s = complete_open_effect cid s
      in case created of
           Inl e \<Rightarrow>
             if pool_open s then
               (case position growth_error_target (requests s) of
                  Some p \<Rightarrow> wake_waiters (upd_request p (\<lambda>r. r\<lparr>bg_processing := False, req_error := Some e\<rparr>) s)
                | None \<Rightarrow> s)
             else s
         | Inr c \<Rightarrow>
             if \<not> pool_open s then notify_bg (s\<lparr>to_drop := to_drop s @ [c]\<rparr>)
             else
               let open_count = min (active_open_count s + 1) 4294967295;
                   (rs, given, woke) = offer_created (cfg_max (config s)) open_count c (requests s);
                   s = s\<lparr>requests := rs\<rparr>;
                   s = (if woke then wake_waiters s else s)
               in if given then s else wake_waiters (s\<lparr>free_new := free_new s @ [c]\<rparr>))"

text \<open>\<^verbatim>\<open>return_connection_helper\<close>.\<close>

fun offer_returned :: "'c pooled_conn \<Rightarrow> 'c request list \<Rightarrow> 'c request list option" where
  "offer_returned c [] = None"
| "offer_returned c (r # rs) =
     (if in_progress r \<or> wants_new r \<or> req_conn r \<noteq> None \<or> \<not> waiting r \<or> completed r \<or> req_error r \<noteq> None
      then map_option (Cons r) (offer_returned c rs)
      else if req_cclass r = None \<or> req_cclass r = conn_cclass c
      then Some (r\<lparr>req_conn := Some c, completed := True, bg_processing := False\<rparr> # rs)
      else map_option (Cons r) (offer_returned c rs))"

definition return_connection_helper :: "'c env \<Rightarrow> 'c pooled_conn \<Rightarrow> bool \<Rightarrow> 'c engine \<Rightarrow> 'c engine" where
  "return_connection_helper env c is_open s =
     (if \<not> is_open then drop_conn c s
      else if is_pool_extra c \<and> min (active_open_count s + 1) 4294967295 > cfg_max (config s)
      then drop_conn (c\<lparr>is_pool_extra := False\<rparr>) s
      else
        let c = c\<lparr>is_pool_extra := False, time_returned := now env\<rparr>;
            max_lifetime = max_lifetime_session_secs (config s)
        in if max_lifetime \<noteq> 0 \<and> elapsed env (time_created c) > from_secs max_lifetime then drop_conn c s
           else
             (case offer_returned c (requests s) of
                Some rs \<Rightarrow> wake_waiters (s\<lparr>requests := rs\<rparr>)
              | None \<Rightarrow> s\<lparr>free_used := free_used s @ [c]\<rparr>))"

text \<open>
  The idle sweep of one free list, given by its field and the update that drops its head. The
  boolean says that the sweep returned because the pool is at its minimum.
\<close>

function sweep_new :: "'c env \<Rightarrow> nat \<Rightarrow> 'c engine \<Rightarrow> bool \<times> 'c engine" where
  "sweep_new env limit s =
     (if active_open_count s \<le> cfg_min (config s) then (True, s)
      else case free_new s of
        [] \<Rightarrow> (False, s)
      | c # rest \<Rightarrow>
          if elapsed env (time_returned c) < limit then (False, s)
          else sweep_new env limit (drop_conn c (s\<lparr>free_new := rest\<rparr>)))"
  by pat_completeness auto
termination
  by (relation "measure (\<lambda>(env, limit, s). length (free_new s))") auto

function sweep_used :: "'c env \<Rightarrow> nat \<Rightarrow> 'c engine \<Rightarrow> bool \<times> 'c engine" where
  "sweep_used env limit s =
     (if active_open_count s \<le> cfg_min (config s) then (True, s)
      else case free_used s of
        [] \<Rightarrow> (False, s)
      | c # rest \<Rightarrow>
          if elapsed env (time_returned c) < limit then (False, s)
          else sweep_used env limit (drop_conn c (s\<lparr>free_used := rest\<rparr>)))"
  by pat_completeness auto
termination
  by (relation "measure (\<lambda>(env, limit, s). length (free_used s))") auto

declare sweep_new.simps [simp del] sweep_used.simps [simp del]

definition sweep_idle_timeout :: "'c env \<Rightarrow> 'c engine \<Rightarrow> 'c engine" where
  "sweep_idle_timeout env s =
     (if timeout_secs (config s) = 0 then s
      else
        let limit = from_secs (timeout_secs (config s))
        in case sweep_new env limit s of
             (True, s) \<Rightarrow> s
           | (False, s) \<Rightarrow> snd (sweep_used env limit s))"

subsection \<open>Returning, dropping and closing\<close>

fun drain_returns :: "'c env \<Rightarrow> nat list \<Rightarrow> 'c engine \<Rightarrow> 'c engine" where
  "drain_returns env [] s = s"
| "drain_returns env (cid # cids) s =
     drain_returns env cids
       (if \<not> pool_open s then s
        else case position (\<lambda>c. conn_id c = cid) (busy s) of
          None \<Rightarrow> s
        | Some i \<Rightarrow>
            return_connection_helper env (busy s ! i) (connection_is_open env (conn (busy s ! i)))
              (s\<lparr>busy := remove_nth i (busy s)\<rparr>))"

definition drain_drop_returns :: "'c env \<Rightarrow> 'c engine \<Rightarrow> bool \<times> 'c engine" where
  "drain_drop_returns env s =
     (drop_returns s \<noteq> [], drain_returns env (drop_returns s) (s\<lparr>drop_returns := []\<rparr>))"

definition drain_and_wake :: "'c env \<Rightarrow> 'c engine \<Rightarrow> 'c engine" where
  "drain_and_wake env s =
     (let (drained, s) = drain_drop_returns env s in if drained then wake_waiters s else s)"

definition enqueue_drop_return :: "nat \<Rightarrow> 'c engine \<Rightarrow> 'c engine" where
  "enqueue_drop_return cid s = wake_waiters (notify_bg (s\<lparr>drop_returns := drop_returns s @ [cid]\<rparr>))"

definition acquire_start :: "'c env \<Rightarrow> acquire_options \<Rightarrow> 'c engine \<Rightarrow> (pool_error + nat) \<times> 'c engine" where
  "acquire_start env opts s = enqueue_request opts (drain_and_wake env s)"

definition return_connection_impl :: "'c env \<Rightarrow> nat \<Rightarrow> 'c engine \<Rightarrow> (pool_error + unit) \<times> 'c engine" where
  "return_connection_impl env cid s =
     (let s = snd (drain_drop_returns env s)
      in if \<not> pool_open s then (Inr (), s)
         else case position (\<lambda>c. conn_id c = cid) (busy s) of
           None \<Rightarrow> (Inl ConnectionNotAcquired, s)
         | Some i \<Rightarrow>
             (Inr (), wake_waiters
               (return_connection_helper env (busy s ! i) (connection_is_open env (conn (busy s ! i)))
                  (s\<lparr>busy := remove_nth i (busy s)\<rparr>))))"

definition drop_connection_impl :: "'c env \<Rightarrow> nat \<Rightarrow> 'c engine \<Rightarrow> (pool_error + unit) \<times> 'c engine" where
  "drop_connection_impl env cid s =
     (let s = snd (drain_drop_returns env s)
      in if \<not> pool_open s then (Inr (), s)
         else case position (\<lambda>c. conn_id c = cid) (busy s) of
           None \<Rightarrow> (Inr (), s)
         | Some i \<Rightarrow>
             (Inr (), wake_waiters (drop_conn (busy s ! i) (s\<lparr>busy := remove_nth i (busy s)\<rparr>))))"

definition request_conns :: "'c request list \<Rightarrow> 'c pooled_conn list" where
  "request_conns rs = List.map_filter req_conn rs"

definition request_worker_shutdown_locked :: "'c engine \<Rightarrow> 'c engine" where
  "request_worker_shutdown_locked s =
     wake_waiters (notify_bg (s\<lparr>pool_open := False, reaper_stop := True, open_effects := [],
       free_new := [], free_used := [], busy := [],
       to_drop := to_drop s @ free_new s @ free_used s @ busy s @ request_conns (requests s),
       requests := map (\<lambda>r. r\<lparr>waiting := False, req_conn := None\<rparr>) (filter in_progress (requests s))\<rparr>))"

definition request_worker_shutdown :: "'c env \<Rightarrow> bool \<Rightarrow> 'c engine \<Rightarrow> (pool_error + unit) \<times> 'c engine" where
  "request_worker_shutdown env force s =
     (let s = drain_and_wake env s
      in if \<not> pool_open s then (Inr (), wake_waiters (notify_bg s))
         else if \<not> force \<and> (busy s \<noteq> [] \<or> (\<exists>r\<in>set (requests s). waiting r))
         then (Inl HasBusyConnections, s)
         else (Inr (), request_worker_shutdown_locked s))"

definition close_all_connections :: "'c engine \<Rightarrow> 'c engine" where
  "close_all_connections s =
     fold close_connection
       (free_new s @ free_used s @ busy s @ to_drop s @ request_conns (requests s))
       (s\<lparr>pool_open := False, reaper_stop := True, free_new := [], free_used := [], busy := [],
          to_drop := [], requests := map (\<lambda>r. r\<lparr>req_conn := None\<rparr>) (requests s)\<rparr>)"

definition set_getmode :: "nat \<Rightarrow> 'c engine \<Rightarrow> 'c engine" where
  "set_getmode value s =
     (if getmode (config s) \<noteq> value
      then s\<lparr>config := (config s)\<lparr>getmode := value\<rparr>,
             force_get := (value = POOL_GETMODE_FORCEGET),
             wait_timeout_ms := (if value = POOL_GETMODE_TIMEDWAIT then Some 0 else None)\<rparr>
      else s)"

definition set_wait_timeout_ms :: "nat \<Rightarrow> 'c engine \<Rightarrow> 'c engine" where
  "set_wait_timeout_ms value s =
     s\<lparr>wait_timeout_ms := (if getmode (config s) = POOL_GETMODE_TIMEDWAIT then Some value else None)\<rparr>"

definition set_timeout_secs :: "nat \<Rightarrow> 'c engine \<Rightarrow> 'c engine" where
  "set_timeout_secs value s = notify_bg (s\<lparr>config := (config s)\<lparr>timeout_secs := value\<rparr>\<rparr>)"

definition set_max_lifetime_session_secs :: "nat \<Rightarrow> 'c engine \<Rightarrow> 'c engine" where
  "set_max_lifetime_session_secs value s =
     s\<lparr>config := (config s)\<lparr>max_lifetime_session_secs := value\<rparr>\<rparr>"

definition set_ping_interval_secs :: "int \<Rightarrow> 'c engine \<Rightarrow> 'c engine" where
  "set_ping_interval_secs value s = s\<lparr>config := (config s)\<lparr>ping_interval_secs := value\<rparr>\<rparr>"

definition start_engine :: "pool_config \<Rightarrow> 'c engine" where
  "start_engine cfg =
     schedule_open_effects (cfg_min cfg)
       \<lparr>pool_open = True, config = cfg, force_get = (getmode cfg = POOL_GETMODE_FORCEGET),
        wait_timeout_ms = (if getmode cfg = POOL_GETMODE_TIMEDWAIT then Some (cfg_wait_timeout_ms cfg) else None),
        free_new = [], free_used = [], busy = [], to_drop = [], requests = [], open_effects = [],
        in_flight_open_effects = [], next_conn_id = 1, next_request_id = 1, drop_returns = [],
        bg_permit = False, wakeups = 0, reaper_stop = False, calls = []\<rparr>"


subsection \<open>One iteration of the worker\<close>

text \<open>\<^verbatim>\<open>process_request\<close>: the work taken under the lock, and the two ways it ends.\<close>

datatype 'c work =
    WPing "'c pooled_conn" nat
  | WCreate nat "string option" bool "'c pooled_conn option"
  | WNothing

definition mk_conn :: "'c env \<Rightarrow> nat \<Rightarrow> 'c \<Rightarrow> string option \<Rightarrow> bool \<Rightarrow> 'c pooled_conn" where
  "mk_conn env cid x cclass extra =
     \<lparr>conn_id = cid, conn = x, conn_cclass = cclass, time_created = now env, time_returned = now env,
      is_pool_extra = extra, ever_acquired = False\<rparr>"

definition process_begin :: "nat \<Rightarrow> 'c engine \<Rightarrow> 'c work \<times> 'c engine" where
  "process_begin rid s =
     (case request_position rid s of
        None \<Rightarrow> (WNothing, s)
      | Some p \<Rightarrow>
          let r = requests s ! p
          in if requires_ping r then
               (case req_conn r of
                  Some c \<Rightarrow> (WPing c (ping_timeout_ms (config s)), upd_request p (\<lambda>r. r\<lparr>req_conn := None\<rparr>) s)
                | None \<Rightarrow> (WNothing, s))
             else if is_replacing r \<or> is_extra r \<or> \<not> cclass_matches r then
               (WCreate (next_conn_id s) (req_cclass r) (is_extra r) (req_conn r),
                (upd_request p (\<lambda>r. r\<lparr>req_conn := None\<rparr>) s)\<lparr>next_conn_id := next_conn_id s + 1\<rparr>)
             else (WNothing, s))"

definition process_ping :: "nat \<Rightarrow> 'c pooled_conn \<Rightarrow> bool \<Rightarrow> 'c engine \<Rightarrow> 'c engine" where
  "process_ping rid c healthy s =
     (if healthy then
        (case request_position rid s of
           Some p \<Rightarrow> attach_conn p c s
         | None \<Rightarrow> s\<lparr>calls := calls s @ [CallDropped (conn_id c)]\<rparr>)
      else close_connection c s)"

definition log_created :: "nat \<Rightarrow> string + 'c \<Rightarrow> 'c engine \<Rightarrow> 'c engine" where
  "log_created cid result s =
     (case result of Inr _ \<Rightarrow> s\<lparr>calls := calls s @ [CallCreated cid]\<rparr> | Inl _ \<Rightarrow> s)"

definition deliver_created ::
  "'c env \<Rightarrow> nat \<Rightarrow> nat \<Rightarrow> string option \<Rightarrow> bool \<Rightarrow> string + 'c \<Rightarrow> 'c engine \<Rightarrow> 'c engine" where
  "deliver_created env rid cid cclass extra result s =
     (case request_position rid s of
        None \<Rightarrow>
          (case result of
             Inr x \<Rightarrow> notify_bg (s\<lparr>to_drop := to_drop s @ [mk_conn env cid x cclass False]\<rparr>)
           | Inl _ \<Rightarrow> s)
      | Some p \<Rightarrow>
          (case result of
             Inr x \<Rightarrow> attach_conn p (mk_conn env cid x cclass extra) s
           | Inl e \<Rightarrow> upd_request p (\<lambda>r. r\<lparr>req_error := Some e\<rparr>) s))"

definition process_create ::
  "'c env \<Rightarrow> nat \<Rightarrow> nat \<Rightarrow> string option \<Rightarrow> bool \<Rightarrow> 'c pooled_conn option \<Rightarrow> string + 'c \<Rightarrow> 'c engine \<Rightarrow> 'c engine" where
  "process_create env rid cid cclass extra replaced result s =
     (let s = log_created cid result s;
          s = (case replaced of Some old \<Rightarrow> drop_conn old s | None \<Rightarrow> s)
      in deliver_created env rid cid cclass extra result s)"

text \<open>The growth block: the effect moved to the in-flight queue and the connection to create.\<close>

definition grow_begin :: "'c engine \<Rightarrow> pool_effect option \<times> 'c engine" where
  "grow_begin s =
     (if pool_open s then
        let s = (case open_effects s of
                   [] \<Rightarrow> s
                 | e # es \<Rightarrow> s\<lparr>open_effects := es, in_flight_open_effects := in_flight_open_effects s @ [e]\<rparr>)
        in (if in_flight_open_effects s = [] then None else Some (last (in_flight_open_effects s)), s)
      else (None, s))"

definition grow_finish :: "'c env \<Rightarrow> nat \<Rightarrow> string option \<Rightarrow> string + 'c \<Rightarrow> 'c engine \<Rightarrow> 'c engine" where
  "grow_finish env cid cclass result s =
     post_create_conn cid (map_sum id (\<lambda>x. mk_conn env cid x cclass False) result) (log_created cid result s)"

text \<open>
  The control points of \<^verbatim>\<open>reaper_main\<close> between its lock sections, with what the worker holds
  there. Client calls interleave at every point.
\<close>

datatype 'c reaper_pc =
    PTop "nat option"
  | PProcess nat
  | PWork nat "'c work"
  | PPost nat
  | PGrow
  | PCreate nat "string option"
  | PDrop
  | PClose "'c pooled_conn"
  | PSweep
  | PExit

definition reaper_top :: "'c env \<Rightarrow> nat option \<Rightarrow> 'c engine \<Rightarrow> 'c reaper_pc \<times> 'c engine" where
  "reaper_top env current s =
     (let s = snd (drain_drop_returns env s);
          opened = pool_open s;
          (current, s) = (if current = None \<and> opened then get_next_request s else (current, s))
      in case current of
           Some rid \<Rightarrow> (if opened then PProcess rid else PGrow, s)
         | None \<Rightarrow> (PGrow, s))"

definition reaper_post :: "nat \<Rightarrow> 'c engine \<Rightarrow> 'c reaper_pc \<times> 'c engine" where
  "reaper_post rid s =
     (let (current, s) = get_next_request (post_process_request rid s) in (PTop current, s))"

definition reaper_grow :: "'c engine \<Rightarrow> 'c reaper_pc \<times> 'c engine" where
  "reaper_grow s =
     (case grow_begin s of
        (Some (Open cid _), s) \<Rightarrow> (PCreate cid (creation_cclass (config s)), s)
      | (_, s) \<Rightarrow> (PDrop, s))"

definition reaper_drop :: "'c engine \<Rightarrow> 'c reaper_pc \<times> 'c engine" where
  "reaper_drop s =
     (if to_drop s = [] then (PSweep, s)
      else (PClose (last (to_drop s)), s\<lparr>to_drop := butlast (to_drop s)\<rparr>))"

definition reaper_sweep :: "'c env \<Rightarrow> 'c engine \<Rightarrow> 'c reaper_pc \<times> 'c engine" where
  "reaper_sweep env s =
     (let s = sweep_idle_timeout env s
      in (if (\<not> pool_open s \<or> reaper_stop s) \<and> to_drop s = [] then PExit else PTop None, s))"

inductive engine_step :: "'c reaper_pc \<times> 'c engine \<Rightarrow> 'c reaper_pc \<times> 'c engine \<Rightarrow> bool" where
  top: "engine_step (PTop current, s) (reaper_top env current s)"
| cancelled: "engine_step (PTop current, s) (PExit, s)"
| process: "process_begin rid s = (w, s') \<Longrightarrow> engine_step (PProcess rid, s) (PWork rid w, s')"
| no_work: "engine_step (PWork rid WNothing, s) (PPost rid, s)"
| ping: "engine_step (PWork rid (WPing c t), s) (PPost rid, process_ping rid c healthy s)"
| create: "engine_step (PWork rid (WCreate cid cclass extra replaced), s)
    (PPost rid, process_create env rid cid cclass extra replaced result s)"
| post: "engine_step (PPost rid, s) (reaper_post rid s)"
| grow: "engine_step (PGrow, s) (reaper_grow s)"
| grown: "engine_step (PCreate cid cclass, s) (PTop None, grow_finish env cid cclass result s)"
| drop: "engine_step (PDrop, s) (reaper_drop s)"
| close: "engine_step (PClose c, s) (PTop None, close_connection c s)"
| sweep: "engine_step (PSweep, s) (reaper_sweep env s)"
| acquire: "engine_step (pc, s) (pc, snd (acquire_start env opts s))"
| poll: "engine_step (pc, s) (pc, snd (poll_request_completion env rid s))"
| abandon: "engine_step (pc, s) (pc, wake_waiters (abandon_request rid s))"
| guard_drop: "engine_step (pc, s) (pc, enqueue_drop_return cid s)"
| return_conn: "engine_step (pc, s) (pc, snd (return_connection_impl env cid s))"
| drop_connection: "engine_step (pc, s) (pc, snd (drop_connection_impl env cid s))"
| drain: "engine_step (pc, s) (pc, drain_and_wake env s)"
| shutdown: "engine_step (pc, s) (pc, snd (request_worker_shutdown env force s))"
| close_all: "engine_step (pc, s) (pc, close_all_connections s)"
| getmode_set: "engine_step (pc, s) (pc, set_getmode value s)"
| wait_timeout_set: "engine_step (pc, s) (pc, set_wait_timeout_ms value s)"
| timeout_set: "engine_step (pc, s) (pc, set_timeout_secs value s)"
| max_lifetime_set: "engine_step (pc, s) (pc, set_max_lifetime_session_secs value s)"
| ping_interval_set: "engine_step (pc, s) (pc, set_ping_interval_secs interval s)"

definition engine_init :: "'c reaper_pc \<times> 'c engine \<Rightarrow> bool" where
  "engine_init x \<longleftrightarrow> (\<exists>cfg. x = (PTop None, start_engine cfg))"

end
