(* ===== verification/Pool_Ledger.thy ===== *)
theory Pool_Ledger
  imports Pool_Engine
begin

text \<open>
  The ledger of the pool engine: where every connection is. Each handler of \<open>Pool_Engine\<close> is shown
  to move connections between the lists of the pool, the requests and the worker's hands without
  duplicating or losing one, identifiers are issued once, and the worker's control points carry what
  they hold. The ledger is an invariant of the whole engine, the worker interleaved with every
  client call.
\<close>

subsection \<open>Where the connections are\<close>

definition ids :: "'c pooled_conn list \<Rightarrow> nat multiset" where
  "ids cs = mset (map conn_id cs)"

definition rconn :: "'c request \<Rightarrow> nat multiset" where
  "rconn r = (case req_conn r of None \<Rightarrow> {#} | Some c \<Rightarrow> {#conn_id c#})"

definition rconns :: "'c request list \<Rightarrow> nat multiset" where
  "rconns rs = sum_list (map rconn rs)"

lemma ids_simps [simp]:
  "ids [] = {#}" "ids (c # cs) = add_mset (conn_id c) (ids cs)" "ids (cs @ ds) = ids cs + ids ds"
  by (simp_all add: ids_def)

lemma rconns_simps [simp]:
  "rconns [] = {#}" "rconns (r # rs) = rconn r + rconns rs" "rconns (rs @ qs) = rconns rs + rconns qs"
  by (simp_all add: rconns_def)

lemma ids_request_conns [simp]: "ids (request_conns rs) = rconns rs"
  by (induction rs) (auto simp: request_conns_def map_filter_simps rconn_def split: option.splits)

lemma ids_remove_nth: "i < length cs \<Longrightarrow> add_mset (conn_id (cs ! i)) (ids (remove_nth i cs)) = ids cs"
proof (induction cs arbitrary: i)
  case (Cons c cs)
  then show ?case by (cases i) (auto simp: remove_nth_def)
qed simp

lemma ids_butlast: "cs \<noteq> [] \<Longrightarrow> add_mset (conn_id (last cs)) (ids (butlast cs)) = ids cs"
  by (induction cs) auto

lemma rconns_remove_nth: "i < length rs \<Longrightarrow> rconns (remove_nth i rs) + rconn (rs ! i) = rconns rs"
proof (induction rs arbitrary: i)
  case (Cons r rs)
  then show ?case by (cases i) (auto simp: remove_nth_def ac_simps)
qed simp

lemma rconns_update: "i < length rs \<Longrightarrow> rconns (rs[i := r]) + rconn (rs ! i) = rconns rs + rconn r"
proof (induction rs arbitrary: i)
  case (Cons q rs)
  then show ?case by (cases i) (auto simp: ac_simps)
qed simp

text \<open>The backend's record: connections created, and connections closed or dropped.\<close>

definition created :: "'c engine \<Rightarrow> nat multiset" where
  "created s = mset (List.map_filter (\<lambda>c. case c of CallCreated i \<Rightarrow> Some i | _ \<Rightarrow> None) (calls s))"

definition gone :: "'c engine \<Rightarrow> nat multiset" where
  "gone s = mset (List.map_filter (\<lambda>c. case c of CallClosed i \<Rightarrow> Some i | CallDropped i \<Rightarrow> Some i | _ \<Rightarrow> None) (calls s))"

definition pooled :: "'c engine \<Rightarrow> nat multiset" where
  "pooled s = ids (free_new s) + ids (free_used s) + ids (busy s) + ids (to_drop s) + rconns (requests s)"

lemma calls_simps:
  "created (s\<lparr>calls := calls s @ [CallCreated i]\<rparr>) = add_mset i (created s)"
  "created (s\<lparr>calls := calls s @ [CallClosed i]\<rparr>) = created s"
  "created (s\<lparr>calls := calls s @ [CallDropped i]\<rparr>) = created s"
  "gone (s\<lparr>calls := calls s @ [CallCreated i]\<rparr>) = gone s"
  "gone (s\<lparr>calls := calls s @ [CallClosed i]\<rparr>) = add_mset i (gone s)"
  "gone (s\<lparr>calls := calls s @ [CallDropped i]\<rparr>) = add_mset i (gone s)"
  by (simp_all add: created_def gone_def map_filter_simps map_filter_def)

text \<open>
  \<open>moves A s s'\<close>: the step from \<open>s\<close> to \<open>s'\<close> keeps every connection, taking in those of
  \<open>A\<close>; creates nothing; leaves the effects in flight; and issues fresh identifiers only as new
  open effects.
\<close>

definition moves :: "nat multiset \<Rightarrow> 'c engine \<Rightarrow> 'c engine \<Rightarrow> bool" where
  "moves A s s' \<longleftrightarrow> pooled s' + gone s' = pooled s + gone s + A \<and> created s' = created s \<and>
     in_flight_open_effects s' = in_flight_open_effects s \<and>
     (\<exists>n. next_conn_id s' = next_conn_id s + n \<and>
          open_effects s' = open_effects s @ map (\<lambda>i. Open i None) [next_conn_id s..<next_conn_id s + n])"

lemma moves_trans:
  assumes "moves A s t" "moves B t u"
  shows "moves (A + B) s u"
proof -
  obtain n where n: "next_conn_id t = next_conn_id s + n"
      "open_effects t = open_effects s @ map (\<lambda>i. Open i None) [next_conn_id s..<next_conn_id s + n]"
    using assms(1) by (auto simp: moves_def)
  obtain m where m: "next_conn_id u = next_conn_id t + m"
      "open_effects u = open_effects t @ map (\<lambda>i. Open i None) [next_conn_id t..<next_conn_id t + m]"
    using assms(2) by (auto simp: moves_def)
  have "[next_conn_id s..<next_conn_id s + (n + m)] =
      [next_conn_id s..<next_conn_id s + n] @ [next_conn_id t..<next_conn_id t + m]"
    using upt_add_eq_append [of "next_conn_id s" "next_conn_id s + n" m] n(1) by (simp add: add.assoc)
  then show ?thesis
    using assms n m by (auto simp: moves_def ac_simps intro!: exI [of _ "n + m"])
qed

lemma moves_refl [simp]: "moves {#} s s"
  by (auto simp: moves_def)

lemma moves_trans0: "moves A s t \<Longrightarrow> moves {#} t u \<Longrightarrow> moves A s u"
  using moves_trans [of A s t "{#}" u] by simp

lemma moves_trans00: "moves {#} s t \<Longrightarrow> moves A t u \<Longrightarrow> moves A s u"
  using moves_trans [of "{#}" s t A u] by simp

lemma movesI:
  "pooled s' = pooled s + A \<Longrightarrow> calls s' = calls s \<Longrightarrow>
   in_flight_open_effects s' = in_flight_open_effects s \<Longrightarrow> open_effects s' = open_effects s \<Longrightarrow>
   next_conn_id s' = next_conn_id s \<Longrightarrow> moves A s s'"
  by (auto simp: moves_def gone_def created_def ac_simps)


subsection \<open>Every handler moves connections\<close>

lemma moves_notify: "moves {#} s (notify_bg s)" "moves {#} s (wake_waiters s)"
  by (auto intro!: movesI simp: notify_bg_def wake_waiters_def pooled_def)

lemma moves_notify_iff [simp]:
  "moves A s (notify_bg t) = moves A s t" "moves A s (wake_waiters t) = moves A s t"
  by (simp_all add: moves_def notify_bg_def wake_waiters_def pooled_def gone_def created_def)

lemma moves_schedule: "moves {#} s (schedule_open_effects n s)"
proof (induction n s rule: schedule_open_effects.induct)
  case (2 n s)
  let ?t = "s\<lparr>next_conn_id := next_conn_id s + 1, open_effects := open_effects s @ [Open (next_conn_id s) None]\<rparr>"
  have "moves {#} s ?t" by (auto simp: moves_def pooled_def gone_def created_def intro!: exI [of _ 1])
  then show ?case using 2 moves_trans0 by (metis schedule_open_effects.simps(2))
qed simp

lemma moves_ensure_min: "moves {#} s (ensure_min_connections s)"
  by (simp add: ensure_min_connections_def moves_schedule)

lemma moves_drop_conn: "moves {#conn_id c#} s (drop_conn c s)"
proof -
  have "moves {#conn_id c#} s (s\<lparr>to_drop := to_drop s @ [c]\<rparr>)" by (rule movesI) (simp_all add: pooled_def)
  then show ?thesis using moves_trans0 [OF _ moves_ensure_min] by (simp add: drop_conn_def)
qed

lemma moves_reject: "moves (rconn r) s (reject r s)"
  by (cases "req_conn r") (auto simp: reject_def rconn_def intro!: movesI simp: pooled_def)

lemma request_positionD: "request_position rid s = Some p \<Longrightarrow> p < length (requests s) \<and> req_id (requests s ! p) = rid"
  by (auto simp: request_position_def dest: position_SomeD)

lemma moves_upd_request:
  assumes "p < length (requests s)" "\<And>r. req_conn (f r) = req_conn r"
  shows "moves {#} s (upd_request p f s)"
proof (rule movesI)
  show "pooled (upd_request p f s) = pooled s + {#}"
    using rconns_update [OF assms(1), of "f (requests s ! p)"] assms(2)
    by (simp add: upd_request_def pooled_def rconn_def)
qed (simp_all add: upd_request_def)

lemma moves_set_request: "(\<And>r. req_conn (f r) = req_conn r) \<Longrightarrow> moves {#} s (set_request rid f s)"
  by (auto simp: set_request_def split: option.splits intro!: moves_upd_request dest: request_positionD)

lemma moves_take_conn:
  assumes "p < length (requests s)"
  shows "pooled (upd_request p (\<lambda>r. r\<lparr>req_conn := None\<rparr>) s) + rconn (requests s ! p) = pooled s"
  using rconns_update [OF assms, of "(requests s ! p)\<lparr>req_conn := None\<rparr>"]
  by (simp add: upd_request_def pooled_def rconn_def ac_simps)

lemma moves_attach:
  assumes "p < length (requests s)"
  shows "moves {#conn_id c#} s (attach_conn p c s)"
proof (cases "req_conn (requests s ! p)")
  case None
  have "rconns ((requests s)[p := (requests s ! p)\<lparr>req_conn := Some c\<rparr>]) = rconns (requests s) + {#conn_id c#}"
    using rconns_update [OF assms, of "(requests s ! p)\<lparr>req_conn := Some c\<rparr>"] None by (simp add: rconn_def)
  then show ?thesis
    by (intro movesI) (simp_all add: attach_conn_def None upd_request_def pooled_def)
next
  case (Some old)
  have "rconns ((requests s)[p := (requests s ! p)\<lparr>req_conn := Some c\<rparr>]) + {#conn_id old#} =
      rconns (requests s) + {#conn_id c#}"
    using rconns_update [OF assms, of "(requests s ! p)\<lparr>req_conn := Some c\<rparr>"] Some by (simp add: rconn_def)
  moreover let ?t = "s\<lparr>calls := calls s @ [CallDropped (conn_id old)]\<rparr>"
  have "gone (upd_request p f ?t) = gone ?t" "created (upd_request p f ?t) = created ?t" for f
    by (simp_all add: upd_request_def gone_def created_def)
  ultimately show ?thesis
    by (auto simp: moves_def attach_conn_def Some upd_request_def pooled_def calls_simps
        intro!: exI [of _ 0])
qed

lemma attach_simps [simp]:
  "length (requests (attach_conn p c s)) = length (requests s)"
  by (simp add: attach_conn_def upd_request_def split: option.splits)

lemma moves_add_request_for_bg: "moves {#} s (add_request_for_bg rid s)"
  by (auto simp: add_request_for_bg_def split: option.splits intro!: moves_upd_request dest: request_positionD)

lemma moves_remove_request:
  assumes "p < length (requests s)"
  shows "pooled (s\<lparr>requests := remove_nth p (requests s)\<rparr>) + rconn (requests s ! p) = pooled s"
  using rconns_remove_nth [OF assms] by (simp add: pooled_def ac_simps)

lemma moves_remove_reject:
  assumes "p < length (requests s)"
  shows "moves {#} s (reject (requests s ! p) (s\<lparr>requests := remove_nth p (requests s)\<rparr>))"
proof -
  let ?t = "s\<lparr>requests := remove_nth p (requests s)\<rparr>"
  have t: "pooled ?t + rconn (requests s ! p) = pooled s" by (rule moves_remove_request) fact
  have "calls ?t = calls s" "in_flight_open_effects ?t = in_flight_open_effects s"
      "open_effects ?t = open_effects s" "next_conn_id ?t = next_conn_id s" by simp_all
  then show ?thesis
    using moves_reject [of "requests s ! p" ?t] t
    by (auto simp: moves_def gone_def created_def ac_simps)
qed

lemma moves_abandon: "moves {#} s (abandon_request rid s)"
proof (cases "request_position rid s")
  case (Some p)
  let ?t = "upd_request p (\<lambda>r. r\<lparr>waiting := False\<rparr>) s"
  have p: "p < length (requests s)" using request_positionD [OF Some] by simp
  have "moves {#} s ?t" using p by (rule moves_upd_request) simp
  moreover have "p < length (requests ?t)" using p by (simp add: upd_request_def)
  ultimately show ?thesis
    using moves_remove_reject [of p ?t] moves_trans0
    by (auto simp: abandon_request_def Some Let_def)
qed (simp add: abandon_request_def)

lemma moves_check_connection: "moves {#conn_id c#} s (check_connection env rid c s)"
proof -
  have "moves {#conn_id c#} s (reject (orphan c) s)"
    using moves_reject [of "orphan c" s] by (simp add: rconn_def orphan_def new_request_def)
  moreover have "moves {#conn_id c#} s (upd_request p f (attach_conn p c s))"
    if "request_position rid s = Some p" "\<And>r. req_conn (f r) = req_conn r" for p f
    using that request_positionD [OF that(1)]
    by (intro moves_trans0 [OF moves_attach moves_upd_request]) auto
  ultimately show ?thesis
    by (auto simp: check_connection_def Let_def moves_drop_conn split: option.splits
        intro!: moves_trans0 [OF _ moves_add_request_for_bg])
qed


lemma moves_taken:
  assumes "add_mset i (pooled t) = pooled s" "calls t = calls s"
    "in_flight_open_effects t = in_flight_open_effects s" "open_effects t = open_effects s"
    "next_conn_id t = next_conn_id s" "moves {#i#} t u"
  shows "moves {#} s u"
  using assms by (auto simp: moves_def gone_def created_def)

lemma moves_scan_used: "ix \<le> length (free_used s) \<Longrightarrow> moves {#} s (snd (scan_used env rid cclass ix s))"
proof (induction env rid cclass ix s rule: scan_used.induct)
  case (2 env rid cclass i s)
  let ?s1 = "check_connection env rid (free_used s ! i) (s\<lparr>free_used := remove_nth i (free_used s)\<rparr>)"
  have m: "moves {#} s ?s1"
    using "2.prems" ids_remove_nth [of i "free_used s"]
    by (intro moves_taken [OF _ _ _ _ _ moves_check_connection]) (simp_all add: pooled_def)
  show ?case
  proof (cases "cclass = None \<or> conn_cclass (free_used s ! i) = cclass")
    case True
    then show ?thesis
      using m "2.IH"(2) [OF _ refl] moves_trans0 [OF m]
      by (auto simp: Let_def split: option.splits)
  next
    case False
    then show ?thesis using "2.IH"(1) "2.prems" by simp
  qed
qed simp

lemma moves_scan_new: "moves {#} s (snd (scan_new env rid s))"
proof (induction env rid s rule: scan_new.induct)
  case (1 env rid s)
  let ?s1 = "check_connection env rid (last (free_new s)) (s\<lparr>free_new := butlast (free_new s)\<rparr>)"
  show ?case
  proof (cases "free_new s = []")
    case False
    have m: "moves {#} s ?s1"
      using ids_butlast [OF False]
      by (intro moves_taken [OF _ _ _ _ _ moves_check_connection]) (simp_all add: pooled_def)
    then show ?thesis
      using False "1.IH" [OF False refl] moves_trans0 [OF m]
      by (auto simp: scan_new.simps [of env rid s] Let_def split: option.splits)
  qed (simp add: scan_new.simps)
qed

lemma moves_plan_growth: "moves {#} s (plan_growth wants cclass s)"
  by (simp add: plan_growth_def Let_def moves_schedule)

lemma moves_grow_or_replace: "moves {#} s (snd (grow_or_replace rid wants cclass matches s))"
proof -
  have a: "moves {#} s (add_request_for_bg rid t)" if "moves {#} s t" for t
    using moves_trans0 [OF that moves_add_request_for_bg] .
  have b: "moves {#} s (set_request rid f t)" if "moves {#} s t" "\<And>r. req_conn (f r) = req_conn r" for f t
    using moves_trans0 [OF that(1) moves_set_request [OF that(2)]] .
  have n: "moves {#} s (s\<lparr>free_new := butlast (free_new s), to_drop := to_drop s @ [last (free_new s)]\<rparr>)"
    if "free_new s \<noteq> []"
    using ids_butlast [OF that] by (intro movesI) (simp_all add: pooled_def)
  have u: "moves {#} s (s\<lparr>free_used := butlast (free_used s), to_drop := to_drop s @ [last (free_used s)]\<rparr>)"
    if "free_used s \<noteq> []"
    using ids_butlast [OF that] by (intro movesI) (simp_all add: pooled_def)
  show ?thesis
    unfolding grow_or_replace_def by (auto intro!: a b n u moves_plan_growth)
qed

lemma moves_fulfill: "moves {#} s (snd (fulfill env rid s))"
proof (cases "pool_open s \<and> request_position rid s \<noteq> None")
  case True
  then obtain p where p: "request_position rid s = Some p" by auto
  let ?r = "requests s ! p"
  let ?u = "if wants_new ?r then (None, s) else scan_used env rid (req_cclass ?r) (length (free_used s)) s"
  have u: "moves {#} s (snd ?u)" by (simp add: moves_scan_used)
  let ?n = "if cclass_matches ?r then scan_new env rid (snd ?u) else (None, snd ?u)"
  have n: "moves {#} s (snd ?n)" using u moves_trans0 [OF u moves_scan_new] by simp
  let ?g = "grow_or_replace rid (wants_new ?r) (req_cclass ?r) (cclass_matches ?r)
    (set_request rid (\<lambda>r. r\<lparr>requires_ping := False\<rparr>) (snd ?n))"
  have g: "moves {#} s (snd ?g)"
    by (rule moves_trans0 [OF moves_trans0 [OF n moves_set_request] moves_grow_or_replace]) simp
  have e: "moves {#} s (upd_request p (\<lambda>r. r\<lparr>req_error := None\<rparr>) s)"
    using request_positionD [OF p] by (intro moves_upd_request) simp_all
  show ?thesis
    using True p u n g e
    by (auto simp: fulfill_def Let_def split: option.splits prod.splits if_splits)
qed (auto simp: fulfill_def)

lemma moves_finish_completed: "moves {#} s (snd (finish_completed_request rid s))"
proof (cases "request_position rid s")
  case (Some p)
  then have p: "p < length (requests s)" by (simp add: request_positionD)
  show ?thesis
    using moves_remove_request [OF p]
    by (cases "req_conn (requests s ! p)")
       (auto simp: finish_completed_request_def Some Let_def rconn_def pooled_def intro!: movesI)
qed (simp add: finish_completed_request_def)

lemma moves_poll: "moves {#} s (snd (poll_request_completion env rid s))"
proof -
  obtain r t where f: "fulfill env rid s = (r, t)" by force
  have t: "moves {#} s t" using moves_fulfill [of s env rid] f by simp
  show ?thesis
    using t moves_trans0 [OF t moves_finish_completed [of t rid]] moves_trans0 [OF t moves_abandon [of t rid]]
    by (auto simp: poll_request_completion_def f split: sum.splits bool.splits prod.splits)
qed

lemma moves_enqueue: "moves {#} s (snd (enqueue_request opts s))"
  by (auto simp: enqueue_request_def Let_def new_request_def rconn_def pooled_def intro!: movesI)

lemma moves_get_next: "moves {#} s (snd (get_next_request s))"
  by (auto simp: get_next_request_def split: option.splits intro!: moves_set_request)

lemma moves_post_process: "moves {#} s (post_process_request rid s)"
proof (cases "request_position rid s")
  case (Some p)
  then have p: "p < length (requests s)" by (simp add: request_positionD)
  let ?s = "upd_request p (\<lambda>r. r\<lparr>in_progress := False, bg_processing := False\<rparr>) s"
  have l: "p < length (requests ?s)" using p by (simp add: upd_request_def)
  have m: "moves {#} s ?s" using p by (rule moves_upd_request) simp
  let ?c = "upd_request p (\<lambda>r. r\<lparr>completed := True\<rparr>) ?s"
  have lc: "p < length (requests ?c)" using p by (simp add: upd_request_def)
  have c: "moves {#} s ?c" using l by (intro moves_trans0 [OF m moves_upd_request]) simp_all
  have r: "moves {#} s (reject (requests ?c ! p) (?c\<lparr>requests := remove_nth p (requests ?c)\<rparr>))"
    by (rule moves_trans0 [OF c moves_remove_reject [OF lc]])
  let ?e = "if requires_ping (requests ?s ! p) then ensure_min_connections ?s else ?s"
  have e: "moves {#} s ?e" using m moves_trans0 [OF m moves_ensure_min] by simp
  have er: "requests ?e = requests ?s" by (simp add: ensure_min_connections_def)
  have d: "moves {#} s (?e\<lparr>requests := remove_nth p (requests ?e)\<rparr>)" if "req_conn (requests ?s ! p) = None"
  proof -
    have "moves {#} ?e (?e\<lparr>requests := remove_nth p (requests ?e)\<rparr>)"
      using moves_remove_request [of p ?e] l er that by (intro movesI) (simp_all add: rconn_def)
    then show ?thesis by (rule moves_trans0 [OF e])
  qed
  show ?thesis
    unfolding post_process_request_def Some Let_def option.case
    using r c d e by auto
qed (simp add: post_process_request_def)


lemma moves_return_helper: "moves {#conn_id c#} s (return_connection_helper env c is_open s)"
proof -
  have offer: "rconns rs' = rconns rs + {#conn_id d#}" if "offer_returned d rs = Some rs'" for d :: "'a pooled_conn" and rs rs'
    using that by (induction d rs arbitrary: rs' rule: offer_returned.induct)
      (auto simp: rconn_def split: if_splits)
  have drop: "moves {#conn_id c#} s (drop_conn d s)" if "conn_id d = conn_id c" for d
    using moves_drop_conn [of d s] that by simp
  show ?thesis
    using offer [of "c\<lparr>is_pool_extra := False, time_returned := now env\<rparr>" "requests s"]
    by (auto simp: return_connection_helper_def Let_def drop pooled_def intro!: movesI split: option.splits)
qed

lemma moves_drain_returns: "moves {#} s (drain_returns env cids s)"
proof (induction cids arbitrary: s)
  case (Cons cid cids)
  let ?t = "if \<not> pool_open s then s
        else case position (\<lambda>c. conn_id c = cid) (busy s) of
          None \<Rightarrow> s
        | Some i \<Rightarrow>
            return_connection_helper env (busy s ! i) (connection_is_open env (conn (busy s ! i)))
              (s\<lparr>busy := remove_nth i (busy s)\<rparr>)"
  have "moves {#} s ?t"
    using ids_remove_nth [of _ "busy s"]
    by (auto split: option.splits dest!: position_SomeD simp: pooled_def
        intro!: moves_taken [OF _ _ _ _ _ moves_return_helper])
  then show ?case unfolding drain_returns.simps by (rule moves_trans0 [OF _ Cons])
qed simp

lemma moves_drain: "moves {#} s (snd (drain_drop_returns env s))"
proof -
  have "moves {#} s (s\<lparr>drop_returns := []\<rparr>)" by (intro movesI) (simp_all add: pooled_def)
  then show ?thesis using moves_drain_returns moves_trans0 by (fastforce simp: drain_drop_returns_def)
qed

lemma moves_drain_wake: "moves {#} s (drain_and_wake env s)"
  using moves_drain [of s env] by (auto simp: drain_and_wake_def split: prod.splits)

lemma moves_return_impl: "moves {#} s (snd (return_connection_impl env cid s))"
proof -
  let ?t = "snd (drain_drop_returns env s)"
  have "moves {#} ?t (return_connection_helper env (busy ?t ! i) b (?t\<lparr>busy := remove_nth i (busy ?t)\<rparr>))"
    if "position (\<lambda>c. conn_id c = cid) (busy ?t) = Some i" for i b
    using ids_remove_nth [of i "busy ?t"] position_SomeD [OF that]
    by (intro moves_taken [OF _ _ _ _ _ moves_return_helper]) (simp_all add: pooled_def)
  then show ?thesis
    using moves_drain [of s env] moves_trans0 [OF moves_drain [of s env]]
    by (auto simp: return_connection_impl_def Let_def split: option.splits)
qed

lemma moves_drop_impl: "moves {#} s (snd (drop_connection_impl env cid s))"
proof -
  let ?t = "snd (drain_drop_returns env s)"
  have "moves {#} ?t (drop_conn (busy ?t ! i) (?t\<lparr>busy := remove_nth i (busy ?t)\<rparr>))"
    if "position (\<lambda>c. conn_id c = cid) (busy ?t) = Some i" for i
    using ids_remove_nth [of i "busy ?t"] position_SomeD [OF that]
    by (intro moves_taken [OF _ _ _ _ _ moves_drop_conn]) (simp_all add: pooled_def)
  then show ?thesis
    using moves_drain [of s env] moves_trans0 [OF moves_drain [of s env]]
    by (auto simp: drop_connection_impl_def Let_def split: option.splits)
qed

lemma moves_sweep: "moves {#} s (snd (sweep_new env limit s))" "moves {#} s (snd (sweep_used env limit s))"
proof -
  show "moves {#} s (snd (sweep_new env limit s))"
  proof (induction env limit s rule: sweep_new.induct)
    case (1 env limit s)
    have m: "moves {#} s (drop_conn c (s\<lparr>free_new := rest\<rparr>))" if "free_new s = c # rest" for c rest
      using that by (intro moves_taken [OF _ _ _ _ _ moves_drop_conn]) (simp_all add: pooled_def)
    show ?case
      using 1 m moves_trans0 by (auto simp: sweep_new.simps [of env limit s] split: list.splits)
  qed
  show "moves {#} s (snd (sweep_used env limit s))"
  proof (induction env limit s rule: sweep_used.induct)
    case (1 env limit s)
    have m: "moves {#} s (drop_conn c (s\<lparr>free_used := rest\<rparr>))" if "free_used s = c # rest" for c rest
      using that by (intro moves_taken [OF _ _ _ _ _ moves_drop_conn]) (simp_all add: pooled_def)
    show ?case
      using 1 m moves_trans0 by (auto simp: sweep_used.simps [of env limit s] split: list.splits)
  qed
qed

lemma moves_sweep_idle: "moves {#} s (sweep_idle_timeout env s)"
proof -
  let ?n = "sweep_new env (from_secs (timeout_secs (config s))) s"
  have n: "moves {#} s (snd ?n)" by (rule moves_sweep)
  show ?thesis using n moves_trans0 [OF n moves_sweep(2)]
    by (auto simp: sweep_idle_timeout_def Let_def split: prod.splits bool.splits)
qed

lemma moves_reaper_top: "moves {#} s (snd (reaper_top env current s))"
proof -
  let ?t = "snd (drain_drop_returns env s)"
  have t: "moves {#} s ?t" by (rule moves_drain)
  show ?thesis using t moves_trans0 [OF t moves_get_next]
    by (auto simp: reaper_top_def Let_def split: prod.splits option.splits)
qed

lemma moves_reaper_post: "moves {#} s (snd (reaper_post rid s))"
  using moves_trans0 [OF moves_post_process [of s rid] moves_get_next]
  by (auto simp: reaper_post_def split: prod.splits)

lemma moves_setters:
  "moves {#} s (set_getmode v s)" "moves {#} s (set_wait_timeout_ms v s)" "moves {#} s (set_timeout_secs v s)"
  "moves {#} s (set_max_lifetime_session_secs v s)" "moves {#} s (set_ping_interval_secs i s)"
  "moves {#} s (enqueue_drop_return v s)"
  by (auto simp: set_getmode_def set_wait_timeout_ms_def set_timeout_secs_def pooled_def
      set_max_lifetime_session_secs_def set_ping_interval_secs_def enqueue_drop_return_def intro!: movesI)

lemma moves_acquire_start: "moves {#} s (snd (acquire_start env opts s))"
  unfolding acquire_start_def by (rule moves_trans0 [OF moves_drain_wake moves_enqueue])


subsection \<open>The invariant\<close>

definition effect_ids :: "pool_effect list \<Rightarrow> nat multiset" where
  "effect_ids es = mset (List.map_filter (\<lambda>e. case e of Open i _ \<Rightarrow> Some i | _ \<Rightarrow> None) es)"

lemma effect_ids_simps [simp]:
  "effect_ids [] = {#}" "effect_ids (es @ fs) = effect_ids es + effect_ids fs"
  "effect_ids (Open i w # es) = add_mset i (effect_ids es)" "effect_ids (Ping i v # es) = effect_ids es"
  "effect_ids (Close i r # es) = effect_ids es"
  "effect_ids (map (\<lambda>i. Open i None) is) = mset is"
  by (simp_all add: effect_ids_def map_filter_def comp_def)

lemma effect_ids_move: "effect_ids es + (effect_ids fs + effect_ids [e]) = effect_ids (e # es) + effect_ids fs"
  by (cases e) simp_all

lemma effect_ids_mem: "Open i w \<in> set es \<Longrightarrow> i \<in># effect_ids es"
  by (auto simp: effect_ids_def map_filter_def intro!: image_eqI [where x = "Open i w"])

text \<open>The connection in the worker's hands, and the identifiers reserved for creations to come.\<close>

fun in_hand :: "'c reaper_pc \<Rightarrow> nat multiset" where
  "in_hand (PWork _ (WPing c _)) = {#conn_id c#}"
| "in_hand (PWork _ (WCreate _ _ _ (Some c))) = {#conn_id c#}"
| "in_hand (PClose c) = {#conn_id c#}"
| "in_hand _ = {#}"

fun ticket :: "'c reaper_pc \<Rightarrow> nat multiset" where
  "ticket (PWork _ (WCreate cid _ _ _)) = {#cid#}"
| "ticket _ = {#}"

definition tickets :: "'c reaper_pc \<times> 'c engine \<Rightarrow> nat multiset" where
  "tickets x = effect_ids (open_effects (snd x)) + effect_ids (in_flight_open_effects (snd x)) + ticket (fst x)"

definition creating_ok :: "'c reaper_pc \<times> 'c engine \<Rightarrow> bool" where
  "creating_ok x = (case fst x of
     PCreate cid _ \<Rightarrow> cid \<in># effect_ids (in_flight_open_effects (snd x)) | _ \<Rightarrow> True)"

definition fresh_ok :: "'c reaper_pc \<times> 'c engine \<Rightarrow> bool" where
  "fresh_ok x \<longleftrightarrow> (\<forall>i. count (created (snd x) + tickets x) i \<le> (if i < next_conn_id (snd x) then 1 else 0))"

definition ledger :: "'c reaper_pc \<times> 'c engine \<Rightarrow> bool" where
  "ledger x \<longleftrightarrow> pooled (snd x) + in_hand (fst x) + gone (snd x) = created (snd x)"

definition engine_inv :: "'c reaper_pc \<times> 'c engine \<Rightarrow> bool" where
  "engine_inv x \<longleftrightarrow> ledger x \<and> fresh_ok x \<and> creating_ok x"

lemma fresh_ok_grow:
  assumes "fresh_ok (pc, s)" "created s' = created s" "next_conn_id s' = next_conn_id s + n"
    and "tickets (pc', s') = tickets (pc, s) + mset [next_conn_id s..<next_conn_id s + n]"
  shows "fresh_ok (pc', s')"
  unfolding fresh_ok_def
proof (intro allI)
  fix i
  have "count (mset [next_conn_id s..<next_conn_id s + n]) i =
      (if next_conn_id s \<le> i \<and> i < next_conn_id s + n then 1 else 0)"
    using distinct_count_atmost_1 [of "[next_conn_id s..<next_conn_id s + n]"]
    by (auto simp: not_in_iff [symmetric])
  moreover have "count (created s + tickets (pc, s)) i \<le> (if i < next_conn_id s then 1 else 0)"
    using assms(1) by (simp add: fresh_ok_def)
  ultimately show "count (created (snd (pc', s')) + tickets (pc', s')) i \<le>
      (if i < next_conn_id (snd (pc', s')) then 1 else 0)"
    using assms(2-4) by (auto split: if_splits)
qed

lemma fresh_ok_sub:
  assumes "fresh_ok (pc, s)" "created s' + tickets (pc', s') \<subseteq># created s + tickets (pc, s)"
    "next_conn_id s \<le> next_conn_id s'"
  shows "fresh_ok (pc', s')"
  unfolding fresh_ok_def
proof (intro allI)
  fix i
  have "count (created s + tickets (pc, s)) i \<le> (if i < next_conn_id s then 1 else 0)"
    using assms(1) by (simp add: fresh_ok_def)
  moreover have "count (created s' + tickets (pc', s')) i \<le> count (created s + tickets (pc, s)) i"
    by (rule mset_subset_eq_count) fact
  ultimately show "count (created (snd (pc', s')) + tickets (pc', s')) i \<le>
      (if i < next_conn_id (snd (pc', s')) then 1 else 0)"
    using assms(3) by (auto split: if_splits)
qed

lemma moves_inv:
  assumes "engine_inv (pc, s)" "moves A s s'" "in_hand pc = in_hand pc' + A" "ticket pc' = ticket pc"
    and "\<And>cid cc. pc' = PCreate cid cc \<Longrightarrow> pc = pc'"
  shows "engine_inv (pc', s')"
proof -
  obtain n where n: "next_conn_id s' = next_conn_id s + n"
      "open_effects s' = open_effects s @ map (\<lambda>i. Open i None) [next_conn_id s..<next_conn_id s + n]"
      and f: "in_flight_open_effects s' = in_flight_open_effects s"
    using assms(2) by (auto simp: moves_def)
  have "fresh_ok (pc', s')"
  proof (rule fresh_ok_grow)
    show "fresh_ok (pc, s)" using assms(1) by (simp add: engine_inv_def)
    show "created s' = created s" using assms(2) by (simp add: moves_def)
    show "tickets (pc', s') = tickets (pc, s) + mset [next_conn_id s..<next_conn_id s + n]"
      using n f assms(4) by (simp add: tickets_def del: mset_upt)
  qed (rule n)
  moreover have "ledger (pc', s')"
  proof -
    have "pooled s' + in_hand pc' + gone s' = (pooled s' + gone s') + in_hand pc'" by (simp add: ac_simps)
    also have "\<dots> = (pooled s + gone s + A) + in_hand pc'" using assms(2) by (simp add: moves_def)
    also have "\<dots> = pooled s + in_hand pc + gone s" using assms(3) by (simp add: ac_simps)
    also have "\<dots> = created s'" using assms(1,2) by (simp add: engine_inv_def ledger_def moves_def)
    finally show ?thesis by (simp add: ledger_def)
  qed
  moreover have "creating_ok (pc', s')"
    using assms(1,5) f by (auto simp: engine_inv_def creating_ok_def split: reaper_pc.splits)
  ultimately show ?thesis by (simp add: engine_inv_def)
qed


subsection \<open>The steps that are not plain moves\<close>

lemma pooled_frame:
  "pooled (s\<lparr>calls := cs\<rparr>) = pooled s" "pooled (s\<lparr>next_conn_id := n\<rparr>) = pooled s"
  "pooled (s\<lparr>in_flight_open_effects := fs\<rparr>) = pooled s" "pooled (s\<lparr>open_effects := es\<rparr>) = pooled s"
  by (simp_all add: pooled_def)

lemma call_frame:
  "created (upd_request p f s) = created s" "gone (upd_request p f s) = gone s"
  "created (s\<lparr>next_conn_id := n\<rparr>) = created s" "gone (s\<lparr>next_conn_id := n\<rparr>) = gone s"
  "created (s\<lparr>in_flight_open_effects := fs\<rparr>) = created s" "gone (s\<lparr>in_flight_open_effects := fs\<rparr>) = gone s"
  "created (s\<lparr>open_effects := es\<rparr>) = created s" "gone (s\<lparr>open_effects := es\<rparr>) = gone s"
  by (simp_all add: created_def gone_def upd_request_def)

definition take_conn :: "nat \<Rightarrow> 'c engine \<Rightarrow> 'c engine" where
  "take_conn p s = upd_request p (\<lambda>r. r\<lparr>req_conn := None\<rparr>) s"

lemma take_conn_frame:
  "next_conn_id (take_conn p s) = next_conn_id s" "open_effects (take_conn p s) = open_effects s"
  "in_flight_open_effects (take_conn p s) = in_flight_open_effects s"
  "created (take_conn p s) = created s" "gone (take_conn p s) = gone s"
  by (simp_all add: take_conn_def upd_request_def created_def gone_def)

lemma process_begin_cases:
  assumes "process_begin rid s = (w, s')"
  shows "w = WNothing \<and> s' = s \<or>
    (\<exists>p. p < length (requests s) \<and>
      ((\<exists>c t. w = WPing c t \<and> s' = take_conn p s \<and> req_conn (requests s ! p) = Some c) \<or>
       (\<exists>cc ex. w = WCreate (next_conn_id s) cc ex (req_conn (requests s ! p)) \<and>
          s' = (take_conn p s)\<lparr>next_conn_id := next_conn_id s + 1\<rparr>)))"
proof (cases "request_position rid s")
  case None
  then show ?thesis using assms by (simp add: process_begin_def)
next
  case (Some p)
  then have "p < length (requests s)" by (simp add: request_positionD)
  then show ?thesis
    using assms Some unfolding process_begin_def take_conn_def [symmetric]
    by (auto simp: Let_def split: if_splits option.splits)
qed

lemma ledger_take:
  assumes "ledger (PProcess rid, s)" "p < length (requests s)" "in_hand pc = rconn (requests s ! p)"
    and "pooled s' = pooled (take_conn p s)" "gone s' = gone s" "created s' = created s"
  shows "ledger (pc, s')"
  using assms moves_take_conn [OF assms(2)] unfolding ledger_def by (simp add: take_conn_def)

lemma process_begin_inv:
  assumes "engine_inv (PProcess rid, s)" "process_begin rid s = (w, s')"
  shows "engine_inv (PWork rid w, s')"
  using process_begin_cases [OF assms(2)]
proof (elim disjE exE conjE)
  assume "w = WNothing" "s' = s"
  then show ?thesis using moves_inv [OF assms(1) moves_refl, of "PWork rid WNothing"] by simp
next
  fix p c t
  assume p: "p < length (requests s)" and w: "w = WPing c t" and s': "s' = take_conn p s"
    and c: "req_conn (requests s ! p) = Some c"
  have "fresh_ok (PWork rid w, s')"
    by (rule fresh_ok_sub [of "PProcess rid" s])
       (use assms(1) in \<open>simp_all add: w s' engine_inv_def tickets_def take_conn_frame\<close>)
  moreover have "ledger (PWork rid w, s')"
    by (rule ledger_take [of rid, OF _ p]) (use assms(1) c in \<open>simp_all add: w s' engine_inv_def rconn_def take_conn_frame\<close>)
  ultimately show ?thesis by (simp add: engine_inv_def creating_ok_def)
next
  fix p cc ex
  assume p: "p < length (requests s)" and w: "w = WCreate (next_conn_id s) cc ex (req_conn (requests s ! p))"
    and s': "s' = (take_conn p s)\<lparr>next_conn_id := next_conn_id s + 1\<rparr>"
  have "fresh_ok (PWork rid w, s')"
    by (rule fresh_ok_grow [of "PProcess rid" s _ 1])
       (use assms(1) in \<open>simp_all add: w s' engine_inv_def tickets_def take_conn_frame call_frame\<close>)
  have h: "in_hand (PWork rid w) = rconn (requests s ! p)"
    by (cases "req_conn (requests s ! p)") (simp_all add: w rconn_def)
  have "ledger (PWork rid w, s')"
    by (rule ledger_take [of rid, OF _ p h]) (use assms(1) in \<open>simp_all add: s' engine_inv_def take_conn_frame call_frame pooled_frame\<close>)
  with \<open>fresh_ok (PWork rid w, s')\<close> show ?thesis by (simp add: engine_inv_def creating_ok_def)
qed

lemma process_ping_inv:
  assumes "engine_inv (PWork rid (WPing c t), s)"
  shows "engine_inv (PPost rid, process_ping rid c healthy s)"
proof (rule moves_inv [OF assms])
  have "moves {#conn_id c#} s (s\<lparr>calls := calls s @ [k]\<rparr>)" if "k = CallDropped (conn_id c) \<or> k = CallClosed (conn_id c)" for k
    using that by (auto simp: moves_def pooled_frame calls_simps)
  then show "moves {#conn_id c#} s (process_ping rid c healthy s)"
    by (auto simp: process_ping_def close_connection_def split: option.splits
        intro!: moves_attach dest: request_positionD)
qed simp_all

lemma close_step_inv:
  assumes "engine_inv (PClose c, s)"
  shows "engine_inv (PTop None, close_connection c s)"
  by (rule moves_inv [OF assms, of "{#conn_id c#}"])
     (auto simp: close_connection_def moves_def pooled_frame calls_simps)


lemma created_log [simp]:
  "created (log_created cid result s) = created s + (case result of Inr _ \<Rightarrow> {#cid#} | Inl _ \<Rightarrow> {#})"
  "gone (log_created cid result s) = gone s" "pooled (log_created cid result s) = pooled s"
  "open_effects (log_created cid result s) = open_effects s"
  "in_flight_open_effects (log_created cid result s) = in_flight_open_effects s"
  "next_conn_id (log_created cid result s) = next_conn_id s"
  by (simp_all add: log_created_def calls_simps pooled_frame split: sum.splits)

text \<open>
  A step that redeems the ticket \<open>cid\<close>: it logs the creation, if it succeeded, and moves the
  new connection and what was in hand into the pool.
\<close>

lemma redeem_inv:
  fixes pc pc' :: "'c reaper_pc" and s t s' :: "'c engine"
  assumes inv: "engine_inv (pc, s)" and mv: "moves A t s'"
    and t: "pooled t = pooled s" "gone t = gone s" "created t = created s + (if ok then {#cid#} else {#})"
      "next_conn_id t = next_conn_id s" "open_effects t = open_effects s"
    and tick: "effect_ids (in_flight_open_effects t) + ticket pc' + {#cid#} =
      effect_ids (in_flight_open_effects s) + ticket pc"
    and A: "A = in_hand pc + (if ok then {#cid#} else {#})" "in_hand pc' = {#}"
    and pc': "\<And>i c. pc' \<noteq> PCreate i c"
  shows "engine_inv (pc', s')"
proof -
  obtain n where n: "next_conn_id s' = next_conn_id s + n"
      "open_effects s' = open_effects s @ map (\<lambda>i. Open i None) [next_conn_id s..<next_conn_id s + n]"
      "in_flight_open_effects s' = in_flight_open_effects t"
    using mv t by (auto simp: moves_def)
  have led: "ledger (pc', s')"
  proof -
    have "pooled s' + in_hand pc' + gone s' = pooled s + gone s + A"
      using mv t A(2) by (simp add: moves_def)
    also have "\<dots> = (pooled s + in_hand pc + gone s) + (if ok then {#cid#} else {#})"
      using A(1) by (simp add: ac_simps)
    also have "\<dots> = created t" using inv t by (simp add: engine_inv_def ledger_def)
    also have "\<dots> = created s'" using mv by (simp add: moves_def)
    finally show ?thesis by (simp add: ledger_def)
  qed
  let ?u = "s\<lparr>in_flight_open_effects := in_flight_open_effects t, calls := calls t\<rparr>"
  have u: "created ?u = created t" by (simp add: created_def)
  have "fresh_ok (pc', ?u)"
  proof (rule fresh_ok_sub [of pc s])
    let ?x = "created ?u + tickets (pc', ?u)" and ?d = "if ok then {#} else {#cid#}"
    have "?x + ?d = created s + effect_ids (open_effects s) +
        (effect_ids (in_flight_open_effects t) + ticket pc' + {#cid#})"
      unfolding u t(3) tickets_def by (cases ok) (simp_all add: ac_simps)
    also have "\<dots> = created s + tickets (pc, s)" unfolding tick by (simp add: tickets_def ac_simps)
    finally have "created s + tickets (pc, s) = ?x + ?d" by (rule sym)
    then show "?x \<subseteq># created s + tickets (pc, s)" by (simp only: mset_subset_eq_add_left)
  qed (use inv in \<open>simp_all add: engine_inv_def\<close>)
  then have "fresh_ok (pc', s')"
  proof (rule fresh_ok_grow)
    show "created s' = created ?u" using mv u by (simp add: moves_def)
    show "tickets (pc', s') = tickets (pc', ?u) + mset [next_conn_id ?u..<next_conn_id ?u + n]"
      using n by (simp add: tickets_def del: mset_upt)
  qed (use n in simp)
  with led pc' show ?thesis by (simp add: engine_inv_def creating_ok_def split: reaper_pc.splits)
qed

definition fresh_conn :: "nat \<Rightarrow> (string + 'c) \<Rightarrow> nat multiset" where
  "fresh_conn cid result = (case result of Inr _ \<Rightarrow> {#cid#} | Inl _ \<Rightarrow> {#})"

lemma moves_deliver: "moves (fresh_conn cid result) s (deliver_created env rid cid cclass extra result s)"
proof (cases "request_position rid s")
  case None
  have "moves {#cid#} s (s\<lparr>to_drop := to_drop s @ [mk_conn env cid x cclass False]\<rparr>)" for x
    by (rule movesI) (simp_all add: pooled_def mk_conn_def)
  then show ?thesis by (cases result) (simp_all add: deliver_created_def None fresh_conn_def)
next
  case (Some p)
  then have p: "p < length (requests s)" by (simp add: request_positionD)
  have "moves {#cid#} s (attach_conn p (mk_conn env cid x cclass extra) s)" for x
    using moves_attach [OF p, of "mk_conn env cid x cclass extra"] by (simp add: mk_conn_def)
  moreover have "moves {#} s (upd_request p (\<lambda>r. r\<lparr>req_error := Some e\<rparr>) s)" for e
    using p by (rule moves_upd_request) simp
  ultimately show ?thesis
    by (cases result) (simp_all add: deliver_created_def Some fresh_conn_def)
qed

lemma process_create_inv:
  assumes "engine_inv (PWork rid (WCreate cid cclass extra replaced), s)"
  shows "engine_inv (PPost rid, process_create env rid cid cclass extra replaced result s)"
proof -
  let ?t = "log_created cid result s"
  let ?h = "in_hand (PWork rid (WCreate cid cclass extra replaced))"
  have d: "moves ?h ?t (case replaced of Some old \<Rightarrow> drop_conn old ?t | None \<Rightarrow> ?t)"
    by (cases replaced) (simp_all add: moves_drop_conn)
  have m: "moves (?h + fresh_conn cid result) ?t (process_create env rid cid cclass extra replaced result s)"
    unfolding process_create_def Let_def by (rule moves_trans [OF d moves_deliver])
  show ?thesis
    by (rule redeem_inv [OF assms m, where cid = cid and ok = "\<not> isl result"])
       (cases result; simp add: fresh_conn_def)+
qed

lemma effect_ids_remove:
  assumes "cid \<in># effect_ids es"
  shows "\<exists>i. position (\<lambda>e. case e of Open slot _ \<Rightarrow> slot = cid | _ \<Rightarrow> False) es = Some i \<and>
    add_mset cid (effect_ids (remove_nth i es)) = effect_ids es"
  using assms
proof (induction es)
  case (Cons e es)
  show ?case
  proof (cases "case e of Open slot _ \<Rightarrow> slot = cid | _ \<Rightarrow> False")
    case True
    then show ?thesis by (cases e) (auto simp: remove_nth_def)
  next
    case False
    then have "cid \<in># effect_ids es" using Cons.prems by (cases e) auto
    then obtain i where "position (\<lambda>e. case e of Open slot _ \<Rightarrow> slot = cid | _ \<Rightarrow> False) es = Some i"
        "add_mset cid (effect_ids (remove_nth i es)) = effect_ids es"
      using Cons.IH by blast
    with False show ?thesis by (cases e) (auto simp: remove_nth_def)
  qed
qed simp

lemma rconns_offer_created:
  "offer_created mx n c rs = (rs', given, woke) \<Longrightarrow> rconns rs' = rconns rs + (if given then {#conn_id c#} else {#})"
  by (induction mx n c rs arbitrary: rs' rule: offer_created.induct)
     (auto simp: rconn_def split: prod.splits if_splits)

lemma moves_offer:
  assumes "rconns rs = rconns (requests s) + (if given then {#conn_id c#} else {#})"
    and "u = s\<lparr>requests := rs\<rparr> \<or> u = wake_waiters (s\<lparr>requests := rs\<rparr>)"
  shows "moves {#conn_id c#} s (if given then u else wake_waiters (u\<lparr>free_new := free_new u @ [c]\<rparr>))"
  using assms by (cases given) (auto intro!: movesI simp: pooled_def wake_waiters_def)

lemma moves_post_create:
  assumes "\<And>c. created_conn = Inr c \<Longrightarrow> conn_id c = cid"
  shows "moves (case created_conn of Inr _ \<Rightarrow> {#cid#} | Inl _ \<Rightarrow> {#}) (complete_open_effect cid s)
    (post_create_conn cid created_conn s)"
proof -
  obtain t where t: "complete_open_effect cid s = t" by simp
  show ?thesis
  proof (cases created_conn)
    case (Inl e)
    then show ?thesis
      by (auto simp: post_create_conn_def t Let_def split: option.splits
          intro!: moves_upd_request dest: position_SomeD)
  next
    case (Inr c)
    then have c: "conn_id c = cid" using assms by simp
    obtain rs given woke where off: "offer_created (cfg_max (config t)) (min (active_open_count t + 1) 4294967295) c (requests t) = (rs, given, woke)"
      by (metis prod.exhaust)
    have "moves {#conn_id c#} t (t\<lparr>to_drop := to_drop t @ [c]\<rparr>)" by (rule movesI) (simp_all add: pooled_def)
    moreover have "moves {#conn_id c#} t
        (let u = (if woke then wake_waiters (t\<lparr>requests := rs\<rparr>) else t\<lparr>requests := rs\<rparr>)
         in if given then u else wake_waiters (u\<lparr>free_new := free_new u @ [c]\<rparr>))"
      unfolding Let_def by (rule moves_offer [OF rconns_offer_created [OF off]]) simp
    ultimately show ?thesis
      by (simp only: post_create_conn_def t Inr off Let_def sum.case prod.case c moves_notify_iff if_split) simp
  qed
qed

lemma grow_finish_inv:
  assumes "engine_inv (PCreate cid cclass, s)"
  shows "engine_inv (PTop None, grow_finish env cid cclass result s)"
proof -
  let ?l = "log_created cid result s"
  have "cid \<in># effect_ids (in_flight_open_effects ?l)"
    using assms by (simp add: engine_inv_def creating_ok_def)
  then obtain i where i: "position (\<lambda>e. case e of Open slot _ \<Rightarrow> slot = cid | _ \<Rightarrow> False) (in_flight_open_effects ?l) = Some i"
      "add_mset cid (effect_ids (remove_nth i (in_flight_open_effects ?l))) = effect_ids (in_flight_open_effects ?l)"
    using effect_ids_remove by blast
  let ?t = "complete_open_effect cid ?l"
  have t: "?t = ?l\<lparr>in_flight_open_effects := remove_nth i (in_flight_open_effects ?l)\<rparr>"
    using i(1) by (simp add: complete_open_effect_def)
  have m: "moves (fresh_conn cid result) ?t (grow_finish env cid cclass result s)"
    using moves_post_create [of "map_sum id (\<lambda>x. mk_conn env cid x cclass False) result" cid ?l]
    by (cases result) (auto simp: grow_finish_def fresh_conn_def mk_conn_def)
  have fr: "pooled ?t = pooled s" "gone ?t = gone s" "next_conn_id ?t = next_conn_id s"
      "open_effects ?t = open_effects s" "created ?t = created s + fresh_conn cid result"
    unfolding t by (simp_all add: pooled_frame call_frame fresh_conn_def)
  have fl: "effect_ids (in_flight_open_effects ?t) + ticket (PTop None) + {#cid#} =
      effect_ids (in_flight_open_effects s) + ticket (PCreate cid cclass)"
    using i(2) unfolding t by simp
  have fc: "fresh_conn cid result = (if \<not> isl result then {#cid#} else {#})"
    by (cases result) (simp_all add: fresh_conn_def)
  show ?thesis
    by (rule redeem_inv [OF assms m fr(1,2) fr(5) [unfolded fc] fr(3,4) fl]) (simp_all add: fc)
qed

text \<open>The remaining steps: growth begins, the drop list, shutdown and close.\<close>

lemma grow_begin_inv:
  assumes "engine_inv (PGrow, s)" "grow_begin s = (x, s')"
    and "case pc of PDrop \<Rightarrow> True | PCreate cid _ \<Rightarrow> \<exists>w. x = Some (Open cid w) | _ \<Rightarrow> False"
  shows "engine_inv (pc, s')"
proof -
  have s': "pooled s' = pooled s" "gone s' = gone s" "created s' = created s" "next_conn_id s' = next_conn_id s"
      "effect_ids (open_effects s') + effect_ids (in_flight_open_effects s') =
        effect_ids (open_effects s) + effect_ids (in_flight_open_effects s)"
      and x: "x = Some e \<Longrightarrow> e \<in> set (in_flight_open_effects s')" for e
    using assms(2) by (auto simp: grow_begin_def Let_def pooled_frame call_frame effect_ids_move
        split: if_splits list.splits)
  have pc: "in_hand pc = {#}" "ticket pc = {#}" using assms(3) by (auto split: reaper_pc.splits)
  have "fresh_ok (pc, s')"
    by (rule fresh_ok_sub [of PGrow s]) (use assms(1) in \<open>simp_all add: s' pc tickets_def engine_inv_def\<close>)
  moreover have "ledger (pc, s')"
    using assms(1) by (simp add: ledger_def engine_inv_def s' pc)
  moreover have "creating_ok (pc, s')"
    using x assms(3) by (auto simp: creating_ok_def split: reaper_pc.splits dest: effect_ids_mem)
  ultimately show ?thesis by (simp add: engine_inv_def)
qed

lemma reaper_grow_inv:
  assumes "engine_inv (PGrow, s)"
  shows "engine_inv (reaper_grow s)"
proof -
  obtain x t where g: "grow_begin s = (x, t)" by force
  have d: "engine_inv (PDrop, t)" by (rule grow_begin_inv [OF assms g]) simp
  have c: "engine_inv (PCreate cid cc, t)" if "x = Some (Open cid w)" for cid cc w
    by (rule grow_begin_inv [OF assms g]) (simp add: that)
  show ?thesis using c d by (simp add: reaper_grow_def g split: option.splits pool_effect.splits)
qed

lemma reaper_drop_inv:
  assumes "engine_inv (PDrop, s)"
  shows "engine_inv (reaper_drop s)"
proof (cases "to_drop s = []")
  case True
  then show ?thesis using moves_inv [OF assms moves_refl, of PSweep] by (simp add: reaper_drop_def)
next
  case False
  let ?c = "last (to_drop s)" and ?s = "s\<lparr>to_drop := butlast (to_drop s)\<rparr>"
  have "pooled ?s + {#conn_id ?c#} = pooled s"
    using ids_butlast [OF False] by (simp add: pooled_def)
  then have "ledger (PClose ?c, ?s)"
    using assms by (simp add: ledger_def engine_inv_def gone_def created_def)
  moreover have "fresh_ok (PClose ?c, ?s)"
    by (rule fresh_ok_sub [of PDrop s]) (use assms in \<open>simp_all add: engine_inv_def tickets_def created_def\<close>)
  ultimately show ?thesis using False by (simp add: reaper_drop_def engine_inv_def creating_ok_def)
qed

lemma shutdown_locked_inv:
  assumes "engine_inv (pc, s)"
  shows "engine_inv (pc, request_worker_shutdown_locked s)"
proof -
  let ?s = "request_worker_shutdown_locked s"
  have z: "rconns (map (\<lambda>r. r\<lparr>waiting := False, req_conn := None\<rparr>) rs) = {#}" for rs :: "'a request list"
    by (induction rs) (simp_all add: rconn_def)
  have "pooled ?s = pooled s" "created ?s = created s" "gone ?s = gone s"
    by (simp_all add: request_worker_shutdown_locked_def wake_waiters_def notify_bg_def pooled_def z
        created_def gone_def)
  moreover have fr: "open_effects ?s = []" "next_conn_id ?s = next_conn_id s"
      "in_flight_open_effects ?s = in_flight_open_effects s"
    by (simp_all add: request_worker_shutdown_locked_def wake_waiters_def notify_bg_def)
  moreover have "fresh_ok (pc, ?s)"
    by (rule fresh_ok_sub [of pc s]) (use assms in \<open>simp_all add: engine_inv_def calculation tickets_def\<close>)
  ultimately show ?thesis
    using assms by (auto simp: engine_inv_def ledger_def creating_ok_def split: reaper_pc.splits)
qed

lemma shutdown_inv:
  assumes "engine_inv (pc, s)"
  shows "engine_inv (pc, snd (request_worker_shutdown env force s))"
proof -
  have d: "engine_inv (pc, drain_and_wake env s)"
    by (rule moves_inv [OF assms moves_drain_wake]) simp_all
  have n: "engine_inv (pc, wake_waiters (notify_bg (drain_and_wake env s)))"
    by (rule moves_inv [OF d, of "{#}"]) simp_all
  show ?thesis using d n shutdown_locked_inv [OF d] by (simp add: request_worker_shutdown_def Let_def)
qed

lemma fold_close:
  "pooled (fold close_connection cs s) = pooled s" "created (fold close_connection cs s) = created s"
  "gone (fold close_connection cs s) = gone s + ids cs"
  "open_effects (fold close_connection cs s) = open_effects s"
  "in_flight_open_effects (fold close_connection cs s) = in_flight_open_effects s"
  "next_conn_id (fold close_connection cs s) = next_conn_id s"
  by (induction cs arbitrary: s) (simp_all add: close_connection_def calls_simps pooled_frame)

lemma close_all_inv:
  assumes "engine_inv (pc, s)"
  shows "engine_inv (pc, close_all_connections s)"
proof (rule moves_inv [OF assms, of "{#}"])
  have z: "rconns (map (\<lambda>r. r\<lparr>req_conn := None\<rparr>) rs) = {#}" for rs :: "'a request list"
    by (induction rs) (simp_all add: rconn_def)
  show "moves {#} s (close_all_connections s)"
    unfolding moves_def close_all_connections_def fold_close
    by (auto simp: pooled_def z created_def gone_def intro!: exI [of _ 0])
qed simp_all

lemma start_engine_inv: "engine_inv (PTop None, start_engine cfg)"
proof -
  let ?z = "\<lparr>pool_open = True, config = cfg, force_get = (getmode cfg = POOL_GETMODE_FORCEGET),
        wait_timeout_ms = (if getmode cfg = POOL_GETMODE_TIMEDWAIT then Some (cfg_wait_timeout_ms cfg) else None),
        free_new = [], free_used = [], busy = [], to_drop = [], requests = [], open_effects = [],
        in_flight_open_effects = [], next_conn_id = 1, next_request_id = 1, drop_returns = [],
        bg_permit = False, wakeups = 0, reaper_stop = False, calls = []\<rparr> :: 'a engine"
  have "engine_inv (PTop None, ?z)"
    by (simp add: engine_inv_def ledger_def fresh_ok_def creating_ok_def pooled_def created_def gone_def
        tickets_def map_filter_simps)
  then show ?thesis
    unfolding start_engine_def by (rule moves_inv [OF _ moves_schedule]) simp_all
qed

lemma client_move_inv: "engine_inv (pc, s) \<Longrightarrow> moves {#} s s' \<Longrightarrow> engine_inv (pc, s')"
  by (rule moves_inv [of pc s "{#}"]) simp_all

lemma moves_abandon_wake: "moves {#} s (wake_waiters (abandon_request rid s))"
  by (simp add: moves_abandon)

lemma engine_step_inv:
  assumes "engine_step x x'" "engine_inv x"
  shows "engine_inv x'"
  using assms
proof (induction rule: engine_step.induct)
  case (top current s env)
  show ?case
    using moves_inv [OF top moves_reaper_top, of "fst (reaper_top env current s)" env current]
    by (auto simp: reaper_top_def Let_def split: prod.splits option.splits if_splits)
next
  case (post rid s)
  show ?case
    using moves_inv [OF post moves_reaper_post, of "fst (reaper_post rid s)" rid]
    by (auto simp: reaper_post_def split: prod.splits)
next
  case (sweep s env)
  show ?case
    using moves_inv [OF sweep moves_sweep_idle, of "fst (reaper_sweep env s)" env]
    by (auto simp: reaper_sweep_def Let_def split: if_splits)
next
  case (cancelled current s)
  show ?case using moves_inv [OF cancelled, of "{#}" s PExit] by simp
next
  case (no_work rid s)
  show ?case using moves_inv [OF no_work, of "{#}" s "PPost rid"] by simp
qed (simp_all add: process_begin_inv process_ping_inv process_create_inv reaper_grow_inv grow_finish_inv
      reaper_drop_inv close_step_inv shutdown_inv close_all_inv
      client_move_inv [OF _ moves_acquire_start] client_move_inv [OF _ moves_poll]
      client_move_inv [OF _ moves_abandon_wake] client_move_inv [OF _ moves_setters(1)]
      client_move_inv [OF _ moves_setters(2)] client_move_inv [OF _ moves_setters(3)]
      client_move_inv [OF _ moves_setters(4)] client_move_inv [OF _ moves_setters(5)]
      client_move_inv [OF _ moves_setters(6)] client_move_inv [OF _ moves_return_impl]
      client_move_inv [OF _ moves_drop_impl] client_move_inv [OF _ moves_drain_wake])

interpretation engine_ledger: state_machine engine_init engine_step engine_inv
  by unfold_locales (auto simp: engine_init_def start_engine_inv, rule engine_step_inv)


subsection \<open>What the ledger gives\<close>

lemma distinct_if_count: "(\<And>x. count (mset xs) x \<le> 1) \<Longrightarrow> distinct xs"
proof (induction xs)
  case (Cons y ys)
  have "count (mset ys) x \<le> count (mset (y # ys)) x" for x by simp
  then have "count (mset ys) x \<le> 1" for x using Cons.prems [of x] by (rule order.trans)
  moreover have "y \<notin> set ys" using Cons.prems [of y] by (auto simp: count_eq_zero_iff)
  ultimately show ?case using Cons.IH by simp
qed simp

text \<open>The number of places of the pool, the requests and the worker that hold connection \<open>i\<close>.\<close>

definition holders :: "'c reaper_pc \<times> 'c engine \<Rightarrow> nat \<Rightarrow> nat" where
  "holders x i = count (pooled (snd x) + in_hand (fst x)) i"

lemma reachable_holders:
  assumes "reachable engine_init engine_step (pc, s)"
  shows "holders (pc, s) i + count (gone s) i = count (created s) i \<and> count (created s) i \<le> 1"
proof
  have inv: "ledger (pc, s)" "fresh_ok (pc, s)"
    using engine_ledger.reachable_inv [OF assms] by (simp_all add: engine_inv_def)
  show "holders (pc, s) i + count (gone s) i = count (created s) i"
    using inv(1) unfolding ledger_def holders_def by (metis count_union fst_conv snd_conv)
  have "count (created s + tickets (pc, s)) i \<le> 1"
  proof -
    have "count (created s + tickets (pc, s)) i \<le> (if i < next_conn_id s then 1 else 0)"
      using inv(2) by (simp add: fresh_ok_def)
    also have "\<dots> \<le> 1" by simp
    finally show ?thesis .
  qed
  then show "count (created s) i \<le> 1" by simp
qed

end
