(* ===== verification/Pool_Safety.thy ===== *)
theory Pool_Safety
  imports Pool_Ledger
begin

text \<open>
  The safety properties of the pool engine, and concrete runs of it: a pool of one connection whose
  only connection is being pinged, which witnesses the properties and shows that the pool can grow
  past its maximum.
\<close>

subsection \<open>Concrete runs\<close>

definition one_config :: pool_config where
  "one_config = \<lparr>cfg_min = 1, cfg_max = 1, increment = 1, getmode = POOL_GETMODE_WAIT, cfg_wait_timeout_ms = 0,
     timeout_secs = 0, max_lifetime_session_secs = 0, ping_interval_secs = 0, ping_timeout_ms = 5000,
     creation_cclass = None\<rparr>"

definition clock :: "nat \<Rightarrow> unit env" where
  "clock t = \<lparr>connection_is_open = (\<lambda>_. True), now = t\<rparr>"

definition any_conn :: acquire_options where
  "any_conn = \<lparr>opt_wants_new = False, opt_cclass = None\<rparr>"

text \<open>
  A pool of at most one connection, always pinged before use. The connection is opened and picked up
  by a first request; while the worker pings it, a second request polls; the ping succeeds; the
  worker goes on to its growth block.
\<close>

definition one_open :: "unit reaper_pc \<times> unit engine" where
  "one_open = (PTop None, grow_finish (clock 0) 1 None (Inr ())
     (snd (reaper_grow (snd (reaper_top (clock 0) None (start_engine one_config))))))"

definition one_pinging :: "unit work \<times> unit engine" where
  "one_pinging = process_begin 1 (snd (reaper_top (clock 0) None
     (snd (poll_request_completion (clock 0) 1 (snd (acquire_start (clock 0) any_conn (snd one_open)))))))"

definition c1 :: "unit pooled_conn" where
  "c1 = mk_conn (clock 0) 1 () None False"

definition two_polled :: "unit engine" where
  "two_polled = snd (poll_request_completion (clock 0) 2 (snd (acquire_start (clock 0) any_conn (snd one_pinging))))"

definition two_pinged :: "unit engine" where
  "two_pinged = snd (reaper_top (clock 0) None (snd (reaper_post 1 (process_ping 1 c1 True two_polled))))"

definition two_open :: "unit engine" where
  "two_open = grow_finish (clock 0) 2 None (Inr ()) (snd (reaper_grow two_pinged))"

lemmas engine_eval =
  POOL_GETMODE_WAIT_def POOL_GETMODE_NOWAIT_def POOL_GETMODE_FORCEGET_def POOL_GETMODE_TIMEDWAIT_def
  elapsed_def from_secs_def notify_bg_def wake_waiters_def close_connection_def remove_nth_def
  saturating_u32_def request_is_opening_def is_open_effect_def pending_open_count_def
  compatible_idle_count_def compatible_waiting_demand_def active_open_count_def
  reserved_open_count_def derived_lifecycle_counts_def pool_stats_of_def complete_open_effect_def
  ensure_min_connections_def drop_conn_def request_position_def upd_request_def attach_conn_def
  reject_def abandon_request_def add_request_for_bg_def new_request_def orphan_def needs_ping_def
  check_connection_def enqueue_request_def set_request_def plan_growth_def grow_or_replace_def
  fulfill_def finish_completed_request_def poll_request_completion_def peek_next_request_def
  get_next_request_def post_process_request_def growth_error_target_def post_create_conn_def
  return_connection_helper_def sweep_idle_timeout_def drain_drop_returns_def drain_and_wake_def
  enqueue_drop_return_def acquire_start_def return_connection_impl_def drop_connection_impl_def
  request_conns_def request_worker_shutdown_locked_def request_worker_shutdown_def
  close_all_connections_def set_getmode_def set_wait_timeout_ms_def set_timeout_secs_def
  set_max_lifetime_session_secs_def set_ping_interval_secs_def start_engine_def mk_conn_def
  process_begin_def process_ping_def log_created_def deliver_created_def process_create_def
  grow_begin_def grow_finish_def reaper_top_def reaper_post_def reaper_grow_def reaper_drop_def
  reaper_sweep_def scan_new.simps scan_used.simps Let_def

definition r1 :: "unit request" where
  "r1 = \<lparr>req_id = 1, req_cclass = None, cclass_matches = True, wants_new = False, requires_ping = True,
     bg_processing = True, is_extra = False, is_replacing = False, in_progress = True,
     completed = False, waiting = True, req_conn = None, req_error = None\<rparr>"

definition r2 :: "unit request" where
  "r2 = r1\<lparr>req_id := 2, requires_ping := False, in_progress := False\<rparr>"

lemma one_open_eval: "one_open = (PTop None,
  \<lparr>pool_open = True, config = one_config, force_get = False, wait_timeout_ms = None,
     free_new = [c1], free_used = [], busy = [], to_drop = [], requests = [],
     open_effects = [], in_flight_open_effects = [], next_conn_id = 2, next_request_id = 1, drop_returns = [],
     bg_permit = False, wakeups = 1, reaper_stop = False, calls = [CallCreated 1]\<rparr>)"
  by (simp add: engine_eval one_open_def one_config_def clock_def c1_def)

lemma one_pinging_eval: "one_pinging = (WPing c1 5000,
  (snd one_open)\<lparr>free_new := [], requests := [r1], next_request_id := 2, bg_permit := True\<rparr>)"
  unfolding one_pinging_def one_open_eval
  by (simp add: engine_eval one_config_def clock_def c1_def any_conn_def r1_def)

lemma two_polled_eval: "two_polled =
  (snd one_pinging)\<lparr>requests := [r1, r2], open_effects := [Open 2 None], next_conn_id := 3, next_request_id := 3\<rparr>"
  unfolding two_polled_def one_pinging_eval one_open_eval
  by (simp add: engine_eval one_config_def clock_def c1_def any_conn_def r1_def r2_def)

lemma two_pinged_eval: "two_pinged =
  two_polled\<lparr>requests := [r1\<lparr>bg_processing := False, in_progress := False, completed := True, req_conn := Some c1\<rparr>, r2], wakeups := 2\<rparr>"
  unfolding two_pinged_def two_polled_eval one_pinging_eval one_open_eval
  by (simp add: engine_eval one_config_def clock_def c1_def any_conn_def r1_def r2_def)

lemma two_open_eval: "active_open_count two_open = 2" "cfg_max (config two_open) = 1"
   "getmode (config two_open) = POOL_GETMODE_WAIT"
   "map req_conn (requests two_open) = [Some c1, Some (c1\<lparr>conn_id := 2\<rparr>)]"
  unfolding two_open_def two_pinged_eval two_polled_eval one_pinging_eval one_open_eval
  by (simp_all add: engine_eval one_config_def clock_def c1_def any_conn_def r1_def r2_def)

lemmas run_eval = engine_eval one_config_def clock_def c1_def any_conn_def r1_def r2_def

abbreviation engine_reachable :: "'c reaper_pc \<times> 'c engine \<Rightarrow> bool" where
  "engine_reachable \<equiv> reachable engine_init engine_step"

lemma engine_next: "engine_reachable x \<Longrightarrow> engine_step x y \<Longrightarrow> engine_reachable y"
  by (rule reachable_step)

lemma engine_pair: "engine_reachable x \<Longrightarrow> engine_step x y \<Longrightarrow> fst y = pc \<Longrightarrow> engine_reachable (pc, snd y)"
  using engine_next [of x y] by (cases y) simp

lemma one_open_reachable: "engine_reachable one_open"
proof -
  let ?s = "start_engine one_config :: unit engine"
  have "engine_reachable (PTop None, ?s)"
    by (rule reachable_init) (auto simp: engine_init_def)
  then have "engine_reachable (PGrow, snd (reaper_top (clock 0) None ?s))"
    by (rule engine_pair [OF _ engine_step.top]) (simp add: run_eval)
  then have "engine_reachable (PCreate 1 None, snd (reaper_grow (snd (reaper_top (clock 0) None ?s))))"
    by (rule engine_pair [OF _ engine_step.grow]) (simp add: run_eval)
  then show ?thesis unfolding one_open_def by (rule engine_next [OF _ engine_step.grown])
qed

lemma one_pinging_reachable: "engine_reachable (PWork 1 (WPing c1 5000), snd one_pinging)"
proof -
  let ?s = "snd (poll_request_completion (clock 0) 1 (snd (acquire_start (clock 0) any_conn (snd one_open))))"
  have "engine_reachable (PTop None, snd one_open)"
    using one_open_reachable by (simp add: one_open_def)
  then have "engine_reachable (PTop None, ?s)"
    by (intro engine_next [OF engine_next [OF _ engine_step.acquire] engine_step.poll])
  then have "engine_reachable (PProcess 1, snd (reaper_top (clock 0) None ?s))"
    by (rule engine_pair [OF _ engine_step.top]) (simp add: one_open_eval run_eval)
  then show ?thesis
    by (rule engine_next [OF _ engine_step.process])
       (simp only: one_pinging_def [symmetric], simp add: one_pinging_eval)
qed

lemma two_polled_reachable: "engine_reachable (PWork 1 (WPing c1 5000), two_polled)"
  unfolding two_polled_def
  by (intro engine_next [OF engine_next [OF _ engine_step.acquire] engine_step.poll] one_pinging_reachable)

lemma two_open_reachable: "engine_reachable (PTop None, two_open)"
proof -
  have "engine_reachable (PPost 1, process_ping 1 c1 True two_polled)"
    by (rule engine_next [OF two_polled_reachable engine_step.ping])
  then have "engine_reachable (PTop None, snd (reaper_post 1 (process_ping 1 c1 True two_polled)))"
    by (rule engine_pair [OF _ engine_step.post])
       (simp add: two_polled_eval one_pinging_eval one_open_eval run_eval)
  then have "engine_reachable (PGrow, two_pinged)"
    unfolding two_pinged_def
    by (rule engine_pair [OF _ engine_step.top])
       (simp add: two_polled_eval one_pinging_eval one_open_eval run_eval)
  then have "engine_reachable (PCreate 2 None, snd (reaper_grow two_pinged))"
    by (rule engine_pair [OF _ engine_step.grow])
       (simp add: two_pinged_eval two_polled_eval one_pinging_eval one_open_eval run_eval)
  then show ?thesis unfolding two_open_def by (rule engine_next [OF _ engine_step.grown])
qed


subsection \<open>Properties\<close>

text \<open>
  C1. Whatever the interleaving of the worker's steps with client calls, every connection the backend
  created is in exactly one place (a free list, the busy list, the drop list, a request, or the
  worker's hands) or has been closed or dropped exactly once; an identifier never created is nowhere.
\<close>

theorem engine_conserves_connections:
  assumes "reachable engine_init engine_step (pc, s)"
  shows "holders (pc, s) i + count (gone s) i = (if i \<in># created s then 1 else 0)"
proof -
  have "count (created s) i \<le> 1" using reachable_holders [OF assms, of i] by (rule conjunct2)
  then have "count (created s) i = (if 0 < count (created s) i then 1 else 0)" by (simp only: split: if_split) linarith
  then have "count (created s) i = (if i \<in># created s then 1 else 0)" by (simp only: count_greater_zero_iff)
  then show ?thesis using reachable_holders [OF assms, of i] by simp
qed



text \<open>Witnesses: the state in which connection 1 is in the worker's hands and a second open is queued.\<close>

lemma two_polled_calls: "calls two_polled = [CallCreated 1]"
  by (simp add: two_polled_eval one_pinging_eval one_open_eval)

lemma created_two_polled: "created two_polled = {#1#}"
  by (simp add: created_def two_polled_calls map_filter_simps)

theorem engine_conserves_connections_witness:
  "1 \<in># created two_polled \<and> holders (PWork 1 (WPing c1 5000), two_polled) 1 + count (gone two_polled) 1 = 1"
  using engine_conserves_connections [OF two_polled_reachable, of 1] by (simp add: created_two_polled)


text \<open>
  C27. The maximum is not a bound on open connections. The connection being pinged is in no list and
  its request does not count as opening, so a request that polls meanwhile sees room for another
  connection: a pool configured with at most one, in WAIT mode, reaches a state with two.
\<close>

theorem ping_hides_connection:
  "engine_reachable (PTop None, two_open) \<and> cfg_max (config two_open) = 1 \<and> getmode (config two_open) = POOL_GETMODE_WAIT \<and>
   active_open_count two_open = 2"
  by (simp add: two_open_reachable two_open_eval)

end
