(* ===== verification/Civil_Calendar.thy ===== *)
theory Civil_Calendar
  imports Driver_Prelude "HOL-Library.Signed_Division"
begin

text \<open>
  The proleptic Gregorian day count of \<^verbatim>\<open>thin/codecs.rs\<close>: \<^verbatim>\<open>days_from_civil\<close>,
  \<^verbatim>\<open>civil_from_days\<close> and \<^verbatim>\<open>adjust_datetime_by_minutes\<close>. Rust's \<^verbatim>\<open>/\<close> truncates and is
  \<open>sdiv\<close>; \<^verbatim>\<open>div_euclid\<close> and \<^verbatim>\<open>rem_euclid\<close> are \<open>div\<close> and \<open>mod\<close>.
\<close>

definition i32_range :: "int \<Rightarrow> bool" where
  "i32_range x \<longleftrightarrow> - (2 ^ 31) \<le> x \<and> x < 2 ^ 31"

definition i64_range :: "int \<Rightarrow> bool" where
  "i64_range x \<longleftrightarrow> - (2 ^ 63) \<le> x \<and> x < 2 ^ 63"

definition checked_i64 :: "int \<Rightarrow> int option" where
  "checked_i64 x = (if i64_range x then Some x else None)"

definition u8_try_from :: "string \<Rightarrow> int \<Rightarrow> nat res" where
  "u8_try_from msg x = (if 0 \<le> x \<and> x < 256 then Inr (nat x) else Inl (TtcDecode msg))"

definition i32_try_from :: "string \<Rightarrow> int \<Rightarrow> int res" where
  "i32_try_from msg x = (if i32_range x then Inr x else Inl (TtcDecode msg))"

definition days_from_civil :: "int \<Rightarrow> nat \<Rightarrow> nat \<Rightarrow> int res" where
  "days_from_civil year0 month0 day0 =
     (if \<not> (1 \<le> month0 \<and> month0 \<le> 12) \<or> \<not> (1 \<le> day0 \<and> day0 \<le> 31)
      then Inl (TtcDecode ''invalid TIMESTAMP date'')
      else
        let year = year0 - (if month0 \<le> 2 then 1 else 0);
            era = (if year \<ge> 0 then year else year - 399) sdiv 400;
            year_of_era = year - era * 400;
            month = int month0;
            day = int day0;
            month_prime = month + (if month > 2 then -3 else 9);
            day_of_year = (153 * month_prime + 2) sdiv 5 + day - 1;
            day_of_era = year_of_era * 365 + year_of_era sdiv 4 - year_of_era sdiv 100 + day_of_year
        in Inr (era * 146097 + day_of_era - 719468))"

definition civil_from_days :: "int \<Rightarrow> (int \<times> nat \<times> nat) res" where
  "civil_from_days days0 =
     (let days = days0 + 719468;
          era = (if days \<ge> 0 then days else days - 146096) sdiv 146097;
          day_of_era = days - era * 146097;
          year_of_era = (day_of_era - day_of_era sdiv 1460 + day_of_era sdiv 36524 - day_of_era sdiv 146096) sdiv 365;
          year = year_of_era + era * 400;
          day_of_year = day_of_era - (365 * year_of_era + year_of_era sdiv 4 - year_of_era sdiv 100);
          month_prime = (5 * day_of_year + 2) sdiv 153;
          day = day_of_year - (153 * month_prime + 2) sdiv 5 + 1;
          month = month_prime + (if month_prime < 10 then 3 else -9);
          year = year + (if month \<le> 2 then 1 else 0)
      in ebind (i32_try_from ''invalid adjusted TIMESTAMP year'' year) (\<lambda>y.
         ebind (u8_try_from ''invalid adjusted TIMESTAMP month'' month) (\<lambda>m.
         ebind (u8_try_from ''invalid adjusted TIMESTAMP day'' day) (\<lambda>d.
         Inr (y, m, d)))))"

definition adjust_datetime_by_minutes ::
  "int \<Rightarrow> nat \<Rightarrow> nat \<Rightarrow> nat \<Rightarrow> nat \<Rightarrow> nat \<Rightarrow> int \<Rightarrow> (int \<times> nat \<times> nat \<times> nat \<times> nat \<times> nat) res" where
  "adjust_datetime_by_minutes year month day hour minute second offset_minutes =
     ebind (days_from_civil year month day) (\<lambda>days.
     let seconds_of_day = int hour * 3600 + int minute * 60 + int second in
     ebind (ok_or (TtcDecode ''TIMESTAMP WITH TIME ZONE offset overflow'')
        (Option.bind (checked_i64 (days * 86400)) (\<lambda>v.
         Option.bind (checked_i64 (v + seconds_of_day)) (\<lambda>v.
         checked_i64 (v + offset_minutes * 60))))) (\<lambda>total_seconds.
     let adjusted_days = total_seconds div 86400;
         adjusted_seconds = total_seconds mod 86400 in
     ebind (civil_from_days adjusted_days) (\<lambda>(y, m, d).
     ebind (u8_try_from ''invalid adjusted TIMESTAMP hour'' (adjusted_seconds sdiv 3600)) (\<lambda>h.
     ebind (u8_try_from ''invalid adjusted TIMESTAMP minute'' (adjusted_seconds smod 3600 sdiv 60)) (\<lambda>mi.
     ebind (u8_try_from ''invalid adjusted TIMESTAMP second'' (adjusted_seconds smod 60)) (\<lambda>s.
     Inr (y, m, d, h, mi, s)))))))"


subsection \<open>The calendar\<close>

text \<open>The reference: Gregorian leap years and month lengths.\<close>

definition leap_year :: "int \<Rightarrow> bool" where
  "leap_year y \<longleftrightarrow> y mod 4 = 0 \<and> (y mod 100 \<noteq> 0 \<or> y mod 400 = 0)"

definition days_in_month :: "int \<Rightarrow> nat \<Rightarrow> nat" where
  "days_in_month y m = (if m = 2 then (if leap_year y then 29 else 28) else if m \<in> {4, 6, 9, 11} then 30 else 31)"

definition civil_date :: "int \<Rightarrow> nat \<Rightarrow> nat \<Rightarrow> bool" where
  "civil_date y m d \<longleftrightarrow> 1 \<le> m \<and> m \<le> 12 \<and> 1 \<le> d \<and> d \<le> days_in_month y m"

text \<open>
  A year of the 400-year cycle that starts in March is \<open>100 c + 4 q + r\<close>; its first day is
  \<open>36524 c + 1461 q + 365 r\<close>, and it has a 366th day when its February is in a leap year.
\<close>

definition cycle_day :: "int \<Rightarrow> int \<Rightarrow> int \<Rightarrow> int \<Rightarrow> bool" where
  "cycle_day c q r doy \<longleftrightarrow> 0 \<le> c \<and> c \<le> 3 \<and> 0 \<le> q \<and> q \<le> 24 \<and> 0 \<le> r \<and> r \<le> 3 \<and>
     0 \<le> doy \<and> doy \<le> 365 \<and> (doy = 365 \<longrightarrow> r = 3 \<and> (q = 24 \<longrightarrow> c = 3))"

lemma sdiv_pos: "0 \<le> a \<Longrightarrow> 0 < b \<Longrightarrow> a sdiv b = a div b" for a b :: int
  by (simp add: signed_divide_int_def sgn_if)

lemma smod_pos: "0 \<le> a \<Longrightarrow> 0 < b \<Longrightarrow> a smod b = a mod b" for a b :: int
  using sdiv_mult_smod_eq [of a b] by (simp only: sdiv_pos) (simp only: minus_div_mult_eq_mod [symmetric] eq_diff_eq add.commute)

lemma div_unique_int: "b * q \<le> a \<Longrightarrow> a < b * q + b \<Longrightarrow> 0 < b \<Longrightarrow> a div b = q" for a b q :: int
  by (intro int_div_pos_eq [of a b q "a - b * q"]) auto

lemma era_sdiv_aux:
  assumes "(b :: int) > 0"
  shows "(if x \<ge> 0 then x else x - (b - 1)) sdiv b = x div b"
proof (cases "x \<ge> 0")
  case True
  then show ?thesis using assms by (simp add: sdiv_pos)
next
  case False
  have "(x - (b - 1)) sdiv b = - ((b - 1 - x) div b)"
    using False assms by (simp add: signed_divide_int_def sgn_if abs_if)
  also have "(b - 1 - x) div b = - (x div b)"
  proof (rule div_unique_int)
    have "x = b * (x div b) + x mod b" "0 \<le> x mod b" "x mod b < b" using assms by simp_all
    then show "b * - (x div b) \<le> b - 1 - x" "b - 1 - x < b * - (x div b) + b"
      by (simp_all only: mult_minus_right)
  qed (rule assms)
  finally show ?thesis using False by simp
qed

lemma era_sdiv:
  "(0 :: int) < b \<Longrightarrow> k = b - 1 \<Longrightarrow> (if x \<ge> 0 then x else x - k) sdiv b = x div b"
  using era_sdiv_aux by blast

lemma cycle_year:
  assumes "cycle_day c q r doy"
  defines "doe \<equiv> 36524 * c + 1461 * q + 365 * r + doy"
  shows "0 \<le> doe" "doe \<le> 146096"
    and "(doe - doe div 1460 + doe div 36524 - doe div 146096) div 365 = 100 * c + 4 * q + r"
    and "(100 * c + 4 * q + r) div 4 = 25 * c + q" "(100 * c + 4 * q + r) div 100 = c"
proof -
  note a = assms(1) [unfolded cycle_day_def]
  show nn: "0 \<le> doe" and "doe \<le> 146096" using a by (auto simp: doe_def)
  show "(100 * c + 4 * q + r) div 4 = 25 * c + q" "(100 * c + 4 * q + r) div 100 = c"
    using a by (auto intro!: div_unique_int)
  have c: "doe div 36524 - doe div 146096 = c"
  proof (cases "c = 3 \<and> q = 24 \<and> r = 3 \<and> doy = 365")
    case True
    then show ?thesis by (simp add: doe_def)
  next
    case False
    then have "1461 * q + 365 * r + doy < 36524" using a by auto
    then have "doe div 36524 = c" "doe div 146096 = 0"
      using a unfolding doe_def by (auto intro!: div_unique_int div_pos_pos_trivial)
    then show ?thesis by simp
  qed
  let ?x = "24 * c + q + 365 * r + doy"
  let ?e = "if ?x < 1460 then 0 else 1 :: int"
  have "doe div 1460 = 25 * c + q + ?e"
    using a by (intro div_unique_int) (auto simp: doe_def)
  then have "doe - doe div 1460 + doe div 36524 - doe div 146096 = 365 * (100 * c + 4 * q + r) + (doy - ?e)"
    using c by (simp add: doe_def)
  moreover have "0 \<le> doy - ?e" "doy - ?e < 365" using a by auto
  ultimately show "(doe - doe div 1460 + doe div 36524 - doe div 146096) div 365 = 100 * c + 4 * q + r"
    by (intro div_unique_int) auto
qed

lemma min_div:
  fixes x n K :: int
  assumes "0 \<le> x" "0 < n" "0 \<le> K" "k = min K (x div n)"
  shows "0 \<le> k" "k \<le> K" "n * k \<le> x" "x < n * k + n \<or> k = K"
proof -
  have d: "n * (x div n) \<le> x" "x < n * (x div n) + n"
    using assms(2) mult_div_mod_eq [of n x] pos_mod_sign [of n x] pos_mod_bound [of n x] by linarith+
  have "0 \<le> x div n" using assms(1,2) by (simp add: pos_imp_zdiv_nonneg_iff)
  then show "0 \<le> k" "k \<le> K" using assms(3,4) by simp_all
  show "x < n * k + n \<or> k = K" using d(2) assms(4) by (simp add: min_def)
  have "n * k \<le> n * (x div n)" using assms(2,4) by simp
  then show "n * k \<le> x" using d(1) by linarith
qed

lemma cycle_cover:
  assumes "0 \<le> doe" "doe < 146097"
  shows "\<exists>c q r doy. cycle_day c q r doy \<and> doe = 36524 * c + 1461 * q + 365 * r + doy"
proof -
  define c where "c = min 3 (doe div 36524)"
  have c: "0 \<le> c" "c \<le> 3" "36524 * c \<le> doe" "doe < 36524 * c + 36524 \<or> c = 3"
    by (rule min_div [OF assms(1) _ _ c_def]; simp)+
  define d1 where "d1 = doe - 36524 * c"
  have d1: "0 \<le> d1" "d1 < 36524 \<or> d1 = 36524 \<and> c = 3"
    using c(3,4) assms(2) unfolding d1_def by linarith+
  define q where "q = min 24 (d1 div 1461)"
  have q: "0 \<le> q" "q \<le> 24" "1461 * q \<le> d1" "d1 < 1461 * q + 1461 \<or> q = 24"
    by (rule min_div [OF d1(1) _ _ q_def]; simp)+
  define d2 where "d2 = d1 - 1461 * q"
  have d2: "0 \<le> d2" "d2 < 1460 \<or> d2 = 1460 \<and> (q = 24 \<longrightarrow> c = 3)"
    using q(3,4) d1(2) unfolding d2_def by linarith+
  define r where "r = min 3 (d2 div 365)"
  have r: "0 \<le> r" "r \<le> 3" "365 * r \<le> d2" "d2 < 365 * r + 365 \<or> r = 3"
    by (rule min_div [OF d2(1) _ _ r_def]; simp)+
  define doy where "doy = d2 - 365 * r"
  have "0 \<le> doy" "doy < 365 \<or> doy = 365 \<and> r = 3 \<and> (q = 24 \<longrightarrow> c = 3)"
    using r(3,4) d2(2) unfolding doy_def by linarith+
  then have "cycle_day c q r doy"
    using c(1,2) q(1,2) r(1,2) unfolding cycle_day_def by linarith
  moreover have "doe = 36524 * c + 1461 * q + 365 * r + doy" by (simp add: d1_def d2_def doy_def)
  ultimately show ?thesis by blast
qed

lemma cycle_split:
  assumes "Y mod 400 = yoe"
  obtains c q r where "yoe = 100 * c + 4 * q + r" "0 \<le> c" "c \<le> 3" "0 \<le> q" "q \<le> 24" "0 \<le> r" "r \<le> (3 :: int)"
proof
  let ?c = "yoe div 100" and ?q = "yoe mod 100 div 4" and ?r = "yoe mod 100 mod 4"
  show "yoe = 100 * ?c + 4 * ?q + ?r" by (simp only: add.assoc mult_div_mod_eq)
  have y: "0 \<le> yoe" "yoe < 400" using assms by auto
  show "0 \<le> ?c" using y by (simp add: pos_imp_zdiv_nonneg_iff)
  have "yoe div 100 < 4" using y by presburger
  then show "?c \<le> 3" by simp
  have m: "0 \<le> yoe mod 100" "yoe mod 100 < 100" by simp_all
  then show "0 \<le> ?q" by (simp add: pos_imp_zdiv_nonneg_iff)
  have "?q < 25" by presburger
  then show "?q \<le> 24" by simp
  show "0 \<le> ?r" by simp
  have "?r < 4" by simp
  then show "?r \<le> 3" by simp
qed

lemma leap_cycle:
  assumes "0 \<le> c" "c \<le> 3" "0 \<le> q" "q \<le> 24" "0 \<le> r" "r \<le> 3"
  shows "leap_year (400 * e + (100 * c + 4 * q + r) + 1) \<longleftrightarrow> r = 3 \<and> (q = 24 \<longrightarrow> c = 3)"
proof -
  let ?y = "400 * e + (100 * c + 4 * q + r) + 1"
  have "?y = (r + 1) + (100 * e + 25 * c + q) * 4" by simp
  then have 4: "?y mod 4 = (r + 1) mod 4" by (simp only: mod_mult_self1)
  have "?y = (4 * q + r + 1) + (4 * e + c) * 100" by simp
  then have 100: "?y mod 100 = (4 * q + r + 1) mod 100" by (simp only: mod_mult_self1)
  have "?y = (100 * c + 4 * q + r + 1) + e * 400" by simp
  then have 400: "?y mod 400 = (100 * c + 4 * q + r + 1) mod 400" by (simp only: mod_mult_self1)
  have "(r + 1) mod 4 = 0 \<longleftrightarrow> r = 3" using assms(5,6) by (cases "r = 3") simp_all
  moreover have "(4 * q + 3 + 1) mod 100 = 0 \<longleftrightarrow> q = 24" using assms(3,4) by (cases "q = 24") simp_all
  moreover have "(100 * c + 4 * 24 + 3 + 1) mod 400 = 0 \<longleftrightarrow> c = 3" using assms(1,2) by (cases "c = 3") simp_all
  ultimately show ?thesis unfolding leap_year_def 4 100 400 by auto
qed

text \<open>The day of the March-based year and back.\<close>

definition month_start :: "int \<Rightarrow> int" where
  "month_start mp = (153 * mp + 2) div 5"

lemma month_cases: "1 \<le> m \<Longrightarrow> m \<le> 12 \<Longrightarrow> m \<in> {1, 2, 3, 4, 5, 6, 7, 8, 9, 10, 11, 12 :: nat}"
proof -
  assume "1 \<le> m" "m \<le> 12"
  then have "m \<in> set [1..<13]" by simp
  also have "[1..<13] = [1, 2, 3, 4, 5, 6, 7, 8, 9, 10, 11, 12]" by code_simp
  finally show ?thesis by simp
qed

lemma month_forward:
  assumes "civil_date y m d"
  defines "mp \<equiv> int m + (if int m > 2 then -3 else 9)"
  defines "doy \<equiv> month_start mp + int d - 1"
  shows "0 \<le> mp" "0 \<le> doy" "doy \<le> 365" "doy = 365 \<Longrightarrow> m = 2 \<and> leap_year y"
    "(5 * doy + 2) div 153 = mp" "mp + (if mp < 10 then 3 else -9) = int m"
proof -
  have m: "m \<in> {1, 2, 3, 4, 5, 6, 7, 8, 9, 10, 11, 12}"
    using assms(1) month_cases by (simp only: civil_date_def)
  note d = assms(1) [unfolded civil_date_def days_in_month_def]
  show "0 \<le> mp" "0 \<le> doy" "doy \<le> 365" "doy = 365 \<Longrightarrow> m = 2 \<and> leap_year y"
      "mp + (if mp < 10 then 3 else -9) = int m"
    using m d unfolding mp_def doy_def by (elim insertE; auto simp: month_start_def split: if_splits)+
  show "(5 * doy + 2) div 153 = mp"
    using m d unfolding mp_def doy_def
    by (intro div_unique_int) (elim insertE; auto simp: month_start_def split: if_splits)+
qed

lemma month_backward:
  assumes "0 \<le> doy" "doy \<le> 365" "mp = (5 * doy + 2) div 153" "d = doy - month_start mp + 1"
    and "m = mp + (if mp < 10 then 3 else -9)" "doy = 365 \<Longrightarrow> leap_year y"
  shows "1 \<le> m" "m \<le> 12" "1 \<le> d" "d \<le> int (days_in_month y (nat m))"
    "m + (if m > 2 then -3 else 9) = mp"
proof -
  have "153 * mp \<le> 5 * doy + 2" "5 * doy + 2 < 153 * mp + 153"
    using assms(3) mult_div_mod_eq [of 153 "5 * doy + 2"] pos_mod_sign [of 153 "5 * doy + 2"]
      pos_mod_bound [of 153 "5 * doy + 2"] by linarith+
  note b = this
  have "0 \<le> mp" "mp \<le> 11" using b assms(1,2) by linarith+
  then have "mp \<in> set [0..11]" by simp
  also have "[0..11] = [0, 1, 2, 3, 4, 5, 6, 7, 8, 9, 10, 11 :: int]" by code_simp
  finally have "mp \<in> {0, 1, 2, 3, 4, 5, 6, 7, 8, 9, 10, 11}" by simp
  then show "1 \<le> m" "m \<le> 12" "m + (if m > 2 then -3 else 9) = mp"
    using assms(5) by (elim insertE; simp)+
  show "1 \<le> d" using \<open>mp \<in> {0, 1, 2, 3, 4, 5, 6, 7, 8, 9, 10, 11}\<close> b(1) assms(4)
    by (elim insertE; simp add: month_start_def)
  show "d \<le> int (days_in_month y (nat m))"
    using \<open>mp \<in> {0, 1, 2, 3, 4, 5, 6, 7, 8, 9, 10, 11}\<close> b(2) assms(2,4-6)
    by (elim insertE; simp add: month_start_def days_in_month_def; linarith?)
qed

text \<open>
  The closed form of the day count: the first day of March-based year \<open>Y\<close>.
\<close>

definition year_start :: "int \<Rightarrow> int" where
  "year_start Y = 365 * Y + Y div 4 - Y div 100 + Y div 400"

lemma year_start_cycle:
  assumes "0 \<le> c" "c \<le> 3" "0 \<le> q" "q \<le> 24" "0 \<le> r" "r \<le> 3"
  shows "year_start (400 * e + (100 * c + 4 * q + r)) = 146097 * e + 36524 * c + 1461 * q + 365 * r"
proof -
  let ?Y = "400 * e + (100 * c + 4 * q + r)"
  have "?Y div 4 = 100 * e + 25 * c + q" "?Y div 100 = 4 * e + c" "?Y div 400 = e"
    using assms by (auto intro!: div_unique_int)
  then show ?thesis by (simp add: year_start_def)
qed

lemma days_from_civil_eq:
  assumes "1 \<le> m" "m \<le> 12" "1 \<le> d" "d \<le> 31"
  shows "days_from_civil y m d = Inr (year_start (y - (if m \<le> 2 then 1 else 0)) +
    month_start (int m + (if int m > 2 then -3 else 9)) + int d - 719469)"
proof -
  define Y where "Y = y - (if m \<le> 2 then 1 else 0)"
  define e where "e = Y div 400"
  obtain c q r where yoe: "Y mod 400 = 100 * c + 4 * q + r"
      and b: "0 \<le> c" "c \<le> 3" "0 \<le> q" "q \<le> 24" "0 \<le> r" "r \<le> 3"
    using cycle_split [OF refl, of Y] by metis
  have Y: "Y = 400 * e + (100 * c + 4 * q + r)" using mult_div_mod_eq [of 400 Y] yoe by (simp add: e_def)
  have cd: "cycle_day c q r 0" using b by (simp add: cycle_day_def)
  have era: "(if Y \<ge> 0 then Y else Y - 399) sdiv 400 = e" unfolding e_def by (rule era_sdiv) simp_all
  have "Y - e * 400 = 100 * c + 4 * q + r" using Y by simp
  moreover have "0 \<le> 100 * c + 4 * q + r" using b by simp
  moreover have "0 \<le> 153 * (int m + (if int m > 2 then -3 else 9)) + 2" using assms by simp
  ultimately show ?thesis
    unfolding days_from_civil_def Y_def [symmetric] Let_def era
    using assms year_start_cycle [OF b, of e] cycle_year(4,5) [OF cd]
    by (simp add: sdiv_pos month_start_def Y [symmetric])
qed

lemma civil_from_days_eq:
  assumes "cycle_day c q r doy" "n + 719468 = 146097 * e + 36524 * c + 1461 * q + 365 * r + doy"
  defines "mp \<equiv> (5 * doy + 2) div 153"
  defines "m \<equiv> mp + (if mp < 10 then 3 else -9)"
  defines "y \<equiv> 400 * e + (100 * c + 4 * q + r) + (if m \<le> 2 then 1 else 0)"
  defines "d \<equiv> doy - month_start mp + 1"
  shows "civil_from_days n =
    (if i32_range y then Inr (y, nat m, nat d) else Inl (TtcDecode ''invalid adjusted TIMESTAMP year''))"
proof -
  define doe where "doe = 36524 * c + 1461 * q + 365 * r + doy"
  note cy = cycle_year [OF assms(1), folded doe_def]
  note b = assms(1) [unfolded cycle_day_def]
  have nd: "n + 719468 = 146097 * e + doe" using assms(2) by (simp add: doe_def)
  have era: "(if n + 719468 \<ge> 0 then n + 719468 else n + 719468 - 146096) sdiv 146097 = e"
  proof -
    have "(n + 719468) div 146097 = e" using cy(1,2) unfolding nd by (intro div_unique_int) auto
    then show ?thesis by (subst era_sdiv) simp_all
  qed
  have de: "n + 719468 - e * 146097 = doe" using nd by simp
  have yoe: "(doe - doe sdiv 1460 + doe sdiv 36524 - doe sdiv 146096) sdiv 365 = 100 * c + 4 * q + r"
  proof -
    have "0 \<le> doe div 1460" "doe div 1460 \<le> doe" "doe div 146096 \<le> doe div 36524"
      using cy(1) zdiv_mono2 [of doe 1 1460] zdiv_mono2 [of doe 36524 146096]
      by (simp_all add: pos_imp_zdiv_nonneg_iff)
    then have "0 \<le> doe - doe div 1460 + doe div 36524 - doe div 146096" by linarith
    then show ?thesis using cy(1,3) by (simp add: sdiv_pos)
  qed
  have ynn: "0 \<le> 100 * c + 4 * q + r" using b by simp
  have doy: "doe - (365 * (100 * c + 4 * q + r) + (100 * c + 4 * q + r) sdiv 4 - (100 * c + 4 * q + r) sdiv 100) = doy"
    using cy(4,5) ynn by (simp add: sdiv_pos doe_def)
  have mp: "(5 * doy + 2) sdiv 153 = mp" using b by (simp add: sdiv_pos mp_def)
  have leap: "leap_year (400 * e + (100 * c + 4 * q + r) + 1)" if "doy = 365"
    using that b leap_cycle [of c q r e] by simp
  have "\<exists>y. doy = 365 \<longrightarrow> leap_year y" using leap by blast
  then obtain y' where y': "doy = 365 \<Longrightarrow> leap_year y'" by blast
  have mb: "1 \<le> m" "m \<le> 12" "1 \<le> d" "d \<le> int (days_in_month y' (nat m))"
    using month_backward [of doy mp d m y'] b y' by (simp_all add: mp_def m_def d_def)
  have "days_in_month y' (nat m) \<le> 31" by (simp add: days_in_month_def)
  then have d31: "d \<le> 31" using mb(4) by linarith
  have "0 \<le> mp" using b by (simp add: mp_def pos_imp_zdiv_nonneg_iff)
  then have ms: "(153 * mp + 2) sdiv 5 = month_start mp" by (simp add: sdiv_pos month_start_def)
  show ?thesis
    unfolding civil_from_days_def Let_def era de yoe doy mp ms m_def [symmetric] d_def [symmetric]
    using mb d31 by (simp add: i32_try_from_def u8_try_from_def y_def ac_simps)
qed


subsection \<open>Properties\<close>

lemma civil_date_bounds: "civil_date y m d \<Longrightarrow> 1 \<le> m \<and> m \<le> 12 \<and> 1 \<le> d \<and> d \<le> 31"
  by (auto simp: civil_date_def days_in_month_def split: if_splits)

lemma days_then_civil:
  assumes "civil_date y m d" "i32_range y" "days_from_civil y m d = Inr n"
  shows "civil_from_days n = Inr (y, m, d)"
proof -
  define Y where "Y = y - (if m \<le> 2 then 1 else 0)"
  define mp where "mp = int m + (if int m > 2 then -3 else 9)"
  define doy where "doy = month_start mp + int d - 1"
  note mf = month_forward [OF assms(1), folded mp_def, folded doy_def]
  note bd = civil_date_bounds [OF assms(1)]
  obtain c q r where yoe: "Y mod 400 = 100 * c + 4 * q + r"
      and b: "0 \<le> c" "c \<le> 3" "0 \<le> q" "q \<le> 24" "0 \<le> r" "r \<le> 3"
    using cycle_split [OF refl, of Y] by metis
  define e where "e = Y div 400"
  have Y: "Y = 400 * e + (100 * c + 4 * q + r)" using mult_div_mod_eq [of 400 Y] yoe by (simp add: e_def)
  have cd: "cycle_day c q r doy"
  proof -
    have "r = 3 \<and> (q = 24 \<longrightarrow> c = 3)" if "doy = 365"
    proof -
      have "m = 2" "leap_year y" using mf(4) [OF that] by simp_all
      moreover have "y = Y + 1" using \<open>m = 2\<close> by (simp add: Y_def)
      ultimately have "leap_year (400 * e + (100 * c + 4 * q + r) + 1)" by (simp only: Y)
      then show ?thesis using leap_cycle [OF b] by simp
    qed
    then show ?thesis using b mf(2,3) by (simp add: cycle_day_def)
  qed
  have "n + 719468 = 146097 * e + 36524 * c + 1461 * q + 365 * r + doy"
    using assms(3) days_from_civil_eq [of m d y] bd year_start_cycle [OF b, of e]
    by (simp add: Y_def [symmetric] Y [symmetric] doy_def mp_def)
  from civil_from_days_eq [OF cd this] mf(5,6)
  have "civil_from_days n = (let y' = Y + (if int m \<le> 2 then 1 else 0) in
      if i32_range y' then Inr (y', m, d) else Inl (TtcDecode ''invalid adjusted TIMESTAMP year''))"
    by (simp add: Y [symmetric] doy_def Let_def)
  then show ?thesis using assms(2) by (simp add: Y_def Let_def)
qed

lemma civil_then_days:
  assumes "civil_from_days n = Inr (y, m, d)"
  shows "civil_date y m d \<and> i32_range y \<and> days_from_civil y m d = Inr n"
proof -
  define e where "e = (n + 719468) div 146097"
  obtain c q r doy where cd: "cycle_day c q r doy"
      and doe: "(n + 719468) mod 146097 = 36524 * c + 1461 * q + 365 * r + doy"
    using cycle_cover [of "(n + 719468) mod 146097"] by auto
  have n: "n + 719468 = 146097 * e + 36524 * c + 1461 * q + 365 * r + doy"
    using mult_div_mod_eq [of 146097 "n + 719468"] doe by (simp add: e_def)
  note b = cd [unfolded cycle_day_def]
  define mp where "mp = (5 * doy + 2) div 153"
  define M where "M = mp + (if mp < 10 then 3 else -9)"
  define Y where "Y = 400 * e + (100 * c + 4 * q + r)"
  define D where "D = doy - month_start mp + 1"
  have r: "i32_range y" "y = Y + (if M \<le> 2 then 1 else 0)" "m = nat M" "d = nat D"
    using assms civil_from_days_eq [OF cd n, folded mp_def, folded M_def D_def Y_def]
    by (auto split: if_splits)
  have leap: "leap_year y" if "doy = 365"
  proof -
    have "mp = 11" using that by (simp add: mp_def)
    then show ?thesis using that b leap_cycle [of c q r e] by (simp add: r(2) M_def Y_def)
  qed
  note mb = month_backward [OF _ _ mp_def D_def M_def leap]
  have mb: "1 \<le> M" "M \<le> 12" "1 \<le> D" "D \<le> int (days_in_month y m)" "M + (if M > 2 then -3 else 9) = mp"
    using mb b by (simp_all add: r(3))
  have cv: "civil_date y m d"
    using mb(1-4) unfolding civil_date_def r(3,4) by linarith
  have Y: "Y = y - (if m \<le> 2 then 1 else 0)" using r(2,3) mb(1) by (simp add: nat_le_iff)
  have "days_from_civil y m d = Inr (year_start Y + month_start mp + D - 719469)"
    using days_from_civil_eq [of m d y] civil_date_bounds [OF cv] mb(1,3,5) by (simp add: Y r(3,4))
  moreover have "year_start Y = 146097 * e + 36524 * c + 1461 * q + 365 * r"
    using year_start_cycle [of c q r e] b by (simp add: Y_def)
  ultimately show ?thesis using cv r(1) n by (simp add: D_def)
qed

lemma civil_from_days_total:
  assumes "\<bar>n\<bar> \<le> 10000000"
  obtains y m d where "civil_from_days n = Inr (y, m, d)"
proof -
  define e where "e = (n + 719468) div 146097"
  obtain c q r doy where cd: "cycle_day c q r doy"
      and doe: "(n + 719468) mod 146097 = 36524 * c + 1461 * q + 365 * r + doy"
    using cycle_cover [of "(n + 719468) mod 146097"] by auto
  have n: "n + 719468 = 146097 * e + 36524 * c + 1461 * q + 365 * r + doy"
    using mult_div_mod_eq [of 146097 "n + 719468"] doe by (simp add: e_def)
  have b: "0 \<le> c" "c \<le> 3" "0 \<le> q" "q \<le> 24" "0 \<le> r" "r \<le> 3" "0 \<le> doy" "doy \<le> 365"
    using cd by (simp_all add: cycle_day_def)
  have "-100 \<le> e" "e \<le> 100" using n b assms by linarith+
  then have "i32_range (400 * e + (100 * c + 4 * q + r) + x)" if "x = 0 \<or> x = 1" for x
    using b that unfolding i32_range_def by auto
  then show thesis using civil_from_days_eq [OF cd n] that by (simp split: if_splits)
qed

lemma year_start_bounds:
  assumes "- 5000 \<le> Y" "Y \<le> 10000"
  shows "\<bar>year_start Y\<bar> \<le> 4000000"
proof -
  have "- 1250 \<le> Y div 4" "Y div 4 \<le> 2500" "- 50 \<le> Y div 100" "Y div 100 \<le> 100"
      "- 13 \<le> Y div 400" "Y div 400 \<le> 25"
    using zdiv_mono1 [OF assms(1), of 4] zdiv_mono1 [OF assms(2), of 4] zdiv_mono1 [OF assms(1), of 100]
      zdiv_mono1 [OF assms(2), of 100] zdiv_mono1 [OF assms(1), of 400] zdiv_mono1 [OF assms(2), of 400]
    by simp_all
  then show ?thesis using assms unfolding year_start_def by linarith
qed



text \<open>The day after a date.\<close>

definition next_date :: "int \<times> nat \<times> nat \<Rightarrow> int \<times> nat \<times> nat" where
  "next_date = (\<lambda>(y, m, d). if d < days_in_month y m then (y, m, d + 1)
     else if m < 12 then (y, m + 1, 1) else (y + 1, 1, 1))"

lemma year_start_step: "year_start (Y + 1) = year_start Y + (if leap_year (Y + 1) then 366 else 365)"
proof -
  obtain c q r where yoe: "Y mod 400 = 100 * c + 4 * q + r"
      and b: "0 \<le> c" "c \<le> 3" "0 \<le> q" "q \<le> 24" "0 \<le> r" "r \<le> 3"
    using cycle_split [OF refl, of Y] by metis
  define e where "e = Y div 400"
  have Y: "Y = 400 * e + (100 * c + 4 * q + r)" using mult_div_mod_eq [of 400 Y] yoe by (simp add: e_def)
  have ys: "year_start Y = 146097 * e + 36524 * c + 1461 * q + 365 * r"
    unfolding Y by (rule year_start_cycle [OF b])
  have lp: "leap_year (Y + 1) \<longleftrightarrow> r = 3 \<and> (q = 24 \<longrightarrow> c = 3)"
    unfolding Y by (rule leap_cycle [OF b])
  consider "r < 3" | "r = 3" "q < 24" | "r = 3" "q = 24" "c < 3" | "r = 3" "q = 24" "c = 3"
    using b by linarith
  then show ?thesis
  proof cases
    case 1
    then have "year_start (400 * e + (100 * c + 4 * q + (r + 1))) = 146097 * e + 36524 * c + 1461 * q + 365 * (r + 1)"
      using b by (intro year_start_cycle) auto
    then show ?thesis using 1 ys lp by (simp add: Y ac_simps)
  next
    case 2
    then have "year_start (400 * e + (100 * c + 4 * (q + 1) + 0)) = 146097 * e + 36524 * c + 1461 * (q + 1) + 365 * 0"
      using b by (intro year_start_cycle) auto
    then show ?thesis using 2 ys lp by (simp add: Y ac_simps)
  next
    case 3
    then have "year_start (400 * e + (100 * (c + 1) + 4 * 0 + 0)) = 146097 * e + 36524 * (c + 1) + 1461 * 0 + 365 * 0"
      using b by (intro year_start_cycle) auto
    then show ?thesis using 3 ys lp by (simp add: Y ac_simps)
  next
    case 4
    have "year_start (400 * (e + 1) + (100 * 0 + 4 * 0 + 0)) = 146097 * (e + 1) + 36524 * 0 + 1461 * 0 + 365 * 0"
      by (intro year_start_cycle) auto
    then show ?thesis using 4 ys lp by (simp add: Y ac_simps)
  qed
qed

lemma next_date_days:
  assumes "civil_date y m d" "next_date (y, m, d) = (y', m', d')" "days_from_civil y m d = Inr n"
  shows "days_from_civil y' m' d' = Inr (n + 1)"
proof -
  have m: "m \<in> {1, 2, 3, 4, 5, 6, 7, 8, 9, 10, 11, 12}"
    using assms(1) month_cases by (simp only: civil_date_def)
  note bd = civil_date_bounds [OF assms(1)]
  have n: "n = year_start (y - (if m \<le> 2 then 1 else 0)) +
      month_start (int m + (if int m > 2 then -3 else 9)) + int d - 719469"
    using assms(3) days_from_civil_eq [of m d y] bd by simp
  show ?thesis
  proof (cases "d < days_in_month y m")
    case True
    moreover have "days_in_month y m \<le> 31" by (simp add: days_in_month_def)
    ultimately have "d < 31" by linarith
    then show ?thesis
      using True assms(2) bd n days_from_civil_eq [of m "d + 1" y] by (simp add: next_date_def)
  next
    case False
    then have d: "d = days_in_month y m" using assms(1) by (simp add: civil_date_def)
    have ys: "year_start y = year_start (y - 1) + (if leap_year y then 366 else 365)"
      using year_start_step [of "y - 1"] by simp
    have y: "y' = (if m < 12 then y else y + 1)" "m' = (if m < 12 then m + 1 else 1)" "d' = 1"
      using assms(2) False by (auto simp: next_date_def split: if_splits)
    have "days_from_civil y' m' d' = Inr (year_start (y' - (if m' \<le> 2 then 1 else 0)) +
        month_start (int m' + (if int m' > 2 then -3 else 9)) + int d' - 719469)"
      using bd by (intro days_from_civil_eq) (simp_all add: y)
    also have "\<dots> = Inr (n + 1)"
      using m unfolding n d y by (elim insertE; simp add: month_start_def days_in_month_def ys)
    finally show ?thesis .
  qed
qed

text \<open>
  \<^verbatim>\<open>days_from_civil\<close> counts days: the epoch is day 0, and the calendar's next day after any
  Gregorian date, over month ends and leap days, has the next number.
\<close>

theorem days_from_civil_counts:
  assumes "civil_date y m d"
  shows "days_from_civil 1970 1 1 = Inr 0 \<and>
    (\<exists>n y' m' d'. days_from_civil y m d = Inr n \<and> next_date (y, m, d) = (y', m', d') \<and>
       days_from_civil y' m' d' = Inr (n + 1))"
proof
  show "days_from_civil 1970 1 1 = Inr 0"
    by (simp add: days_from_civil_eq year_start_def month_start_def)
  obtain n where n: "days_from_civil y m d = Inr n"
    using days_from_civil_eq [of m d y] civil_date_bounds [OF assms] by blast
  obtain y' m' d' where "next_date (y, m, d) = (y', m', d')" by (metis prod_cases3)
  with n show "\<exists>n y' m' d'. days_from_civil y m d = Inr n \<and> next_date (y, m, d) = (y', m', d') \<and>
       days_from_civil y' m' d' = Inr (n + 1)"
    using next_date_days [OF assms] by blast
qed

theorem days_from_civil_counts_witness:
  "days_from_civil 1970 1 1 = Inr 0 \<and>
   (\<exists>n y' m' d'. days_from_civil 2000 2 28 = Inr n \<and> next_date (2000, 2, 28) = (y', m', d') \<and>
      days_from_civil y' m' d' = Inr (n + 1))"
  by (rule days_from_civil_counts) (simp add: civil_date_def days_in_month_def)


subsection \<open>Shifting a timestamp\<close>

text \<open>Seconds since the epoch of a date and time of day.\<close>

definition instant :: "int \<times> nat \<times> nat \<times> nat \<times> nat \<times> nat \<Rightarrow> int res" where
  "instant = (\<lambda>(y, m, d, h, mi, s). map_sum id (\<lambda>n. n * 86400 + int h * 3600 + int mi * 60 + int s) (days_from_civil y m d))"

definition datetime_ok :: "int \<times> nat \<times> nat \<times> nat \<times> nat \<times> nat \<Rightarrow> bool" where
  "datetime_ok = (\<lambda>(y, m, d, h, mi, s). civil_date y m d \<and> i32_range y \<and> h < 24 \<and> mi < 60 \<and> s < 60)"

lemma time_of_day_split:
  fixes t :: int
  assumes "0 \<le> t" "t < 86400"
  shows "0 \<le> t sdiv 3600" "t sdiv 3600 < 24" "0 \<le> t smod 3600 sdiv 60" "t smod 3600 sdiv 60 < 60"
    "0 \<le> t smod 60" "t smod 60 < 60"
    "t sdiv 3600 * 3600 + t smod 3600 sdiv 60 * 60 + t smod 60 = t"
proof -
  have eq: "t sdiv 3600 = t div 3600" "t smod 3600 sdiv 60 = t mod 3600 div 60" "t smod 60 = t mod 60"
    using assms by (simp_all add: sdiv_pos smod_pos)
  have "t mod 3600 mod 60 = t mod 60" by (rule mod_mod_cancel) simp
  then have "t mod 3600 div 60 * 60 + t mod 60 = t mod 3600"
    using div_mult_mod_eq [of "t mod 3600" 60] by simp
  then show "t sdiv 3600 * 3600 + t smod 3600 sdiv 60 * 60 + t smod 60 = t"
    using div_mult_mod_eq [of t 3600] unfolding eq by linarith
  show "0 \<le> t sdiv 3600" "0 \<le> t smod 3600 sdiv 60" "0 \<le> t smod 60" "t smod 60 < 60"
    unfolding eq using assms(1) by (simp_all add: pos_imp_zdiv_nonneg_iff)
  have "3600 * (t div 3600) \<le> t" using mult_div_mod_eq [of 3600 t] pos_mod_sign [of 3600 t] by linarith
  then show "t sdiv 3600 < 24" unfolding eq using assms(2) by linarith
  have "60 * (t mod 3600 div 60) \<le> t mod 3600"
    using mult_div_mod_eq [of 60 "t mod 3600"] pos_mod_sign [of 60 "t mod 3600"] by linarith
  then show "t smod 3600 sdiv 60 < 60" unfolding eq using pos_mod_bound [of 3600 t] by linarith
qed

lemma adjust_eq:
  assumes "instant (y, m, d, h, mi, s) = Inr t" "\<bar>t\<bar> \<le> 800000000000" "\<bar>off\<bar> \<le> 1439"
    and "h < 256" "mi < 256" "s < 256"
  obtains y' m' d' h' mi' s' where "adjust_datetime_by_minutes y m d h mi s off = Inr (y', m', d', h', mi', s')"
    "datetime_ok (y', m', d', h', mi', s')" "instant (y', m', d', h', mi', s') = Inr (t + 60 * off)"
proof -
  obtain n where n: "days_from_civil y m d = Inr n" "t = n * 86400 + int h * 3600 + int mi * 60 + int s"
    using assms(1) by (cases "days_from_civil y m d") (auto simp: instant_def)
  define T where "T = t + off * 60"
  have "- 90000 \<le> off * 60" "off * 60 \<le> 90000" using assms(3) by linarith+
  then have T: "\<bar>T\<bar> \<le> 800000090000" using assms(2) unfolding T_def by linarith
  have small: "int h * 3600 \<le> 1000000" "int mi * 60 \<le> 16000" "0 \<le> int h * 3600" "0 \<le> int mi * 60"
    using assms(4,5) by linarith+
  have ck: "checked_i64 (n * 86400) = Some (n * 86400)" "checked_i64 t = Some t" "checked_i64 (t + off * 60) = Some T"
    using assms(2,6) T small n(2) unfolding checked_i64_def i64_range_def T_def by auto
  have dm: "T = 86400 * (T div 86400) + T mod 86400" "0 \<le> T mod 86400" "T mod 86400 < 86400" by simp_all
  then have "\<bar>T div 86400\<bar> \<le> 10000000" using T by linarith
  then obtain y' m' d' where c: "civil_from_days (T div 86400) = Inr (y', m', d')"
    by (rule civil_from_days_total)
  note cv = civil_then_days [OF c]
  note td = time_of_day_split [OF dm(2,3)]
  let ?h = "T mod 86400 sdiv 3600" and ?mi = "T mod 86400 smod 3600 sdiv 60" and ?s = "T mod 86400 smod 60"
  show thesis
  proof
    show "adjust_datetime_by_minutes y m d h mi s off = Inr (y', m', d', nat ?h, nat ?mi, nat ?s)"
      using td(1-6) unfolding adjust_datetime_by_minutes_def n(1) ebind_simps Let_def
      by (simp add: ck n(2) [symmetric] add.assoc [symmetric] c u8_try_from_def)
    show "datetime_ok (y', m', d', nat ?h, nat ?mi, nat ?s)"
      using td(1-6) cv by (simp add: datetime_ok_def nat_less_iff)
    have "T div 86400 * 86400 + ?h * 3600 + ?mi * 60 + ?s = t + 60 * off"
      using td(7) dm(1) unfolding T_def by linarith
    then show "instant (y', m', d', nat ?h, nat ?mi, nat ?s) = Inr (t + 60 * off)"
      using td(1,3,5) cv by (simp add: instant_def)
  qed
qed

lemma instant_inj:
  assumes "datetime_ok (y, m, d, h, mi, s)" "datetime_ok (y', m', d', h', mi', s')"
    and "instant (y, m, d, h, mi, s) = Inr t" "instant (y', m', d', h', mi', s') = Inr t"
  shows "(y, m, d, h, mi, s) = (y', m', d', h', mi', s')"
proof -
  obtain n n' where n: "days_from_civil y m d = Inr n" "t = n * 86400 + (int h * 3600 + (int mi * 60 + int s))"
      and n': "days_from_civil y' m' d' = Inr n'" "t = n' * 86400 + (int h' * 3600 + (int mi' * 60 + int s'))"
    using assms(3,4) by (cases "days_from_civil y m d"; cases "days_from_civil y' m' d'") (auto simp: instant_def)
  have b: "h < 24" "mi < 60" "s < 60" "h' < 24" "mi' < 60" "s' < 60"
    using assms(1,2) by (simp_all add: datetime_ok_def)
  have "n = n'" using n(2) n'(2) b by linarith
  moreover have "int h = int h'" using n(2) n'(2) b \<open>n = n'\<close> by linarith
  moreover have "int mi = int mi'" using n(2) n'(2) b \<open>n = n'\<close> \<open>int h = int h'\<close> by linarith
  ultimately have "n = n'" "h = h'" "mi = mi'" "s = s'" using n(2) n'(2) by auto
  moreover have "(y, m, d) = (y', m', d')"
    using days_then_civil [of y m d n] days_then_civil [of y' m' d' n'] assms(1,2) n(1) n'(1) \<open>n = n'\<close>
    by (simp add: datetime_ok_def)
  ultimately show ?thesis by simp
qed

lemma oracle_instant:
  assumes "civil_date y m d" "- 4713 \<le> y" "y \<le> 9999" "h < 24" "mi < 60" "s < 60"
  obtains t where "instant (y, m, d, h, mi, s) = Inr t" "\<bar>t\<bar> \<le> 700000000000"
proof -
  note bd = civil_date_bounds [OF assms(1)]
  define N where "N = year_start (y - (if m \<le> 2 then 1 else 0)) + month_start (int m + (if int m > 2 then -3 else 9)) + int d - 719469"
  have N: "days_from_civil y m d = Inr N" unfolding N_def using bd by (intro days_from_civil_eq) auto
  have "\<bar>year_start (y - (if m \<le> 2 then 1 else 0))\<bar> \<le> 4000000"
    using assms(2,3) by (intro year_start_bounds) auto
  moreover have "0 \<le> month_start (int m + (if int m > 2 then -3 else 9)) + int d - 1"
      "month_start (int m + (if int m > 2 then -3 else 9)) + int d - 1 \<le> 365"
    by (rule month_forward [OF assms(1)])+
  ultimately have "\<bar>N\<bar> \<le> 5000000" unfolding N_def by linarith
  then have "\<bar>N * 86400 + int h * 3600 + int mi * 60 + int s\<bar> \<le> 700000000000"
    using assms(4-6) by linarith
  then show thesis using that N by (simp add: instant_def)
qed

text \<open>
  C30. \<^verbatim>\<open>adjust_datetime_by_minutes\<close> is exact on every date and offset the wire format can carry:
  it succeeds, returns a Gregorian date and time of day exactly the offset later, over day, month,
  leap-day and year boundaries, and shifting back by the opposite offset restores the input.
\<close>

theorem adjust_datetime_exact:
  assumes "civil_date y m d" "- 4712 \<le> y" "y \<le> 9999" "h < 24" "mi < 60" "s < 60" "\<bar>off\<bar> \<le> 1439"
  shows "\<exists>t y' m' d' h' mi' s'. instant (y, m, d, h, mi, s) = Inr t \<and>
    adjust_datetime_by_minutes y m d h mi s off = Inr (y', m', d', h', mi', s') \<and>
    datetime_ok (y', m', d', h', mi', s') \<and> instant (y', m', d', h', mi', s') = Inr (t + 60 * off) \<and>
    adjust_datetime_by_minutes y' m' d' h' mi' s' (- off) = Inr (y, m, d, h, mi, s)"
proof -
  obtain t where t: "instant (y, m, d, h, mi, s) = Inr t" "\<bar>t\<bar> \<le> 700000000000"
    by (rule oracle_instant [of y m d h mi s]) (use assms in auto)
  obtain y' m' d' h' mi' s' where a: "adjust_datetime_by_minutes y m d h mi s off = Inr (y', m', d', h', mi', s')"
      "datetime_ok (y', m', d', h', mi', s')" "instant (y', m', d', h', mi', s') = Inr (t + 60 * off)"
    by (rule adjust_eq [OF t(1), of off]) (use t(2) assms in auto)
  have t': "\<bar>t + 60 * off\<bar> \<le> 800000000000" using t(2) assms(7) by linarith
  obtain y2 m2 d2 h2 mi2 s2 where b: "adjust_datetime_by_minutes y' m' d' h' mi' s' (- off) = Inr (y2, m2, d2, h2, mi2, s2)"
      "datetime_ok (y2, m2, d2, h2, mi2, s2)" "instant (y2, m2, d2, h2, mi2, s2) = Inr (t + 60 * off + 60 * (- off))"
    by (rule adjust_eq [OF a(3) t', of "- off"]) (use a(2) assms(7) in \<open>auto simp: datetime_ok_def\<close>)
  have ok: "datetime_ok (y, m, d, h, mi, s)"
    using assms by (simp add: datetime_ok_def i32_range_def)
  have "(y2, m2, d2, h2, mi2, s2) = (y, m, d, h, mi, s)"
    by (rule instant_inj [OF b(2) ok]) (use b(3) t(1) in simp_all)
  then show ?thesis using t(1) a b(1) by auto
qed

theorem adjust_datetime_exact_witness:
  "\<exists>t y' m' d' h' mi' s'. instant (2024, 2, 28, 23, 30, 0) = Inr t \<and>
    adjust_datetime_by_minutes 2024 2 28 23 30 0 45 = Inr (y', m', d', h', mi', s') \<and>
    datetime_ok (y', m', d', h', mi', s') \<and> instant (y', m', d', h', mi', s') = Inr (t + 60 * 45) \<and>
    adjust_datetime_by_minutes y' m' d' h' mi' s' (- 45) = Inr (2024, 2, 28, 23, 30, 0)"
  by (rule adjust_datetime_exact) (simp_all add: civil_date_def days_in_month_def)

end
