(* ===== verification/Datetime_Codec.thy ===== *)
theory Datetime_Codec
  imports Civil_Calendar Timezone_Regions
begin

unbundle bit_operations_syntax

text \<open>
  The wire codecs of \<^verbatim>\<open>DATE\<close>, \<^verbatim>\<open>TIMESTAMP\<close>, \<^verbatim>\<open>TIMESTAMP WITH TIME ZONE\<close> and the
  intervals (\<^verbatim>\<open>crates/oracledb-protocol/src/thin/codecs.rs\<close>). The \<^verbatim>\<open>u8\<close> and \<^verbatim>\<open>u32\<close>
  fields of a value are \<open>nat\<close>, \<^verbatim>\<open>i32\<close> and \<^verbatim>\<open>i64\<close> fields are \<open>int\<close>, and the bytes of
  the wire are words.
\<close>

definition ORA_TYPE_SIZE_DATE :: nat where "ORA_TYPE_SIZE_DATE = 7"
definition ORA_TYPE_SIZE_TIMESTAMP :: nat where "ORA_TYPE_SIZE_TIMESTAMP = 11"
definition ORA_TYPE_SIZE_TIMESTAMP_TZ :: nat where "ORA_TYPE_SIZE_TIMESTAMP_TZ = 13"
definition TNS_HAS_REGION_ID :: byte where "TNS_HAS_REGION_ID = 128"
definition TZ_HOUR_OFFSET :: nat where "TZ_HOUR_OFFSET = 20"
definition TZ_MINUTE_OFFSET :: nat where "TZ_MINUTE_OFFSET = 60"
definition TNS_DURATION_MID :: int where "TNS_DURATION_MID = 2147483648"
definition TNS_DURATION_OFFSET :: int where "TNS_DURATION_OFFSET = 60"

lemmas datetime_consts = ORA_TYPE_SIZE_DATE_def ORA_TYPE_SIZE_TIMESTAMP_def ORA_TYPE_SIZE_TIMESTAMP_TZ_def
  TNS_HAS_REGION_ID_def TZ_HOUR_OFFSET_def TZ_MINUTE_OFFSET_def TNS_DURATION_MID_def TNS_DURATION_OFFSET_def

text \<open>The variants of \<^verbatim>\<open>QueryValue\<close> these decoders return.\<close>

datatype query_value =
    IntervalDS int int int int int
  | IntervalYM int int
  | DateTime int nat nat nat nat nat nat
  | TimestampTz int nat nat nat nat nat nat int
  | TimestampTzRegion int nat nat nat nat nat nat nat

subsection \<open>Dates and timestamps\<close>

definition valid_oracle_date_year :: "int \<Rightarrow> bool" where
  "valid_oracle_date_year year \<longleftrightarrow> -4712 \<le> year \<and> year \<le> -1 \<or> 1 \<le> year \<and> year \<le> 9999"

definition encode_oracle_date :: "int \<Rightarrow> nat \<Rightarrow> nat \<Rightarrow> nat \<Rightarrow> nat \<Rightarrow> nat \<Rightarrow> byte list res" where
  "encode_oracle_date year month day hour minute second =
     (if \<not> valid_oracle_date_year year \<or> \<not> (1 \<le> month \<and> month \<le> 12) \<or> \<not> (1 \<le> day \<and> day \<le> 31) \<or>
         hour > 23 \<or> minute > 59 \<or> second > 59
      then Inl (TtcDecode ''invalid DATE bind'')
      else
        let century = year sdiv 100 + 100;
            year_in_century = year smod 100 + 100
        in ebind (u8_try_from ''invalid DATE century'' century) (\<lambda>c.
           ebind (u8_try_from ''invalid DATE year'' year_in_century) (\<lambda>y.
           Inr (map of_nat [c, y, month, day, hour + 1, minute + 1, second + 1]))))"

definition encode_oracle_timestamp :: "int \<Rightarrow> nat \<Rightarrow> nat \<Rightarrow> nat \<Rightarrow> nat \<Rightarrow> nat \<Rightarrow> nat \<Rightarrow> byte list res" where
  "encode_oracle_timestamp year month day hour minute second nanosecond =
     (if nanosecond > 999999999 then Inl (TtcDecode ''invalid TIMESTAMP fraction'')
      else ebind (encode_oracle_date year month day hour minute second) (\<lambda>date.
        if nanosecond = 0 then Inr date else Inr (date @ be_bytes 4 nanosecond)))"

definition valid_tz_offset_minutes :: "int \<Rightarrow> bool" where
  "valid_tz_offset_minutes offset_minutes \<longleftrightarrow> -1439 \<le> offset_minutes \<and> offset_minutes \<le> 1439"

definition encode_oracle_timestamp_tz_with_offset ::
  "int \<Rightarrow> nat \<Rightarrow> nat \<Rightarrow> nat \<Rightarrow> nat \<Rightarrow> nat \<Rightarrow> nat \<Rightarrow> int \<Rightarrow> byte list res" where
  "encode_oracle_timestamp_tz_with_offset year month day hour minute second nanosecond offset_minutes =
     (if nanosecond > 999999999 then Inl (TtcDecode ''invalid TIMESTAMP WITH TIME ZONE fraction'')
      else if \<not> valid_tz_offset_minutes offset_minutes
      then Inl (TtcDecode ''invalid TIMESTAMP WITH TIME ZONE offset'')
      else
        let offset_hours = offset_minutes sdiv 60;
            offset_minute_part = offset_minutes smod 60
        in ebind (u8_try_from ''invalid TIMESTAMP WITH TIME ZONE offset hour'' (offset_hours + int TZ_HOUR_OFFSET)) (\<lambda>eh.
           ebind (u8_try_from ''invalid TIMESTAMP WITH TIME ZONE offset minute''
                    (offset_minute_part + int TZ_MINUTE_OFFSET)) (\<lambda>em.
           ebind (encode_oracle_date year month day hour minute second) (\<lambda>date.
           Inr (date @ be_bytes 4 nanosecond @ [of_nat eh, of_nat em])))))"

definition encode_oracle_timestamp_tz :: "int \<Rightarrow> nat \<Rightarrow> nat \<Rightarrow> nat \<Rightarrow> nat \<Rightarrow> nat \<Rightarrow> nat \<Rightarrow> byte list res" where
  "encode_oracle_timestamp_tz year month day hour minute second nanosecond =
     encode_oracle_timestamp_tz_with_offset year month day hour minute second nanosecond 0"

definition decode_offset_time_byte :: "byte \<Rightarrow> nat \<Rightarrow> string \<Rightarrow> nat res" where
  "decode_offset_time_byte b max_value field =
     (let bad = Inl (TtcDecode (if field = ''hour'' then ''invalid DATE hour''
                                else if field = ''minute'' then ''invalid DATE minute''
                                else ''invalid DATE second''))
      in if unat b < 1 then bad
         else if unat b - 1 > max_value then bad
         else Inr (unat b - 1))"

definition from_id :: "nat \<Rightarrow> nat res" where
  "from_id region_id = ebind (timezone_region_name region_id) (\<lambda>_. Inr region_id)"

definition decode_fraction :: "byte list \<Rightarrow> nat res" where
  "decode_fraction bytes =
     (if length bytes \<ge> ORA_TYPE_SIZE_TIMESTAMP then
        let value = be_nat (take 4 (drop 7 bytes))
        in if value > 999999999 then Inl (TtcDecode ''invalid TIMESTAMP fraction'') else Inr value
      else Inr 0)"

definition region_id_of :: "byte \<Rightarrow> byte \<Rightarrow> nat" where
  "region_id_of hi lo =
     unat (push_bit 6 (ucast (hi AND NOT TNS_HAS_REGION_ID) :: u16) OR (ucast (drop_bit 2 lo) :: u16))"

definition decode_offset_minutes :: "byte \<Rightarrow> byte \<Rightarrow> int res" where
  "decode_offset_minutes hi lo =
     (if hi = 0 \<or> lo = 0 then Inl (TtcDecode ''invalid TIMESTAMP WITH TIME ZONE offset'')
      else if \<not> (1 \<le> unat lo \<and> unat lo < TZ_MINUTE_OFFSET * 2)
      then Inl (TtcDecode ''invalid TIMESTAMP WITH TIME ZONE offset minute'')
      else
        let offset_minutes = (int (unat hi) - int TZ_HOUR_OFFSET) * 60 + int (unat lo) - int TZ_MINUTE_OFFSET
        in if \<not> valid_tz_offset_minutes offset_minutes
           then Inl (TtcDecode ''invalid TIMESTAMP WITH TIME ZONE offset'')
           else Inr offset_minutes)"

definition decode_datetime_value :: "byte list \<Rightarrow> query_value res" where
  "decode_datetime_value bytes =
     (if length bytes \<notin> {ORA_TYPE_SIZE_DATE, ORA_TYPE_SIZE_TIMESTAMP, ORA_TYPE_SIZE_TIMESTAMP_TZ}
      then Inl (TtcDecode ''invalid DATE/TIMESTAMP length'')
      else
        let b0 = int (unat (bytes ! 0)); b1 = int (unat (bytes ! 1)); year = (b0 - 100) * 100 + b1 - 100 in
        if \<not> valid_oracle_date_year year \<or> b0 \<noteq> year sdiv 100 + 100 \<or> b1 \<noteq> year smod 100 + 100
        then Inl (TtcDecode ''invalid DATE year'')
        else
          let month = unat (bytes ! 2) in
          if \<not> (1 \<le> month \<and> month \<le> 12) then Inl (TtcDecode ''invalid DATE month'')
          else
            let day = unat (bytes ! 3) in
            if \<not> (1 \<le> day \<and> day \<le> 31) then Inl (TtcDecode ''invalid DATE day'')
            else
              ebind (decode_offset_time_byte (bytes ! 4) 23 ''hour'') (\<lambda>hour.
              ebind (decode_offset_time_byte (bytes ! 5) 59 ''minute'') (\<lambda>minute.
              ebind (decode_offset_time_byte (bytes ! 6) 59 ''second'') (\<lambda>second.
              ebind (decode_fraction bytes) (\<lambda>nanosecond.
              if length bytes = ORA_TYPE_SIZE_TIMESTAMP_TZ then
                if bytes ! 11 AND TNS_HAS_REGION_ID \<noteq> 0 then
                  ebind (from_id (region_id_of (bytes ! 11) (bytes ! 12))) (\<lambda>region.
                  Inr (TimestampTzRegion year month day hour minute second nanosecond region))
                else
                  ebind (decode_offset_minutes (bytes ! 11) (bytes ! 12)) (\<lambda>offset_minutes.
                  Inr (TimestampTz year month day hour minute second nanosecond offset_minutes))
              else Inr (DateTime year month day hour minute second nanosecond))))))"

subsection \<open>Intervals\<close>

definition u32_try_from :: "string \<Rightarrow> int \<Rightarrow> nat res" where
  "u32_try_from msg x = (if 0 \<le> x \<and> x < 2 ^ 32 then Inr (nat x) else Inl (TtcDecode msg))"

definition encode_interval_ds :: "int \<Rightarrow> int \<Rightarrow> int \<Rightarrow> byte list res" where
  "encode_interval_ds days seconds nanoseconds =
     ebind (u32_try_from ''INTERVAL DS days out of range'' (days + TNS_DURATION_MID)) (\<lambda>wire_days.
     let to_offset_byte = (\<lambda>v. u8_try_from ''INTERVAL DS component out of range'' (v + TNS_DURATION_OFFSET)) in
     ebind (to_offset_byte (seconds sdiv 3600)) (\<lambda>h.
     ebind (to_offset_byte (seconds smod 3600 sdiv 60)) (\<lambda>mi.
     ebind (to_offset_byte (seconds smod 60)) (\<lambda>s.
     ebind (u32_try_from ''INTERVAL DS fractional seconds out of range'' (nanoseconds + TNS_DURATION_MID)) (\<lambda>wire_fseconds.
     Inr (be_bytes 4 wire_days @ [of_nat h, of_nat mi, of_nat s] @ be_bytes 4 wire_fseconds))))))"

definition decode_interval_ds :: "byte list \<Rightarrow> query_value res" where
  "decode_interval_ds bytes =
     (if length bytes < 11 then Inl (TtcDecode ''invalid INTERVAL DS length'')
      else
        let days_wire = be_nat (take 4 bytes);
            fseconds_wire = be_nat (take 4 (drop 7 bytes))
        in ebind (i32_try_from ''INTERVAL DS out of range'' (int days_wire - TNS_DURATION_MID)) (\<lambda>days.
           ebind (i32_try_from ''INTERVAL DS out of range'' (int fseconds_wire - TNS_DURATION_MID)) (\<lambda>fseconds.
           Inr (IntervalDS days (int (unat (bytes ! 4)) - TNS_DURATION_OFFSET)
                  (int (unat (bytes ! 5)) - TNS_DURATION_OFFSET) (int (unat (bytes ! 6)) - TNS_DURATION_OFFSET)
                  fseconds))))"

definition encode_interval_ym :: "int \<Rightarrow> int \<Rightarrow> byte list res" where
  "encode_interval_ym years months =
     ebind (u32_try_from ''INTERVAL YM years out of range'' (years + TNS_DURATION_MID)) (\<lambda>wire_years.
     ebind (u8_try_from ''INTERVAL YM months out of range'' (months + TNS_DURATION_OFFSET)) (\<lambda>m.
     Inr (be_bytes 4 wire_years @ [of_nat m])))"

definition decode_interval_ym :: "byte list \<Rightarrow> query_value res" where
  "decode_interval_ym bytes =
     (if length bytes < 5 then Inl (TtcDecode ''invalid INTERVAL YM length'')
      else ebind (i32_try_from ''INTERVAL YM out of range'' (int (be_nat (take 4 bytes)) - TNS_DURATION_MID)) (\<lambda>years.
        Inr (IntervalYM years (int (unat (bytes ! 4)) - TNS_DURATION_OFFSET))))"


subsection \<open>What the encoders accept\<close>

lemma sdiv_bound:
  fixes y :: int
  assumes "- 4712 \<le> y" "y \<le> 9999"
  shows "- 48 < y sdiv 100" "y sdiv 100 < 100" "- 100 < y smod 100" "y smod 100 < 100"
proof -
  have "\<bar>y\<bar> div 100 * 100 + \<bar>y\<bar> mod 100 = \<bar>y\<bar>" "0 \<le> \<bar>y\<bar> mod 100" "\<bar>y\<bar> mod 100 < 100" by simp_all
  then have d: "\<bar>y\<bar> div 100 \<le> 99" "y < 0 \<Longrightarrow> \<bar>y\<bar> div 100 \<le> 47" "0 \<le> \<bar>y\<bar> div 100"
      "\<bar>y\<bar> - \<bar>y\<bar> div 100 * 100 < 100" "0 \<le> \<bar>y\<bar> - \<bar>y\<bar> div 100 * 100"
    using assms by linarith+
  have q: "y sdiv 100 = (if y < 0 then - (\<bar>y\<bar> div 100) else \<bar>y\<bar> div 100)"
    by (simp add: signed_divide_int_def sgn_if)
  show "- 48 < y sdiv 100" "y sdiv 100 < 100" unfolding q using d by (auto split: if_splits)
  have "y smod 100 = y - y sdiv 100 * 100" using sdiv_mult_smod_eq [of y 100] by linarith
  then show "- 100 < y smod 100" "y smod 100 < 100" unfolding q using d by (auto split: if_splits)
qed

lemma year_wire:
  assumes "valid_oracle_date_year y"
  shows "0 \<le> y sdiv 100 + 100" "y sdiv 100 + 100 < 256" "0 \<le> y smod 100 + 100" "y smod 100 + 100 < 256"
    "(y sdiv 100 + 100 - 100) * 100 + (y smod 100 + 100) - 100 = y"
  using assms sdiv_bound [of y] sdiv_mult_smod_eq [of y 100] by (auto simp: valid_oracle_date_year_def)

definition date_fields_ok :: "int \<Rightarrow> nat \<Rightarrow> nat \<Rightarrow> nat \<Rightarrow> nat \<Rightarrow> nat \<Rightarrow> bool" where
  "date_fields_ok y m d h mi s \<longleftrightarrow> valid_oracle_date_year y \<and> 1 \<le> m \<and> m \<le> 12 \<and> 1 \<le> d \<and> d \<le> 31 \<and>
     h \<le> 23 \<and> mi \<le> 59 \<and> s \<le> 59"

definition date_bytes :: "int \<Rightarrow> nat \<Rightarrow> nat \<Rightarrow> nat \<Rightarrow> nat \<Rightarrow> nat \<Rightarrow> byte list" where
  "date_bytes y m d h mi s = map of_nat [nat (y sdiv 100 + 100), nat (y smod 100 + 100), m, d, h + 1, mi + 1, s + 1]"

lemma encode_oracle_date_eq:
  "encode_oracle_date y m d h mi s =
     (if date_fields_ok y m d h mi s then Inr (date_bytes y m d h mi s) else Inl (TtcDecode ''invalid DATE bind''))"
  using year_wire [of y]
  by (auto simp: encode_oracle_date_def date_fields_ok_def date_bytes_def u8_try_from_def Let_def)

lemma length_date_bytes [simp]: "length (date_bytes y m d h mi s) = 7"
  by (simp add: date_bytes_def)

lemma decode_date_bytes:
  assumes "date_fields_ok y m d h mi s" "length (date_bytes y m d h mi s @ rest) \<in> {7, 11, 13}"
  shows "decode_datetime_value (date_bytes y m d h mi s @ rest) =
    ebind (decode_fraction (date_bytes y m d h mi s @ rest)) (\<lambda>nanosecond.
      if length rest = 6 then
        if rest ! 4 AND TNS_HAS_REGION_ID \<noteq> 0 then
          ebind (from_id (region_id_of (rest ! 4) (rest ! 5))) (\<lambda>region.
            Inr (TimestampTzRegion y m d h mi s nanosecond region))
        else ebind (decode_offset_minutes (rest ! 4) (rest ! 5)) (\<lambda>offset_minutes.
            Inr (TimestampTz y m d h mi s nanosecond offset_minutes))
      else Inr (DateTime y m d h mi s nanosecond))"
proof -
  let ?bs = "date_bytes y m d h mi s @ rest"
  note f = assms(1) [unfolded date_fields_ok_def]
  note yw = year_wire [OF conjunct1 [OF f]]
  have u: "unat (of_nat n :: byte) = n" if "n < 256" for n using that by simp
  have b: "?bs ! 0 = of_nat (nat (y sdiv 100 + 100))" "?bs ! 1 = of_nat (nat (y smod 100 + 100))"
      "?bs ! 2 = of_nat m" "?bs ! 3 = of_nat d" "?bs ! 4 = of_nat (h + 1)" "?bs ! 5 = of_nat (mi + 1)"
      "?bs ! 6 = of_nat (s + 1)" "?bs ! 11 = rest ! 4" "?bs ! 12 = rest ! 5"
    by (simp_all add: date_bytes_def nth_append)
  have l: "length ?bs = 7 + length rest" by simp
  have y: "int (unat (?bs ! 0)) = y sdiv 100 + 100" "int (unat (?bs ! 1)) = y smod 100 + 100"
    using yw(1-4) unfolding b by (simp_all only: u nat_less_iff int_nat_eq) simp_all
  have t: "decode_offset_time_byte (of_nat (v + 1)) mx f = Inr v" if "v \<le> mx" "mx < 255" for v mx f
  proof -
    have "unat (of_nat (v + 1) :: byte) = v + 1" using that by (intro u) simp
    then show ?thesis using that unfolding decode_offset_time_byte_def Let_def by (simp only:) simp
  qed
  have tf: "decode_offset_time_byte (of_nat (h + 1)) 23 ''hour'' = Inr h"
      "decode_offset_time_byte (of_nat (mi + 1)) 59 ''minute'' = Inr mi"
      "decode_offset_time_byte (of_nat (s + 1)) 59 ''second'' = Inr s"
      "unat (of_nat m :: byte) = m" "unat (of_nat d :: byte) = d"
    using f by (simp_all only: t u) simp_all
  show ?thesis
    using assms(2) f unfolding decode_datetime_value_def Let_def y yw(5)
    unfolding b tf ebind_simps by (simp add: datetime_consts)
qed


subsection \<open>Round trips\<close>

lemma byte_no_region: "n < 128 \<Longrightarrow> (of_nat n :: byte) AND TNS_HAS_REGION_ID = 0"
proof -
  assume "n < 128"
  then have "unat (of_nat n :: byte) = n" by simp
  moreover have "bit (unat (of_nat n :: byte)) 7 = bit (of_nat n :: byte) 7" by (simp only: bit_unsigned_iff) simp
  ultimately have "bit (of_nat n :: byte) 7 = bit n 7" by simp
  moreover have "\<not> bit n 7" using \<open>n < 128\<close> by (simp add: bit_iff_odd)
  ultimately have "\<not> bit (of_nat n :: byte) 7" by simp
  then have "(of_nat n :: byte) AND 2 ^ 7 = 0" using and_exp_eq_0_iff_not_bit by blast
  then show ?thesis by (simp add: TNS_HAS_REGION_ID_def)
qed

lemma fraction_bytes:
  assumes "length date = 7" "ns \<le> 999999999"
  shows "decode_fraction (date @ be_bytes 4 ns @ tail) = Inr ns" "decode_fraction date = Inr 0"
  using assms be_nat_be_bytes [of 4 ns] by (simp_all add: decode_fraction_def datetime_consts Let_def)

text \<open>
  C31. \<^verbatim>\<open>DATE\<close> and \<^verbatim>\<open>TIMESTAMP\<close> round trip: whatever the encoder accepts, over the whole
  range of years before and after the common era and with or without a fraction, is decoded to the
  same fields.
\<close>

theorem timestamp_roundtrip:
  assumes "encode_oracle_timestamp y m d h mi s ns = Inr bs"
  shows "decode_datetime_value bs = Inr (DateTime y m d h mi s ns)"
proof -
  have f: "date_fields_ok y m d h mi s" "ns \<le> 999999999"
      and bs: "bs = date_bytes y m d h mi s @ (if ns = 0 then [] else be_bytes 4 ns)"
    using assms by (auto simp: encode_oracle_timestamp_def encode_oracle_date_eq split: if_splits)
  have "decode_fraction bs = Inr ns"
    using fraction_bytes(1) [of "date_bytes y m d h mi s" ns "[]"] fraction_bytes(2) [of "date_bytes y m d h mi s" ns] f(2)
    by (simp add: bs)
  then show ?thesis
    using decode_date_bytes [OF f(1), of "if ns = 0 then [] else be_bytes 4 ns"]
    by (cases "ns = 0") (simp_all add: bs)
qed

theorem timestamp_roundtrip_witness:
  "\<exists>bs. encode_oracle_timestamp (- 4712) 1 31 23 59 59 1 = Inr bs \<and>
     decode_datetime_value bs = Inr (DateTime (- 4712) 1 31 23 59 59 1)"
proof -
  have "encode_oracle_timestamp (- 4712) 1 31 23 59 59 1 = Inr (date_bytes (- 4712) 1 31 23 59 59 @ be_bytes 4 1)"
    by (simp add: encode_oracle_timestamp_def encode_oracle_date_eq date_fields_ok_def valid_oracle_date_year_def)
  with timestamp_roundtrip [OF this] show ?thesis by blast
qed

lemma offset_split:
  assumes "- 1440 < off" "off < (1440 :: int)"
  shows "off sdiv 60 * 60 + off smod 60 = off" "- 24 < off sdiv 60" "off sdiv 60 < 24"
    "- 60 < off smod 60" "off smod 60 < 60" "- 1200 < off \<Longrightarrow> - 20 < off sdiv 60"
    "- 1260 < off \<Longrightarrow> off \<le> - 1200 \<Longrightarrow> off sdiv 60 = - 20" "off \<le> - 1260 \<Longrightarrow> off sdiv 60 < - 20"
proof -
  show eq: "off sdiv 60 * 60 + off smod 60 = off" by (rule sdiv_mult_smod_eq)
  have q: "off sdiv 60 = (if off < 0 then - (\<bar>off\<bar> div 60) else \<bar>off\<bar> div 60)"
    by (simp add: signed_divide_int_def sgn_if)
  have d: "\<bar>off\<bar> div 60 * 60 + \<bar>off\<bar> mod 60 = \<bar>off\<bar>" "0 \<le> \<bar>off\<bar> mod 60" "\<bar>off\<bar> mod 60 < 60" by simp_all
  show "- 24 < off sdiv 60" "off sdiv 60 < 24" "- 60 < off smod 60" "off smod 60 < 60"
      "- 1200 < off \<Longrightarrow> - 20 < off sdiv 60" "- 1260 < off \<Longrightarrow> off \<le> - 1200 \<Longrightarrow> off sdiv 60 = - 20"
      "off \<le> - 1260 \<Longrightarrow> off sdiv 60 < - 20"
    using d eq assms q by (cases "off < 0"; simp; linarith)+
qed

lemma encode_tz_eq:
  assumes "date_fields_ok y m d h mi s" "ns \<le> 999999999" "- 1260 < off" "off \<le> 1439"
  shows "encode_oracle_timestamp_tz_with_offset y m d h mi s ns off =
    Inr (date_bytes y m d h mi s @ be_bytes 4 ns @ [of_nat (nat (off sdiv 60 + 20)), of_nat (nat (off smod 60 + 60))])"
proof -
  have off: "- 1440 < off" "off < 1440" using assms(3,4) by auto
  note sp = offset_split [OF off]
  have "0 \<le> off sdiv 60 + 20"
    using sp(6,7) assms(3) by (cases "- 1200 < off") auto
  then show ?thesis
    using assms sp(2-5) by (simp add: encode_oracle_timestamp_tz_with_offset_def valid_tz_offset_minutes_def Let_def
        encode_oracle_date_eq u8_try_from_def datetime_consts)
qed

lemma decode_tz_bytes:
  assumes "date_fields_ok y m d h mi s" "ns \<le> 999999999" "eh < 128" "em < 256"
  shows "decode_datetime_value (date_bytes y m d h mi s @ be_bytes 4 ns @ [of_nat eh, of_nat em]) =
    ebind (decode_offset_minutes (of_nat eh) (of_nat em)) (\<lambda>off. Inr (TimestampTz y m d h mi s ns off))"
proof -
  have n: "(be_bytes 4 ns @ [of_nat eh, of_nat em]) ! 4 = of_nat eh" "(be_bytes 4 ns @ [of_nat eh, of_nat em]) ! 5 = of_nat em"
    by (simp_all add: nth_append)
  show ?thesis
    using decode_date_bytes [OF assms(1), of "be_bytes 4 ns @ [of_nat eh, of_nat em]"]
      fraction_bytes(1) [of "date_bytes y m d h mi s" ns "[of_nat eh, of_nat em]"] assms(2)
    by (simp add: n byte_no_region [OF assms(3)])
qed

text \<open>
  C32. \<^verbatim>\<open>TIMESTAMP WITH TIME ZONE\<close> round trip: for every offset east of \<open>-20:00\<close> what the
  encoder accepts is decoded to the same fields and the same offset, whatever the signs of its hour
  and minute parts.
\<close>

theorem timestamp_tz_roundtrip:
  assumes "encode_oracle_timestamp_tz_with_offset y m d h mi s ns off = Inr bs" "- 1200 < off"
  shows "decode_datetime_value bs = Inr (TimestampTz y m d h mi s ns off)"
proof -
  have ok: "date_fields_ok y m d h mi s" "ns \<le> 999999999" "off \<le> 1439"
    using assms(1) by (auto simp: encode_oracle_timestamp_tz_with_offset_def valid_tz_offset_minutes_def Let_def
        encode_oracle_date_eq ebind_Inr_iff split: if_splits)
  have off: "- 1440 < off" "off < 1440" using assms(2) ok(3) by auto
  note sp = offset_split [OF off]
  define eh where "eh = nat (off sdiv 60 + 20)"
  define em where "em = nat (off smod 60 + 60)"
  have e: "int eh = off sdiv 60 + 20" "int em = off smod 60 + 60" "0 < eh" "eh < 44" "0 < em" "em < 120"
    using sp(3-5) sp(6) [OF assms(2)] by (simp_all add: eh_def em_def)
  have u: "unat (of_nat eh :: byte) = eh" "unat (of_nat em :: byte) = em" using e by simp_all
  have "(of_nat eh :: byte) \<noteq> 0" "(of_nat em :: byte) \<noteq> 0"
    using u e(3,5) by (metis unat_0 less_irrefl)+
  then have "decode_offset_minutes (of_nat eh) (of_nat em) = Inr off"
    using e sp(1) off unfolding decode_offset_minutes_def u
    by (simp add: datetime_consts valid_tz_offset_minutes_def Let_def)
  moreover have "bs = date_bytes y m d h mi s @ be_bytes 4 ns @ [of_nat eh, of_nat em]"
    using assms encode_tz_eq [OF ok(1,2) _ ok(3)] by (simp add: eh_def em_def)
  ultimately show ?thesis using decode_tz_bytes [OF ok(1,2), of eh em] e(4,6) by simp
qed

theorem timestamp_tz_roundtrip_witness:
  "\<exists>bs. encode_oracle_timestamp_tz_with_offset 2024 2 29 12 0 0 5 (- 210) = Inr bs \<and>
     decode_datetime_value bs = Inr (TimestampTz 2024 2 29 12 0 0 5 (- 210))"
proof -
  have "\<exists>bs. encode_oracle_timestamp_tz_with_offset 2024 2 29 12 0 0 5 (- 210) = Inr bs"
    by (subst encode_tz_eq) (simp_all add: date_fields_ok_def valid_oracle_date_year_def)
  then show ?thesis using timestamp_tz_roundtrip by auto
qed




subsection \<open>Well-formed values\<close>

text \<open>
  The type invariant of decoded values: the ranges the constructors promise, and region identifiers
  the table knows.
\<close>

definition region_known :: "nat \<Rightarrow> bool" where
  "region_known r \<longleftrightarrow> r \<in> fst ` set REGION_NAMES"

fun query_value_ok :: "query_value \<Rightarrow> bool" where
  "query_value_ok (IntervalDS d h mi s f) \<longleftrightarrow> i32_range d \<and> i32_range f \<and>
     (\<forall>x\<in>{h, mi, s}. - 60 \<le> x \<and> x \<le> 195)"
| "query_value_ok (IntervalYM y m) \<longleftrightarrow> i32_range y \<and> - 60 \<le> m \<and> m \<le> 195"
| "query_value_ok (DateTime y m d h mi s ns) \<longleftrightarrow> date_fields_ok y m d h mi s \<and> ns \<le> 999999999"
| "query_value_ok (TimestampTz y m d h mi s ns off) \<longleftrightarrow>
     date_fields_ok y m d h mi s \<and> ns \<le> 999999999 \<and> valid_tz_offset_minutes off"
| "query_value_ok (TimestampTzRegion y m d h mi s ns r) \<longleftrightarrow>
     date_fields_ok y m d h mi s \<and> ns \<le> 999999999 \<and> region_known r"

lemma from_id_known: "from_id r = Inr r' \<Longrightarrow> r' = r \<and> region_known r"
  using binary_search_correct [OF REGION_NAMES_sorted, of r]
  by (auto simp: from_id_def ebind_Inr_iff timezone_region_name_def region_known_def split: option.splits)

lemma decode_offset_time_byte_le: "decode_offset_time_byte b mx f = Inr v \<Longrightarrow> v \<le> mx"
  by (auto simp: decode_offset_time_byte_def Let_def split: if_splits)

lemma decode_fraction_le: "decode_fraction bs = Inr v \<Longrightarrow> v \<le> 999999999"
  by (auto simp: decode_fraction_def Let_def split: if_splits)

lemma decode_offset_minutes_ok: "decode_offset_minutes a b = Inr v \<Longrightarrow> valid_tz_offset_minutes v"
  by (auto simp: decode_offset_minutes_def Let_def split: if_splits)

lemma decode_datetime_ok:
  assumes "decode_datetime_value bs = Inr v"
  shows "query_value_ok v"
proof -
  define year where "year = (int (unat (bs ! 0)) - 100) * 100 + int (unat (bs ! 1)) - 100"
  have y: "valid_oracle_date_year year"
      and md: "1 \<le> unat (bs ! 2)" "unat (bs ! 2) \<le> 12" "1 \<le> unat (bs ! 3)" "unat (bs ! 3) \<le> 31"
    using assms by (auto simp: decode_datetime_value_def Let_def year_def split: if_splits)
  obtain h mi s ns where t: "decode_offset_time_byte (bs ! 4) 23 ''hour'' = Inr h"
      "decode_offset_time_byte (bs ! 5) 59 ''minute'' = Inr mi" "decode_offset_time_byte (bs ! 6) 59 ''second'' = Inr s"
      "decode_fraction bs = Inr ns"
      and v: "v = DateTime year (unat (bs ! 2)) (unat (bs ! 3)) h mi s ns \<or>
        (\<exists>r. from_id (region_id_of (bs ! 11) (bs ! 12)) = Inr r \<and>
           v = TimestampTzRegion year (unat (bs ! 2)) (unat (bs ! 3)) h mi s ns r) \<or>
        (\<exists>off. decode_offset_minutes (bs ! 11) (bs ! 12) = Inr off \<and>
           v = TimestampTz year (unat (bs ! 2)) (unat (bs ! 3)) h mi s ns off)"
    using assms unfolding decode_datetime_value_def Let_def year_def
    by (simp only: ebind_Inr_iff split: if_splits) (force simp: ebind_Inr_iff)+
  have ok: "date_fields_ok year (unat (bs ! 2)) (unat (bs ! 3)) h mi s" "ns \<le> 999999999"
    using y md t(1-3) [THEN decode_offset_time_byte_le] decode_fraction_le [OF t(4)]
    by (simp_all add: date_fields_ok_def)
  then show ?thesis using v by (auto dest: from_id_known decode_offset_minutes_ok)
qed

lemma component_range: "- 60 \<le> int (unat (b :: byte)) - 60" "int (unat b) - 60 \<le> 195"
  using unat_byte_less [of b] by linarith+

text \<open>
  C34. Every value the date, timestamp and interval decoders return is well formed, whatever bytes
  the server sent: calendar and clock fields in range, offsets within a day, and a region the table
  knows.
\<close>

theorem decoded_values_ok:
  "(\<forall>v. decode_datetime_value bs = Inr v \<longrightarrow> query_value_ok v) \<and>
   (\<forall>v. decode_interval_ds bs = Inr v \<longrightarrow> query_value_ok v) \<and>
   (\<forall>v. decode_interval_ym bs = Inr v \<longrightarrow> query_value_ok v)"
  using decode_datetime_ok component_range
  by (auto simp: decode_interval_ds_def decode_interval_ym_def Let_def ebind_Inr_iff i32_try_from_def
      datetime_consts split: if_splits)

theorem decoded_values_ok_witness:
  "\<exists>v. decode_interval_ym [128, 0, 0, 1, 61] = Inr v \<and> query_value_ok v"
proof -
  have "decode_interval_ym [128, 0, 0, 1, 61] = Inr (IntervalYM 1 1)"
    by (simp add: decode_interval_ym_def i32_try_from_def i32_range_def datetime_consts)
  then show ?thesis using decoded_values_ok [of "[128, 0, 0, 1, 61]"] by blast
qed


subsection \<open>Intervals round trip\<close>

lemma u32_try_from_Inr: "u32_try_from msg x = Inr n \<longleftrightarrow> 0 \<le> x \<and> x < 2 ^ 32 \<and> n = nat x"
  by (auto simp: u32_try_from_def)

lemma u8_try_from_Inr: "u8_try_from msg x = Inr n \<longleftrightarrow> 0 \<le> x \<and> x < 256 \<and> n = nat x"
  by (auto simp: u8_try_from_def)

lemma hms_recompose:
  fixes s :: int
  shows "s sdiv 3600 * 3600 + s smod 3600 sdiv 60 * 60 + s smod 60 = s"
proof -
  have "s smod 3600 smod 60 = s smod 60"
  proof -
    have "\<bar>s\<bar> mod 60 = \<bar>s\<bar> mod 3600 mod 60" by (simp add: mod_mod_cancel)
    moreover have "0 \<le> \<bar>s\<bar> mod 3600" by simp
    ultimately show ?thesis
      by (cases "\<bar>s\<bar> mod 3600 = 0") (auto simp: smod_int_alt_def sgn_mult abs_mult sgn_if)
  qed
  then show ?thesis
    using sdiv_mult_smod_eq [of s 3600] sdiv_mult_smod_eq [of "s smod 3600" 60] by linarith
qed

text \<open>
  Interval round trips: a day-to-second interval is decoded to its days, its fraction, and the
  hours, minutes and seconds whose sum is the encoded number of seconds, with the sign of each part;
  a year-to-month interval is decoded to its years and months.
\<close>

theorem interval_roundtrip:
  assumes "encode_interval_ds days secs nanos = Inr bs" "i32_range days" "i32_range nanos"
    and "encode_interval_ym years months = Inr bs'" "i32_range years"
  shows "(\<exists>h mi s. decode_interval_ds bs = Inr (IntervalDS days h mi s nanos) \<and> h * 3600 + mi * 60 + s = secs) \<and>
    decode_interval_ym bs' = Inr (IntervalYM years months)"
proof
  have u: "unat (of_nat n :: byte) = n" if "n < 256" for n using that by simp
  have be: "int (be_nat (be_bytes 4 (nat x))) = x" if "0 \<le> x" "x < 2 ^ 32" for x
    using that by (simp add: be_nat_be_bytes)
  let ?h = "secs sdiv 3600" and ?m = "secs smod 3600 sdiv 60" and ?s = "secs smod 60"
  have r: "0 \<le> days + 2147483648" "days + 2147483648 < 2 ^ 32" "0 \<le> nanos + 2147483648" "nanos + 2147483648 < 2 ^ 32"
      "0 \<le> ?h + 60" "?h + 60 < 256" "0 \<le> ?m + 60" "?m + 60 < 256" "0 \<le> ?s + 60" "?s + 60 < 256"
      and bs: "bs = be_bytes 4 (nat (days + 2147483648)) @ [of_nat (nat (?h + 60)), of_nat (nat (?m + 60)),
        of_nat (nat (?s + 60))] @ be_bytes 4 (nat (nanos + 2147483648))"
    using assms(1) by (auto simp: encode_interval_ds_def Let_def ebind_Inr_iff u32_try_from_Inr u8_try_from_Inr
        datetime_consts)
  have "take 4 bs = be_bytes 4 (nat (days + 2147483648))" "take 4 (drop 7 bs) = be_bytes 4 (nat (nanos + 2147483648))"
      "length bs = 11" and n: "bs ! 4 = of_nat (nat (?h + 60))" "bs ! 5 = of_nat (nat (?m + 60))" "bs ! 6 = of_nat (nat (?s + 60))"
    by (simp_all add: bs nth_append)
  moreover have "int (unat (bs ! 4)) = ?h + 60" "int (unat (bs ! 5)) = ?m + 60" "int (unat (bs ! 6)) = ?s + 60"
    using r unfolding n by (simp_all only: u nat_less_iff int_nat_eq if_True)
  ultimately have "decode_interval_ds bs = Inr (IntervalDS days ?h ?m ?s nanos)"
    using assms(2,3) r be by (simp add: decode_interval_ds_def Let_def i32_try_from_def datetime_consts)
  then show "\<exists>h mi s. decode_interval_ds bs = Inr (IntervalDS days h mi s nanos) \<and> h * 3600 + mi * 60 + s = secs"
    using hms_recompose [of secs] by blast
  have r': "0 \<le> years + 2147483648" "years + 2147483648 < 2 ^ 32" "0 \<le> months + 60" "months + 60 < 256"
      and bs': "bs' = be_bytes 4 (nat (years + 2147483648)) @ [of_nat (nat (months + 60))]"
    using assms(4) by (auto simp: encode_interval_ym_def ebind_Inr_iff u32_try_from_Inr u8_try_from_Inr datetime_consts)
  have "take 4 bs' = be_bytes 4 (nat (years + 2147483648))" "length bs' = 5"
      and n': "bs' ! 4 = of_nat (nat (months + 60))"
    by (simp_all add: bs' nth_append)
  moreover have "int (unat (bs' ! 4)) = months + 60"
    using r' unfolding n' by (simp only: u nat_less_iff int_nat_eq if_True)
  ultimately show "decode_interval_ym bs' = Inr (IntervalYM years months)"
    using assms(5) r' be by (simp add: decode_interval_ym_def i32_try_from_def datetime_consts)
qed

theorem interval_roundtrip_witness:
  "\<exists>bs bs'. encode_interval_ds 3 (- 3725) 7 = Inr bs \<and> encode_interval_ym (- 2) (- 5) = Inr bs' \<and>
     (\<exists>h mi s. decode_interval_ds bs = Inr (IntervalDS 3 h mi s 7) \<and> h * 3600 + mi * 60 + s = - 3725) \<and>
     decode_interval_ym bs' = Inr (IntervalYM (- 2) (- 5))"
proof -
  have "\<exists>bs. encode_interval_ds 3 (- 3725) 7 = Inr bs" "\<exists>bs'. encode_interval_ym (- 2) (- 5) = Inr bs'"
    by (simp_all add: encode_interval_ds_def encode_interval_ym_def u32_try_from_def u8_try_from_def datetime_consts
        signed_divide_int_def smod_int_alt_def)
  then show ?thesis using interval_roundtrip [of 3 "- 3725" 7 _ "- 2" "- 5"] by (force simp: i32_range_def)
qed

end
