(* ===== verification/Binary_Float.thy ===== *)
theory Binary_Float
  imports Driver_Prelude
begin

unbundle bit_operations_syntax

text \<open>
  \<^verbatim>\<open>BINARY_DOUBLE\<close> and \<^verbatim>\<open>BINARY_FLOAT\<close> (\<^verbatim>\<open>crates/oracledb-protocol/src/thin/codecs.rs\<close>). A float
  is its IEEE bit pattern, as \<^verbatim>\<open>to_bits\<close> and \<^verbatim>\<open>from_bits\<close> exchange it: the sign bit is the
  top bit and the other bits are the magnitude.
\<close>

text \<open>The in-place rewriting of the big-endian bytes, shared by the two widths.\<close>

definition order_bytes :: "byte list \<Rightarrow> byte list" where
  "order_bytes bytes =
     (if bytes ! 0 AND 128 = 0 then bytes[0 := bytes ! 0 OR 128] else map (\<lambda>b. NOT b) bytes)"

definition unorder_bytes :: "byte list \<Rightarrow> byte list" where
  "unorder_bytes bytes =
     (if bytes ! 0 AND 128 \<noteq> 0 then bytes[0 := bytes ! 0 AND 127] else map (\<lambda>b. NOT b) bytes)"

definition encode_binary_double :: "u64 \<Rightarrow> byte list" where
  "encode_binary_double value = order_bytes (be_bytes 8 (unat value))"

definition encode_binary_float :: "u32 \<Rightarrow> byte list" where
  "encode_binary_float value = order_bytes (be_bytes 4 (unat value))"

definition decode_binary_float :: "byte list \<Rightarrow> u32 res" where
  "decode_binary_float bytes =
     (if length bytes \<noteq> 4 then Inl (TtcDecode ''invalid BINARY_FLOAT length'')
      else Inr (of_nat (be_nat (unorder_bytes bytes))))"

definition decode_binary_double :: "byte list \<Rightarrow> u64 res" where
  "decode_binary_double bytes =
     (if length bytes \<noteq> 8 then Inl (TtcDecode ''invalid BINARY_DOUBLE length'')
      else Inr (of_nat (be_nat (unorder_bytes bytes))))"


subsection \<open>The top bit of a byte\<close>

lemma bit_unat: "bit (unat (b :: byte)) n = bit b n"
  by (simp only: bit_unsigned_iff) (auto simp: bit_imp_possible_bit)

lemma top_bit_iff: "bit (b :: byte) 7 \<longleftrightarrow> 128 \<le> unat b"
proof -
  have "bit b 7 \<longleftrightarrow> odd (unat b div 128)" using bit_unat [of b 7] by (simp add: bit_iff_odd)
  also have "\<dots> \<longleftrightarrow> 128 \<le> unat b"
  proof (cases "unat b < 128")
    case False
    then have "unat b div 128 = 1" by (intro div_nat_eqI) simp_all
    then show ?thesis using False by simp
  qed simp
  finally show ?thesis .
qed

lemma and_128: "(b :: byte) AND 128 = 0 \<longleftrightarrow> unat b < 128"
proof -
  have "b AND 128 = 0 \<longleftrightarrow> \<not> bit b 7" using and_exp_eq_0_iff_not_bit [of b 7] by simp
  then show ?thesis by (simp add: top_bit_iff not_le)
qed

lemma or_128: "unat (b :: byte) < 128 \<Longrightarrow> unat (b OR 128) = unat b + 128"
proof -
  assume "unat b < 128"
  then have "b AND 128 = 0" by (simp add: and_128)
  then have "b OR 128 = b + 128" by (simp add: disjunctive_add_eq_or)
  then show ?thesis using \<open>unat b < 128\<close> by (simp add: unat_word_ariths)
qed

lemma and_127: "unat ((b :: byte) AND 127) = unat b mod 128"
proof -
  have "b AND 127 = take_bit 7 b" by (simp add: take_bit_eq_mask mask_numeral)
  then show ?thesis by (simp add: take_bit_eq_mod unat_mod)
qed

lemma unat_255: "unat (255 :: byte) = 255"
  by simp

lemma not_byte: "unat (NOT (b :: byte)) = 255 - unat b"
proof -
  have "NOT b = 255 - b" by (simp add: not_eq_complement)
  moreover have "unat b < 256" by simp
  then have "unat b \<le> unat (255 :: byte)" unfolding unat_255 by linarith
  ultimately show ?thesis by (simp add: unat_sub_if')
qed

lemma be_nat_map_not: "be_nat (map (\<lambda>b. NOT b) bs) + be_nat bs + 1 = 256 ^ length bs"
proof (induction bs)
  case (Cons b bs)
  have "unat (NOT b) + unat b = 255" using unat_byte_less [of b] unfolding not_byte by linarith
  then have "unat (NOT b) * 256 ^ length bs + unat b * 256 ^ length bs = 255 * 256 ^ length bs"
    by (simp add: distrib_right [symmetric])
  then show ?case using Cons by simp
qed simp


subsection \<open>The order of the encoded bytes\<close>

lemma unorder_order: "bs \<noteq> [] \<Longrightarrow> unorder_bytes (order_bytes bs) = bs"
proof -
  assume "bs \<noteq> []"
  then obtain b cs where bs: "bs = b # cs" by (cases bs) auto
  show ?thesis
  proof (cases "unat b < 128")
    case True
    have "\<not> unat (b OR 128) < 128" using True by (simp add: or_128)
    moreover have "(b OR 128) AND 127 = b" using True by (intro word_unat_eq_iff [THEN iffD2]) (simp add: and_127 or_128)
    ultimately show ?thesis using True by (simp add: bs order_bytes_def unorder_bytes_def and_128)
  next
    case False
    then have "unat (NOT b) < 128" unfolding not_byte by linarith
    then show ?thesis using False by (simp add: bs order_bytes_def unorder_bytes_def and_128 comp_def)
  qed
qed

lemma be_nat_order:
  assumes "bs \<noteq> []" "H = 128 * 256 ^ (length bs - 1)"
  shows "be_nat (order_bytes bs) = (if be_nat bs < H then be_nat bs + H else 2 * H - 1 - be_nat bs)"
proof -
  obtain b cs where bs: "bs = b # cs" using assms(1) by (cases bs) auto
  let ?P = "256 ^ length cs :: nat"
  have H: "H = 128 * ?P" using assms(2) by (simp add: bs)
  have lt: "be_nat cs < ?P" by (rule be_nat_less)
  have top: "unat b < 128 \<longleftrightarrow> be_nat bs < H"
  proof
    assume "unat b < 128"
    then have "unat b * ?P \<le> 127 * ?P" by (intro mult_le_mono1) linarith
    then have "unat b * ?P + be_nat cs < 128 * ?P" using lt by linarith
    then show "be_nat bs < H" by (simp add: bs H)
  next
    assume "be_nat bs < H"
    then have "unat b * ?P + be_nat cs < 128 * ?P" by (simp add: bs H)
    then have "unat b * ?P < 128 * ?P" by linarith
    then show "unat b < 128" by simp
  qed
  show ?thesis
  proof (cases "unat b < 128")
    case True
    then have "be_nat (order_bytes bs) = be_nat bs + H"
      by (simp add: bs order_bytes_def and_128 or_128 H distrib_right)
    then show ?thesis using True top by simp
  next
    case False
    then have "order_bytes bs = map (\<lambda>b. NOT b) bs" by (simp add: bs order_bytes_def and_128)
    moreover have "be_nat (map (\<lambda>b. NOT b) bs) + be_nat bs + 1 = 2 * H"
      using be_nat_map_not [of bs] by (simp add: bs H)
    ultimately show ?thesis using False top by simp
  qed
qed

text \<open>
  The IEEE total order on bit patterns of width \<open>2 * H\<close>: negative patterns below the positive
  ones, by magnitude.
\<close>

definition total_order_key :: "nat \<Rightarrow> nat \<Rightarrow> int" where
  "total_order_key H n = (if n < H then int n else int H - 1 - int n)"

lemma order_bytes_mono:
  assumes "length as = length bs" "bs \<noteq> []" "H = 128 * 256 ^ (length bs - 1)"
  shows "be_nat (order_bytes as) < be_nat (order_bytes bs) \<longleftrightarrow>
    total_order_key H (be_nat as) < total_order_key H (be_nat bs)"
proof -
  have as: "as \<noteq> []" "H = 128 * 256 ^ (length as - 1)" using assms by auto
  have "256 ^ length bs = 2 * H" using assms(2,3) by (cases bs) simp_all
  then have "be_nat as < 2 * H" "be_nat bs < 2 * H"
    using be_nat_less [of as] be_nat_less [of bs] assms(1) by simp_all
  then show ?thesis
    unfolding be_nat_order [OF as] be_nat_order [OF assms(2,3)] total_order_key_def by auto
qed


end
