(* ===== verification/Decimal_Text.thy ===== *)
theory Decimal_Text
  imports Transitions
begin

text \<open>
  Decimal text: digit characters, the value of a digit string, and the checked accumulation loop
  \<^verbatim>\<open>value.checked_mul(10)?.checked_add(digit)?\<close> that the drivers' parsers share.
\<close>

definition is_digit_char :: "char \<Rightarrow> bool" where
  "is_digit_char c \<longleftrightarrow> 48 \<le> (of_char c :: nat) \<and> (of_char c :: nat) \<le> 57"

definition digit_value :: "char \<Rightarrow> nat" where
  "digit_value c = of_char c - 48"

definition digits_nat :: "string \<Rightarrow> nat" where
  "digits_nat cs = foldl (\<lambda>a c. a * 10 + digit_value c) 0 cs"

fun checked_digits :: "nat \<Rightarrow> nat \<Rightarrow> string \<Rightarrow> nat option" where
  "checked_digits mx v [] = Some v"
| "checked_digits mx v (c # cs) =
     (if v * 10 > mx then None
      else if v * 10 + digit_value c > mx then None
      else checked_digits mx (v * 10 + digit_value c) cs)"

lemma digits_nat_Nil [simp]: "digits_nat [] = 0"
  by (simp add: digits_nat_def)

lemma digits_nat_snoc [simp]: "digits_nat (cs @ [c]) = digits_nat cs * 10 + digit_value c"
  by (simp add: digits_nat_def)

lemma foldl_digits:
  "foldl (\<lambda>a c. a * 10 + digit_value c) v cs = v * 10 ^ length cs + digits_nat cs"
  by (induction cs arbitrary: v rule: rev_induct) (simp_all add: distrib_right)

lemma digits_nat_append: "digits_nat (cs @ ds) = digits_nat cs * 10 ^ length ds + digits_nat ds"
  by (induction ds rule: rev_induct) (simp_all add: append_assoc [symmetric] distrib_right del: append_assoc)

lemma digits_nat_Cons [simp]: "digits_nat (c # cs) = digit_value c * 10 ^ length cs + digits_nat cs"
  using digits_nat_append [of "[c]" cs] by (simp add: digits_nat_def)

lemma checked_digits_eq:
  "checked_digits mx v cs =
     (if v * 10 ^ length cs + digits_nat cs \<le> mx \<or> cs = [] then Some (v * 10 ^ length cs + digits_nat cs) else None)"
proof (induction mx v cs rule: checked_digits.induct)
  case (2 mx v c cs)
  let ?w = "v * 10 + digit_value c"
  have eq: "v * 10 ^ length (c # cs) + digits_nat (c # cs) = ?w * 10 ^ length cs + digits_nat cs"
    by (simp add: distrib_right)
  have le: "?w \<le> ?w * 10 ^ length cs + digits_nat cs" by (simp add: trans_le_add1)
  show ?case
  proof (cases "?w > mx")
    case True
    then show ?thesis using le unfolding eq by (auto simp: not_le)
  next
    case False
    then show ?thesis using 2 unfolding eq by (auto simp: not_less)
  qed
qed simp

lemma digits_nat_less: "list_all is_digit_char cs \<Longrightarrow> digits_nat cs < 10 ^ length cs"
proof (induction cs)
  case (Cons c cs)
  have "digit_value c \<le> 9" using Cons.prems by (auto simp: is_digit_char_def digit_value_def)
  then have "digit_value c * 10 ^ length cs \<le> 9 * 10 ^ length cs" by simp
  moreover have "digits_nat cs < 10 ^ length cs" using Cons by simp
  ultimately have "digit_value c * 10 ^ length cs + digits_nat cs < 10 * 10 ^ length cs" by linarith
  then show ?case by simp
qed simp

subsection \<open>Printing\<close>

lemma digit_char_of:
  "d < 10 \<Longrightarrow> is_digit_char (char_of (48 + d :: nat))" "d < 10 \<Longrightarrow> digit_value (char_of (48 + d)) = d"
  by (simp_all add: is_digit_char_def digit_value_def)

lemma show_nat_digits [simp]: "list_all is_digit_char (show_nat n)"
proof (induction n rule: show_nat.induct)
  case (1 n)
  then show ?case by (cases "n < 10") (simp_all add: show_nat.simps [of n] digit_char_of)
qed

lemma digits_nat_show [simp]: "digits_nat (show_nat n) = n"
proof (induction n rule: show_nat.induct)
  case (1 n)
  show ?case
  proof (cases "n < 10")
    case True
    then show ?thesis by (simp add: show_nat.simps [of n] digit_char_of)
  next
    case False
    then show ?thesis using 1 by (simp add: show_nat.simps [of n] digit_char_of)
  qed
qed

lemma show_nat_not_Nil [simp]: "show_nat n \<noteq> []"
  by (simp add: show_nat.simps [of n])

lemma length_show_nat: "n < 10 ^ k \<Longrightarrow> 0 < k \<Longrightarrow> length (show_nat n) \<le> k"
proof (induction n arbitrary: k rule: show_nat.induct)
  case (1 n)
  show ?case
  proof (cases "n < 10")
    case True
    then show ?thesis using 1(3) by (simp add: show_nat.simps [of n])
  next
    case False
    obtain j where k: "k = Suc j" using 1(3) gr0_conv_Suc by blast
    then have j: "0 < j" using False 1(2) by (cases j) auto
    have "n div 10 < 10 ^ j" using 1(2) k by (simp add: less_mult_imp_div_less mult.commute)
    then have "length (show_nat (n div 10)) \<le> j" using 1(1) [OF False] j by blast
    then show ?thesis using False k by (simp add: show_nat.simps [of n])
  qed
qed

definition show_int :: "int \<Rightarrow> string" where
  "show_int v = (if v < 0 then ''-'' @ show_nat (nat (- v)) else show_nat (nat v))"

lemma digit_char_neq:
  "is_digit_char c \<Longrightarrow> c \<noteq> CHR ''.'' \<and> c \<noteq> CHR ''-'' \<and> c \<noteq> CHR ''+'' \<and> c \<noteq> CHR ''e'' \<and> c \<noteq> CHR ''E''"
  by (auto simp: is_digit_char_def)

end
