(* ===== verification/Arrow_Convert.thy ===== *)
theory Arrow_Convert
  imports Civil_Calendar Decimal_Text
begin

text \<open>
  The scalar conversions between Oracle values and Arrow columns
  (\<^verbatim>\<open>crates/oracledb/src/arrow/builders.rs\<close>, \<^verbatim>\<open>arrow/direct_path.rs\<close>): epochs of dates and
  timestamps in the four Arrow units and back, intervals, integers and 128-bit decimals. The Arrow
  arrays themselves belong to the \<^verbatim>\<open>arrow\<close> crates.
\<close>

subsection \<open>Numbers\<close>

definition has_exponent :: "string \<Rightarrow> bool" where
  "has_exponent txt \<longleftrightarrow> (\<exists>c\<in>set txt. c = CHR ''e'' \<or> c = CHR ''E'')"

definition i64_max :: nat where "i64_max = 2 ^ 63 - 1"
definition u64_max :: nat where "u64_max = 2 ^ 64 - 1"
definition i128_max_nat :: nat where "i128_max_nat = 2 ^ 127 - 1"

definition parse_number_i64 :: "string \<Rightarrow> int option" where
  "parse_number_i64 txt =
     (if has_exponent txt then None
      else
        let (negative, rest) = (case txt of
               c # cs \<Rightarrow> if c = CHR ''-'' then (True, cs) else if c = CHR ''+'' then (False, cs) else (False, txt)
             | [] \<Rightarrow> (False, txt));
            digits = takeWhile is_digit_char rest
        in if digits = [] then None
           else map_option (\<lambda>v. if negative then - int v else int v) (checked_digits i64_max 0 digits))"

definition parse_number_u64 :: "string \<Rightarrow> nat option" where
  "parse_number_u64 txt =
     (if has_exponent txt then None
      else
        let rest = (case txt of c # cs \<Rightarrow> if c = CHR ''+'' then cs else txt | [] \<Rightarrow> txt);
            digits = takeWhile is_digit_char rest
        in if digits = [] then None else checked_digits u64_max 0 digits)"

definition decimal128_to_string :: "int \<Rightarrow> int \<Rightarrow> string" where
  "decimal128_to_string unscaled scale =
     (if scale \<le> 0 then show_int unscaled @ replicate (nat (- scale)) (CHR ''0'')
      else
        let sc = nat scale;
            digits = show_nat (nat \<bar>unscaled\<bar>);
            txt = (if length digits \<le> sc then ''0.'' @ replicate (sc - length digits) (CHR ''0'') @ digits
                   else take (length digits - sc) digits @ ''.'' @ drop (length digits - sc) digits)
        in if unscaled < 0 then ''-'' @ txt else txt)"

definition split_point :: "string \<Rightarrow> string \<times> string" where
  "split_point rest =
     (let i = takeWhile (\<lambda>c. c \<noteq> CHR ''.'') rest
      in if length i = length rest then (rest, []) else (i, drop (length i + 1) rest))"

definition decimal128_from_number_text :: "string \<Rightarrow> int \<Rightarrow> int option" where
  "decimal128_from_number_text txt scale =
     (if has_exponent txt then None
      else
        let (negative, rest) = (case txt of
               c # cs \<Rightarrow> if c = CHR ''-'' then (True, cs) else (False, txt)
             | [] \<Rightarrow> (False, txt));
            (int_part, frac_part) = split_point rest
        in if int_part = [] \<and> frac_part = [] then None
           else if \<not> list_all is_digit_char int_part \<or> \<not> list_all is_digit_char frac_part then None
           else
             let scale_digits = nat (max scale 0)
             in if length frac_part > scale_digits then None
                else
                  let digits = int_part @ frac_part @ replicate (scale_digits - length frac_part) (CHR ''0'');
                      trimmed = dropWhile (\<lambda>c. c = CHR ''0'') digits
                  in if length trimmed > 38 then None
                     else map_option (\<lambda>v. if negative then - int v else int v)
                            (checked_digits i128_max_nat 0 digits))"

subsection \<open>Dates and timestamps\<close>

definition days_from_civil_arrow :: "int \<Rightarrow> nat \<Rightarrow> nat \<Rightarrow> int" where
  "days_from_civil_arrow year0 month0 day0 =
     (let year = year0 - (if month0 \<le> 2 then 1 else 0);
          era = (if year \<ge> 0 then year else year - 399) sdiv 400;
          year_of_era = year - era * 400;
          month = int month0;
          day = int day0;
          day_of_year = (153 * (if month > 2 then month - 3 else month + 9) + 2) sdiv 5 + day - 1;
          day_of_era = year_of_era * 365 + year_of_era sdiv 4 - year_of_era sdiv 100 + day_of_year
      in era * 146097 + day_of_era - 719468)"

record epoch_parts =
  ep_seconds :: int
  ep_nanos :: nat

definition epoch_parts_from_components ::
  "int \<Rightarrow> nat \<Rightarrow> nat \<Rightarrow> nat \<Rightarrow> nat \<Rightarrow> nat \<Rightarrow> nat \<Rightarrow> epoch_parts" where
  "epoch_parts_from_components year month day hour minute second nanosecond =
     \<lparr>ep_seconds = days_from_civil_arrow year month day * 86400 + int hour * 3600 + int minute * 60 + int second,
      ep_nanos = nanosecond\<rparr>"

definition epoch_parts_from_tstz ::
  "int \<Rightarrow> nat \<Rightarrow> nat \<Rightarrow> nat \<Rightarrow> nat \<Rightarrow> nat \<Rightarrow> nat \<Rightarrow> int \<Rightarrow> epoch_parts" where
  "epoch_parts_from_tstz year month day hour minute second nanosecond offset_minutes =
     (let parts = epoch_parts_from_components year month day hour minute second nanosecond
      in parts\<lparr>ep_seconds := ep_seconds parts + offset_minutes * 60\<rparr>)"

datatype time_unit = Second | Millisecond | Microsecond | Nanosecond

definition timestamp_epoch_value :: "epoch_parts \<Rightarrow> time_unit \<Rightarrow> int option" where
  "timestamp_epoch_value parts unit =
     (case unit of
        Second \<Rightarrow> Some (ep_seconds parts)
      | Millisecond \<Rightarrow> Option.bind (checked_i64 (ep_seconds parts * 1000)) (\<lambda>v.
          checked_i64 (v + int (ep_nanos parts) sdiv 1000000))
      | Microsecond \<Rightarrow> Option.bind (checked_i64 (ep_seconds parts * 1000000)) (\<lambda>v.
          checked_i64 (v + int (ep_nanos parts) sdiv 1000))
      | Nanosecond \<Rightarrow> Option.bind (checked_i64 (ep_seconds parts * 1000000000)) (\<lambda>v.
          checked_i64 (v + int (ep_nanos parts))))"

text \<open>\<^verbatim>\<open>as i32\<close> and \<^verbatim>\<open>as u8\<close> keep the low bits.\<close>

definition as_i32 :: "int \<Rightarrow> int" where
  "as_i32 x = (x + 2 ^ 31) mod 2 ^ 32 - 2 ^ 31"

definition as_u8 :: "int \<Rightarrow> nat" where
  "as_u8 x = nat (x mod 256)"

definition civil_from_days_arrow :: "int \<Rightarrow> int \<times> nat \<times> nat" where
  "civil_from_days_arrow days0 =
     (let days = days0 + 719468;
          era = (if days \<ge> 0 then days else days - 146096) sdiv 146097;
          day_of_era = days - era * 146097;
          year_of_era = (day_of_era - day_of_era sdiv 1460 + day_of_era sdiv 36524 - day_of_era sdiv 146096) sdiv 365;
          year = year_of_era + era * 400;
          day_of_year = day_of_era - (365 * year_of_era + year_of_era sdiv 4 - year_of_era sdiv 100);
          month_prime = (5 * day_of_year + 2) sdiv 153;
          day = day_of_year - (153 * month_prime + 2) sdiv 5 + 1;
          month = month_prime + (if month_prime < 10 then 3 else -9);
          year = year + (if month \<le> 2 then 1 else 0)
      in (as_i32 year, as_u8 month, as_u8 day))"

definition datetime_from_epoch :: "int \<Rightarrow> nat \<Rightarrow> int \<times> nat \<times> nat \<times> nat \<times> nat \<times> nat \<times> nat" where
  "datetime_from_epoch seconds nanos =
     (let days = seconds div 86400;
          seconds_of_day = seconds mod 86400;
          (year, month, day) = civil_from_days_arrow days
      in (year, month, day, as_u8 (seconds_of_day sdiv 3600), as_u8 (seconds_of_day smod 3600 sdiv 60),
          as_u8 (seconds_of_day smod 60), nanos))"

definition direct_path_timestamp :: "time_unit \<Rightarrow> int \<Rightarrow> int \<times> nat \<times> nat \<times> nat \<times> nat \<times> nat \<times> nat" where
  "direct_path_timestamp unit raw =
     (let (seconds, nanos) = (case unit of
            Second \<Rightarrow> (raw, 0)
          | Millisecond \<Rightarrow> (raw div 1000, nat (raw mod 1000) * 1000000)
          | Microsecond \<Rightarrow> (raw div 1000000, nat (raw mod 1000000) * 1000)
          | Nanosecond \<Rightarrow> (raw div 1000000000, nat (raw mod 1000000000)))
      in datetime_from_epoch seconds nanos)"

definition direct_path_date32 :: "int \<Rightarrow> int \<times> nat \<times> nat \<times> nat \<times> nat \<times> nat \<times> nat" where
  "direct_path_date32 days = datetime_from_epoch (days * 86400) 0"

definition direct_path_date64 :: "int \<Rightarrow> int \<times> nat \<times> nat \<times> nat \<times> nat \<times> nat \<times> nat" where
  "direct_path_date64 millis = datetime_from_epoch (millis div 1000) (nat (millis mod 1000) * 1000000)"

text \<open>Intervals as Arrow's months, days and nanoseconds.\<close>

definition interval_ds_month_day_nano :: "int \<Rightarrow> int \<Rightarrow> int \<Rightarrow> int \<Rightarrow> int \<Rightarrow> int \<times> int \<times> int" where
  "interval_ds_month_day_nano days hours minutes seconds fseconds =
     (let total_seconds = hours * 3600 + minutes * 60 + seconds
      in (0, days, total_seconds * 1000000000 + fseconds))"

definition interval_ym_month_day_nano :: "int \<Rightarrow> int \<Rightarrow> (int \<times> int \<times> int) option" where
  "interval_ym_month_day_nano years months =
     (let total = years * 12 + months in if i32_range total then Some (total, 0, 0) else None)"


subsection \<open>Agreement with the protocol's calendar\<close>

lemma days_arrow_eq:
  "1 \<le> m \<Longrightarrow> m \<le> 12 \<Longrightarrow> 1 \<le> d \<Longrightarrow> d \<le> 31 \<Longrightarrow> days_from_civil y m d = Inr (days_from_civil_arrow y m d)"
  by (simp add: days_from_civil_def days_from_civil_arrow_def Let_def)

lemma as_i32_id: "i32_range x \<Longrightarrow> as_i32 x = x"
  by (simp add: i32_range_def as_i32_def)

lemma as_u8_id: "0 \<le> x \<Longrightarrow> x < 256 \<Longrightarrow> as_u8 x = nat x"
  by (simp add: as_u8_def)

lemma civil_arrow_eq:
  assumes "civil_from_days n = Inr (y, m, d)"
  shows "civil_from_days_arrow n = (y, m, d)"
proof -
  have "\<exists>Y M D. civil_from_days n = ebind (i32_try_from ''invalid adjusted TIMESTAMP year'' Y) (\<lambda>y.
         ebind (u8_try_from ''invalid adjusted TIMESTAMP month'' M) (\<lambda>m.
         ebind (u8_try_from ''invalid adjusted TIMESTAMP day'' D) (\<lambda>d. Inr (y, m, d)))) \<and>
      civil_from_days_arrow n = (as_i32 Y, as_u8 M, as_u8 D)"
    unfolding civil_from_days_def civil_from_days_arrow_def Let_def by (intro exI conjI, rule refl, rule refl)
  then show ?thesis
    using assms by (auto simp: ebind_Inr_iff i32_try_from_def u8_try_from_def as_i32_id as_u8_id split: if_splits)
qed

lemma datetime_from_epoch_eq:
  assumes "datetime_ok (y, m, d, h, mi, s)" "instant (y, m, d, h, mi, s) = Inr t"
  shows "datetime_from_epoch t ns = (y, m, d, h, mi, s, ns)"
proof -
  have cv: "civil_date y m d" "i32_range y" and b: "h < 24" "mi < 60" "s < 60"
    using assms(1) by (simp_all add: datetime_ok_def)
  obtain n where n: "days_from_civil y m d = Inr n" "t = n * 86400 + (int h * 3600 + int mi * 60 + int s)"
    using assms(2) by (cases "days_from_civil y m d") (auto simp: instant_def)
  let ?r = "int h * 3600 + int mi * 60 + int s"
  have r: "0 \<le> ?r" "?r < 86400" using b by linarith+
  have "t div 86400 = n" "t mod 86400 = ?r" unfolding n(2) using r by simp_all
  moreover have "civil_from_days_arrow n = (y, m, d)" by (rule civil_arrow_eq [OF days_then_civil [OF cv n(1)]])
  moreover have "?r sdiv 3600 = int h" "?r smod 3600 sdiv 60 = int mi" "?r smod 60 = int s"
  proof -
    have "?r div 3600 = int h" using b by (intro div_unique_int) auto
    moreover have "?r mod 3600 = int mi * 60 + int s" using b by (subst add.assoc) (simp add: mod_add_left_eq)
    moreover have "(int mi * 60 + int s) div 60 = int mi" using b by (intro div_unique_int) auto
    moreover have "?r = (int h * 60 + int mi) * 60 + int s" by simp
    then have "?r mod 60 = int s" using b by (simp only: mod_mult_self3) simp
    ultimately show "?r sdiv 3600 = int h" "?r smod 3600 sdiv 60 = int mi" "?r smod 60 = int s"
      using r(1) by (simp_all add: sdiv_pos smod_pos)
  qed
  ultimately show ?thesis using b by (simp add: datetime_from_epoch_def as_u8_id)
qed

text \<open>The nanoseconds an Arrow unit keeps.\<close>

definition unit_nanos :: "time_unit \<Rightarrow> nat" where
  "unit_nanos unit = (case unit of Second \<Rightarrow> 1000000000 | Millisecond \<Rightarrow> 1000000 | Microsecond \<Rightarrow> 1000 | Nanosecond \<Rightarrow> 1)"

lemma epoch_raw_split:
  fixes k :: int
  assumes "0 < k" "0 \<le> r" "r < k"
  shows "(t * k + r) div k = t" "(t * k + r) mod k = r"
  using assms by simp_all

lemma timestamp_epoch_split:
  assumes "timestamp_epoch_value \<lparr>ep_seconds = t, ep_nanos = ns\<rparr> unit = Some raw" "ns < 1000000000"
  shows "direct_path_timestamp unit raw = datetime_from_epoch t (ns div unit_nanos unit * unit_nanos unit)"
proof -
  have k: "ns div 1000000 < 1000" "ns div 1000 < 1000000" using assms(2) by simp_all
  have i: "int ns sdiv 1000000 = int (ns div 1000000)" "int ns sdiv 1000 = int (ns div 1000)"
    by (simp_all add: sdiv_pos zdiv_int)
  show ?thesis
  proof (cases unit)
    case Second
    then show ?thesis using assms by (simp add: timestamp_epoch_value_def direct_path_timestamp_def unit_nanos_def)
  next
    case Millisecond
    then have "raw = t * 1000 + int (ns div 1000000)"
      using assms(1) by (auto simp: timestamp_epoch_value_def checked_i64_def i split: if_splits bind_splits)
    then show ?thesis using k(1) Millisecond epoch_raw_split [of 1000 "int (ns div 1000000)" t]
      by (simp add: direct_path_timestamp_def unit_nanos_def)
  next
    case Microsecond
    then have "raw = t * 1000000 + int (ns div 1000)"
      using assms(1) by (auto simp: timestamp_epoch_value_def checked_i64_def i split: if_splits bind_splits)
    then show ?thesis using k(2) Microsecond epoch_raw_split [of 1000000 "int (ns div 1000)" t]
      by (simp add: direct_path_timestamp_def unit_nanos_def)
  next
    case Nanosecond
    then have "raw = t * 1000000000 + int ns"
      using assms(1) by (auto simp: timestamp_epoch_value_def checked_i64_def split: if_splits bind_splits)
    then show ?thesis using assms(2) Nanosecond epoch_raw_split [of 1000000000 "int ns" t]
      by (simp add: direct_path_timestamp_def unit_nanos_def)
  qed
qed

lemma epoch_components_instant:
  assumes "civil_date y m d"
  shows "instant (y, m, d, h, mi, s) = Inr (ep_seconds (epoch_parts_from_components y m d h mi s ns))"
  using days_arrow_eq [of m d y] civil_date_bounds [OF assms] by (simp add: instant_def epoch_parts_from_components_def)

text \<open>
  C36. Arrow timestamps are lossless up to the column's unit: an Oracle date and time put into an Arrow
  timestamp column and loaded back through the direct path gives the same civil date and time of
  day, with the fraction cut to the unit; seconds, milliseconds and microseconds never overflow.
\<close>

theorem arrow_timestamp_roundtrip:
  assumes "civil_date y m d" "- 4712 \<le> y" "y \<le> 9999" "h < 24" "mi < 60" "s < 60" "ns < 1000000000"
    and "unit = Nanosecond \<Longrightarrow> timestamp_epoch_value (epoch_parts_from_components y m d h mi s ns) unit \<noteq> None"
  shows "\<exists>raw. timestamp_epoch_value (epoch_parts_from_components y m d h mi s ns) unit = Some raw \<and>
    direct_path_timestamp unit raw = (y, m, d, h, mi, s, ns div unit_nanos unit * unit_nanos unit)"
proof -
  define t where "t = ep_seconds (epoch_parts_from_components y m d h mi s ns)"
  have parts: "epoch_parts_from_components y m d h mi s ns = \<lparr>ep_seconds = t, ep_nanos = ns\<rparr>"
    by (simp add: t_def epoch_parts_from_components_def)
  have inst: "instant (y, m, d, h, mi, s) = Inr t"
    unfolding t_def by (rule epoch_components_instant) (rule assms(1))
  then have t: "\<bar>t\<bar> \<le> 700000000000"
    using oracle_instant [of y m d h mi s] assms(1-6) by fastforce
  have i: "0 \<le> int ns sdiv 1000000" "int ns sdiv 1000000 < 1000" "0 \<le> int ns sdiv 1000" "int ns sdiv 1000 < 1000000"
    using assms(7) by (simp_all add: sdiv_pos zdiv_int [of _ 1000, simplified, symmetric] zdiv_int [of _ 1000000, simplified, symmetric])
  have "\<exists>raw. timestamp_epoch_value \<lparr>ep_seconds = t, ep_nanos = ns\<rparr> unit = Some raw" if "unit \<noteq> Nanosecond"
    using that t i by (cases unit) (auto simp: timestamp_epoch_value_def checked_i64_def i64_range_def)
  then obtain raw where raw: "timestamp_epoch_value \<lparr>ep_seconds = t, ep_nanos = ns\<rparr> unit = Some raw"
    using assms(8) unfolding parts by fastforce
  have "datetime_ok (y, m, d, h, mi, s)"
    using assms(1-6) by (simp add: datetime_ok_def i32_range_def)
  then have "direct_path_timestamp unit raw = (y, m, d, h, mi, s, ns div unit_nanos unit * unit_nanos unit)"
    using timestamp_epoch_split [OF raw assms(7)] datetime_from_epoch_eq [OF _ inst] by simp
  then show ?thesis using raw parts by auto
qed

theorem arrow_timestamp_roundtrip_witness:
  "\<exists>raw. timestamp_epoch_value (epoch_parts_from_components 2024 2 29 23 59 59 123456789) Microsecond = Some raw \<and>
    direct_path_timestamp Microsecond raw = (2024, 2, 29, 23, 59, 59, 123456000)"
  using arrow_timestamp_roundtrip [of 2024 2 29 23 59 59 123456789 Microsecond]
  by (simp add: civil_date_def days_in_month_def leap_year_def unit_nanos_def)

text \<open>The intermediate values of \<open>civil_from_days_arrow\<close>, for evaluation on one day number.\<close>

lemma civil_arrow_steps:
  assumes "days = n + 719468" "era = (if days \<ge> 0 then days else days - 146096) sdiv 146097" "doe = days - era * 146097"
    and "yoe = (doe - doe sdiv 1460 + doe sdiv 36524 - doe sdiv 146096) sdiv 365"
    and "doy = doe - (365 * yoe + yoe sdiv 4 - yoe sdiv 100)" "mp = (5 * doy + 2) sdiv 153"
    and "m = mp + (if mp < 10 then 3 else -9)" "y = yoe + era * 400 + (if m \<le> 2 then 1 else 0)"
    and "d = doy - (153 * mp + 2) sdiv 5 + 1"
  shows "civil_from_days_arrow n = (as_i32 y, as_u8 m, as_u8 d)"
  unfolding civil_from_days_arrow_def Let_def assms(1) [symmetric] assms(2) [symmetric] assms(3) [symmetric]
    assms(4) [symmetric] assms(5) [symmetric] assms(6) [symmetric] assms(7) [symmetric] assms(8,9) [symmetric]
  by (rule refl)

text \<open>
  A timestamp outside the years Oracle can store is not refused on the way back: the year is
  cut to 32 bits, so the first second of the year 4294969320 is loaded as the year 2024.
\<close>

theorem direct_path_year_wraps:
  "i64_range 135536078505484800 \<and> days_from_civil 4294969320 1 1 = Inr (135536078505484800 div 86400) \<and>
   direct_path_timestamp Second 135536078505484800 = (2024, 1, 1, 0, 0, 0, 0)"
proof -
  have "days_from_civil 4294969320 1 1 = Inr 1568704612332"
    by (simp add: days_from_civil_eq year_start_def month_start_def)
  moreover have "civil_from_days_arrow 1568704612332 = (2024, 1, 1)"
    by (rule civil_arrow_steps [of 1568705331800 _ 10737423 43769 119 306 10 1 4294969320 1, THEN trans])
       (simp_all add: sdiv_pos as_i32_def as_u8_def)
  ultimately show ?thesis
    by (simp add: i64_range_def direct_path_timestamp_def datetime_from_epoch_def as_u8_def signed_divide_int_def
        smod_int_alt_def)
qed


subsection \<open>Integers and decimals\<close>

lemma takeWhile_digits_append:
  "list_all is_digit_char ds \<Longrightarrow> rest = [] \<or> \<not> is_digit_char (hd rest) \<Longrightarrow> takeWhile is_digit_char (ds @ rest) = ds"
  by (cases rest) (auto simp: list_all_iff takeWhile_append2)

lemma digits_no_exponent: "list_all is_digit_char ds \<Longrightarrow> \<not> has_exponent ds"
  by (auto simp: has_exponent_def list_all_iff dest: digit_char_neq)

lemma has_exponent_append [simp]: "has_exponent (xs @ ys) \<longleftrightarrow> has_exponent xs \<or> has_exponent ys"
  by (auto simp: has_exponent_def)

lemma has_exponent_Cons [simp]: "has_exponent (c # cs) \<longleftrightarrow> c = CHR ''e'' \<or> c = CHR ''E'' \<or> has_exponent cs"
  by (auto simp: has_exponent_def)

lemma show_nat_hd: obtains c cs where "show_nat n = c # cs" "is_digit_char c"
  using show_nat_digits [of n] by (cases "show_nat n") auto

text \<open>
  Integer columns: the text of an integer, with or without a fraction, is read as that integer
  when its magnitude is at most \<open>2^63 - 1\<close> and refused otherwise; the smallest \<^verbatim>\<open>i64\<close> is refused
  although it is in range.
\<close>

theorem parse_number_i64_exact:
  assumes "fp = [] \<or> hd fp = CHR ''.''" "\<not> has_exponent fp"
  shows "parse_number_i64 (show_int v @ fp) = (if \<bar>v\<bar> < 2 ^ 63 then Some v else None)"
proof -
  let ?n = "nat \<bar>v\<bar>"
  obtain c cs where c: "show_nat ?n = c # cs" "is_digit_char c" by (rule show_nat_hd)
  have tw: "takeWhile is_digit_char (show_nat ?n @ fp) = show_nat ?n"
    using assms(1) by (intro takeWhile_digits_append) (auto simp: is_digit_char_def)
  have ne: "\<not> has_exponent (show_int v @ fp)"
    using digits_no_exponent [OF show_nat_digits] assms(2) by (simp add: show_int_def)
  have split: "(case show_int v @ fp of
         c # cs \<Rightarrow> if c = CHR ''-'' then (True, cs) else if c = CHR ''+'' then (False, cs) else (False, show_int v @ fp)
       | [] \<Rightarrow> (False, show_int v @ fp)) = (v < 0, show_nat ?n @ fp)"
    using c digit_char_neq [OF c(2)] by (auto simp: show_int_def)
  have ck: "checked_digits i64_max 0 (show_nat ?n) = (if ?n \<le> i64_max then Some ?n else None)"
    by (simp add: checked_digits_eq)
  have "?n \<le> i64_max \<longleftrightarrow> \<bar>v\<bar> < 2 ^ 63" by (simp add: i64_max_def) linarith
  then show ?thesis
    using ne unfolding parse_number_i64_def split by (simp add: tw ck)
qed

theorem parse_number_i64_exact_witness:
  "parse_number_i64 (show_int (- 9223372036854775808) @ ''.5'') = None"
  by (rule parse_number_i64_exact [THEN trans]) (simp_all add: has_exponent_def)

lemma digits_trim: "digits_nat (dropWhile (\<lambda>c. c = CHR ''0'') ds) = digits_nat ds"
  by (induction ds) (simp_all add: digit_value_def)

lemma nonzero_digit:
  assumes "is_digit_char c" "c \<noteq> CHR ''0''"
  shows "0 < digit_value c"
proof -
  have "(of_char c :: nat) \<noteq> of_char (CHR ''0'')" using assms(2) by (simp only: of_char_eq_iff not_False_eq_True)
  then show ?thesis using assms(1) by (simp add: is_digit_char_def digit_value_def)
qed

lemma trimmed_length:
  assumes "list_all is_digit_char ds" "digits_nat ds < 10 ^ k"
  shows "length (dropWhile (\<lambda>c. c = CHR ''0'') ds) \<le> k"
proof (cases "dropWhile (\<lambda>c. c = CHR ''0'') ds")
  case (Cons c cs)
  then have "c \<noteq> CHR ''0''" using hd_dropWhile [of "\<lambda>c. c = CHR ''0''" ds] by simp
  moreover have "is_digit_char c"
    using assms(1) Cons set_dropWhileD [of c "\<lambda>c. c = CHR ''0''" ds] by (auto simp: list_all_iff)
  ultimately have "0 < digit_value c" by (simp add: nonzero_digit)
  then have "10 ^ length cs \<le> digits_nat (c # cs)" by (cases "digit_value c") (simp_all add: algebra_simps)
  also have "digits_nat (c # cs) = digits_nat ds" using digits_trim [of ds] Cons by simp
  finally have "(10 :: nat) ^ length cs < 10 ^ k" using assms(2) by linarith
  then have "length cs < k" by simp
  then show ?thesis using Cons by simp
qed (simp only: list.size le0)

lemma split_point_digits:
  assumes "list_all is_digit_char ip"
  shows "split_point (ip @ ''.'' @ fp) = (ip, fp)" "split_point ip = (ip, [])"
proof -
  have n: "\<forall>c\<in>set ip. c \<noteq> CHR ''.''" using assms digit_char_neq by (auto simp: list_all_iff)
  have "takeWhile (\<lambda>c. c \<noteq> CHR ''.'') (ip @ ''.'' @ fp) = ip" using n by (simp add: takeWhile_append2)
  then show "split_point (ip @ ''.'' @ fp) = (ip, fp)" by (simp add: split_point_def Let_def)
  have "takeWhile (\<lambda>c. c \<noteq> CHR ''.'') ip = ip" using n by (simp add: takeWhile_eq_all_conv)
  then show "split_point ip = (ip, [])" unfolding split_point_def Let_def by (simp only: simp_thms if_True)
qed

lemma decimal_from_parts:
  assumes "list_all is_digit_char ip" "list_all is_digit_char fp" "ip \<noteq> []" "length fp = nat scale" "0 \<le> scale"
    and "digits_nat (ip @ fp) < 10 ^ 38" "txt = ip @ (if fp = [] then [] else ''.'' @ fp)"
  shows "decimal128_from_number_text (if neg then ''-'' @ txt else txt) scale =
    Some (if neg then - int (digits_nat (ip @ fp)) else int (digits_nat (ip @ fp)))"
proof -
  obtain c cs where c: "ip = c # cs" "is_digit_char c" using assms(1,3) by (cases ip) auto
  have ne: "\<not> has_exponent (if neg then ''-'' @ txt else txt)"
    using digits_no_exponent assms(1,2,7) by auto
  have sp: "split_point txt = (ip, fp)" using split_point_digits(1) [OF assms(1), of fp] split_point_digits(2) [OF assms(1)] by (simp add: assms(7))
  have sg: "(case (if neg then ''-'' @ txt else txt) of
         c # cs \<Rightarrow> if c = CHR ''-'' then (True, cs) else (False, (if neg then ''-'' @ txt else txt))
       | [] \<Rightarrow> (False, (if neg then ''-'' @ txt else txt))) = (neg, txt)"
    using c digit_char_neq [OF c(2)] by (auto simp: assms(7))
  have all: "list_all is_digit_char (ip @ fp)" using assms(1,2) by simp
  have "digits_nat (ip @ fp) \<le> i128_max_nat" using assms(6) by (simp add: i128_max_nat_def)
  then have ck: "checked_digits i128_max_nat 0 (ip @ fp) = Some (digits_nat (ip @ fp))"
    by (simp add: checked_digits_eq)
  show ?thesis
    using ne assms(3-5) trimmed_length [OF all assms(6)]
    unfolding decimal128_from_number_text_def sg by (simp add: sp assms(1,2) Let_def ck)
qed

lemma decimal_to_parts:
  assumes "0 \<le> scale"
  obtains ip fp where "decimal128_to_string v scale = (if v < 0 then ''-'' @ (ip @ (if fp = [] then [] else ''.'' @ fp))
      else ip @ (if fp = [] then [] else ''.'' @ fp))"
    "list_all is_digit_char ip" "list_all is_digit_char fp" "ip \<noteq> []" "length fp = nat scale"
    "digits_nat (ip @ fp) = nat \<bar>v\<bar>"
proof (cases "scale = 0")
  case True
  show thesis
    by (rule that [of "show_nat (nat \<bar>v\<bar>)" "[]"]) (simp_all add: True decimal128_to_string_def show_int_def)
next
  case False
  define ds where "ds = show_nat (nat \<bar>v\<bar>)"
  have ds: "list_all is_digit_char ds" "digits_nat ds = nat \<bar>v\<bar>" "ds \<noteq> []" by (simp_all add: ds_def)
  have sc: "0 < scale" using False assms by simp
  show thesis
  proof (cases "length ds \<le> nat scale")
    case True
    have "digits_nat (replicate k (CHR ''0'') @ ds) = digits_nat ds" for k
      by (induction k) (simp_all add: digit_value_def)
    moreover have "list_all is_digit_char (replicate k (CHR ''0''))" for k
      by (simp add: list_all_iff is_digit_char_def)
    ultimately show thesis
      using sc True ds
      by (intro that [of "''0''" "replicate (nat scale - length ds) (CHR ''0'') @ ds"])
         (auto simp: decimal128_to_string_def Let_def ds_def [symmetric] is_digit_char_def digit_value_def)
  next
    case False
    let ?i = "take (length ds - nat scale) ds" and ?f = "drop (length ds - nat scale) ds"
    have "?f \<noteq> []" "?i \<noteq> []" "length ?f = nat scale" using sc False ds(3) by simp_all
    moreover have "list_all is_digit_char ?i" "list_all is_digit_char ?f"
      using ds(1) by (auto simp: list_all_iff dest: in_set_takeD in_set_dropD)
    ultimately show thesis
      using sc False ds(2)
      by (intro that [of ?i ?f]) (simp_all add: decimal128_to_string_def Let_def ds_def [symmetric])
  qed
qed

text \<open>
  C37. Decimals: the text printed for a 128-bit decimal of up to 38 digits is read back as the same
  unscaled value at the same scale, for every scale that is not negative.
\<close>

theorem decimal128_roundtrip:
  assumes "\<bar>v\<bar> < 10 ^ 38" "0 \<le> scale"
  shows "decimal128_from_number_text (decimal128_to_string v scale) scale = Some v"
proof -
  obtain ip fp where p: "decimal128_to_string v scale = (if v < 0 then ''-'' @ (ip @ (if fp = [] then [] else ''.'' @ fp))
        else ip @ (if fp = [] then [] else ''.'' @ fp))"
      "list_all is_digit_char ip" "list_all is_digit_char fp" "ip \<noteq> []" "length fp = nat scale"
      "digits_nat (ip @ fp) = nat \<bar>v\<bar>"
    using decimal_to_parts [OF assms(2)] by metis
  have "digits_nat (ip @ fp) < 10 ^ 38" using assms(1) unfolding p(6) by simp
  from decimal_from_parts [OF p(2-5) assms(2) this refl, of "v < 0"] show ?thesis
    unfolding p(1) p(6) by (simp split: if_splits)
qed

theorem decimal128_roundtrip_witness:
  "decimal128_from_number_text (decimal128_to_string (- 5) 3) 3 = Some (- 5)"
  by (rule decimal128_roundtrip) simp_all

text \<open>With a negative scale the printed zeros are read as part of the value.\<close>

lemma decimal128_negative_scale:
  "decimal128_from_number_text (decimal128_to_string 5 (- 2)) (- 2) = Some 500"
proof -
  have "char_of (53 :: nat) = CHR ''5''" by code_simp
  moreover have "replicate 2 (CHR ''0'') = ''00''" by (simp add: numeral_2_eq_2)
  ultimately show ?thesis
    by (simp add: decimal128_to_string_def decimal128_from_number_text_def show_int_def show_nat.simps
        has_exponent_def split_point_def is_digit_char_def digit_value_def i128_max_nat_def)
qed

end
