(* ===== verification/Refinement.thy ===== *)
theory Refinement
  imports Transitions
begin

text \<open>
  The contract of a forward simulation between a detailed state and an abstract one that take the same
  events, and its consequence for whole runs.
\<close>

locale simulation =
  fixes cstep :: "'e \<Rightarrow> 'c \<Rightarrow> 'c"
    and astep :: "'e \<Rightarrow> 'a \<Rightarrow> 'a"
    and rel :: "'c \<Rightarrow> 'a \<Rightarrow> bool"
  assumes simulates: "rel c a \<Longrightarrow> rel (cstep e c) (astep e a)"
begin

lemma run: "rel c a \<Longrightarrow> rel (fold cstep es c) (fold astep es a)"
  by (induction es arbitrary: c a) (simp_all add: simulates)

end

end
