(* ===== verification/Shape_Cache.thy ===== *)
theory Shape_Cache
  imports Refinement
begin

text \<open>
  The statement-shape cache shared by connections (\<^verbatim>\<open>crates/oracledb/src/shape_cache.rs\<close>): the
  normalisation of SQL text into a key, the fingerprint of described columns, and the three operations
  that read and change the cache. The lemmas characterise when two statements share a key and show that
  the cache is a function of the sequence of shapes observed for the key since its last invalidation.
\<close>

subsection \<open>Normalised SQL text\<close>

definition is_ascii_whitespace :: "char \<Rightarrow> bool" where
  "is_ascii_whitespace c \<longleftrightarrow> (of_char c :: nat) \<in> {9, 10, 12, 13, 32}"

definition is_quote :: "char \<Rightarrow> bool" where
  "is_quote c \<longleftrightarrow> c = CHR 0x27 \<or> c = CHR 0x22"

text \<open>The inner loop over a literal: what it copies, and the text it leaves.\<close>

fun copy_literal :: "char \<Rightarrow> string \<Rightarrow> string \<times> string" where
  "copy_literal quote [] = ([], [])"
| "copy_literal quote [c] = ([c], [])"
| "copy_literal quote (c # d # cs) =
     (if c = quote then
        if d = quote then (let (out, rest) = copy_literal quote cs in (c # d # out, rest))
        else ([c], d # cs)
      else let (out, rest) = copy_literal quote (d # cs) in (c # out, rest))"

lemma copy_literal_append: "copy_literal q cs = (out, rest) \<Longrightarrow> cs = out @ rest"
  by (induction q cs arbitrary: out rest rule: copy_literal.induct) (auto split: if_splits prod.splits)

lemma copy_literal_shorter: "length (snd (copy_literal q cs)) \<le> length cs"
  using copy_literal_append [of q cs] by (cases "copy_literal q cs") auto

function normalize_loop :: "bool \<Rightarrow> string \<Rightarrow> string" where
  "normalize_loop pending_space [] = []"
| "normalize_loop pending_space (c # cs) =
     (if is_quote c then
        let (out, rest) = copy_literal c cs
        in (if pending_space then '' '' else []) @ c # out @ normalize_loop False rest
      else if is_ascii_whitespace c then normalize_loop True cs
      else (if pending_space then '' '' else []) @ c # normalize_loop False cs)"
  by pat_completeness auto
termination
proof (relation "measure (\<lambda>(_, cs). length cs)")
  fix pending_space :: bool and c cs p out rest
  assume "p = copy_literal c cs" "(out, rest) = p"
  then show "((False, rest), (pending_space, c # cs)) \<in> measure (\<lambda>(_, cs). length cs)"
    using copy_literal_shorter [of c cs] by (metis case_prod_conv in_measure le_imp_less_Suc length_Cons snd_conv)
qed auto

definition normalize_sql :: "string \<Rightarrow> string" where
  "normalize_sql sql = normalize_loop False (dropWhile is_ascii_whitespace sql)"

subsection \<open>Column shapes\<close>

record column_metadata =
  name :: string
  ora_type_num :: byte
  csfrm :: byte
  precision :: int
  scale :: int
  buffer_size :: u32
  max_size :: u32
  nulls_allowed :: bool
  is_json :: bool
  is_oson :: bool
  object_schema :: "string option"
  object_type_name :: "string option"
  is_array :: bool
  vector_dimensions :: "u32 option"
  vector_format :: byte
  vector_flags :: byte
  domain_schema :: "string option"
  domain_name :: "string option"
  annotations :: "(string \<times> string) list option"

record column_shape_entry =
  se_name :: string
  se_ora_type_num :: byte
  se_csfrm :: byte
  se_precision :: int
  se_scale :: int
  se_max_size :: u32
  se_nulls_allowed :: bool
  se_vector_format :: byte
  se_vector_flags :: byte
  se_vector_dimensions :: "u32 option"

type_synonym column_shape = "column_shape_entry list"

definition from_column :: "column_metadata \<Rightarrow> column_shape_entry" where
  "from_column column =
     \<lparr>se_name = name column, se_ora_type_num = ora_type_num column, se_csfrm = csfrm column,
      se_precision = precision column, se_scale = scale column, se_max_size = max_size column,
      se_nulls_allowed = nulls_allowed column, se_vector_format = vector_format column,
      se_vector_flags = vector_flags column, se_vector_dimensions = vector_dimensions column\<rparr>"

definition from_columns :: "column_metadata list \<Rightarrow> column_shape" where
  "from_columns columns = map from_column columns"

subsection \<open>The cache\<close>

record shape_observation =
  obs_generation :: u64
  self_healed :: bool
  first_seen :: bool

definition requires_rebind :: "shape_observation \<Rightarrow> bool" where
  "requires_rebind observation = self_healed observation"

record cached_shape =
  cached_columns :: column_shape
  generation :: u64

type_synonym shape_cache = "string \<rightharpoonup> cached_shape"

definition new_shape_cache :: shape_cache where
  "new_shape_cache = Map.empty"

text \<open>The generation is a \<^verbatim>\<open>u64\<close> and its increment wraps.\<close>

definition observe :: "string \<Rightarrow> column_metadata list \<Rightarrow> shape_cache \<Rightarrow> shape_observation \<times> shape_cache" where
  "observe sql columns cache =
     (let shape = from_columns columns
      in if shape = [] then (\<lparr>obs_generation = 0, self_healed = False, first_seen = False\<rparr>, cache)
         else
           let key = normalize_sql sql
           in case cache key of
                None \<Rightarrow>
                  (\<lparr>obs_generation = 1, self_healed = False, first_seen = True\<rparr>,
                   cache(key \<mapsto> \<lparr>cached_columns = shape, generation = 1\<rparr>))
              | Some entry \<Rightarrow>
                  if cached_columns entry = shape then
                    (\<lparr>obs_generation = generation entry, self_healed = False, first_seen = False\<rparr>, cache)
                  else
                    let entry = entry\<lparr>cached_columns := shape, generation := generation entry + 1\<rparr>
                    in (\<lparr>obs_generation = generation entry, self_healed = True, first_seen = False\<rparr>,
                        cache(key \<mapsto> entry)))"

definition current :: "string \<Rightarrow> shape_cache \<Rightarrow> (u64 \<times> column_shape) option" where
  "current sql cache =
     map_option (\<lambda>entry. (generation entry, cached_columns entry)) (cache (normalize_sql sql))"

definition invalidate :: "string \<Rightarrow> shape_cache \<Rightarrow> bool \<times> shape_cache" where
  "invalidate sql cache =
     (let key = normalize_sql sql in (cache key \<noteq> None, cache(key := None)))"

subsection \<open>When two statements share a key\<close>

text \<open>
  A statement as pieces: literals and quoted names with their content, single characters outside them,
  and blanks. \<open>squeeze\<close> drops the blanks at both ends and merges runs of blanks.
\<close>

datatype piece = Literal string | Plain char | Blank

function pieces :: "string \<Rightarrow> piece list" where
  "pieces [] = []"
| "pieces (c # cs) =
     (if is_quote c then (let (out, rest) = copy_literal c cs in Literal (c # out) # pieces rest)
      else if is_ascii_whitespace c then Blank # pieces cs
      else Plain c # pieces cs)"
  by pat_completeness auto
termination
proof (relation "measure length")
  fix c cs p out rest
  assume "p = copy_literal c cs" "(out, rest) = p"
  then show "(rest, c # cs) \<in> measure length"
    using copy_literal_shorter [of c cs] by (metis in_measure le_imp_less_Suc length_Cons snd_conv)
qed auto

fun squeeze_from :: "bool \<Rightarrow> piece list \<Rightarrow> piece list" where
  "squeeze_from pending [] = []"
| "squeeze_from pending (Blank # ps) = squeeze_from True ps"
| "squeeze_from pending (p # ps) = (if pending then [Blank] else []) @ p # squeeze_from False ps"

definition squeeze :: "piece list \<Rightarrow> piece list" where
  "squeeze ps = squeeze_from False (dropWhile (\<lambda>p. p = Blank) ps)"

fun piece_text :: "piece \<Rightarrow> string" where
  "piece_text (Literal l) = l"
| "piece_text (Plain c) = [c]"
| "piece_text Blank = '' ''"

definition print_pieces :: "piece list \<Rightarrow> string" where
  "print_pieces ps = concat (map piece_text ps)"

lemma print_pieces_simps [simp]:
  "print_pieces [] = []" "print_pieces (p # ps) = piece_text p @ print_pieces ps"
  "print_pieces (ps @ qs) = print_pieces ps @ print_pieces qs"
  by (simp_all add: print_pieces_def)

lemma blank_not_quote: "is_ascii_whitespace c \<Longrightarrow> \<not> is_quote c"
  by (auto simp: is_ascii_whitespace_def is_quote_def)

lemma blank_char [simp]: "is_ascii_whitespace (CHR '' '')" "\<not> is_quote (CHR '' '')"
  by (simp_all add: is_ascii_whitespace_def is_quote_def)

lemma normalize_loop_pieces: "normalize_loop p cs = print_pieces (squeeze_from p (pieces cs))"
  by (induction p cs rule: normalize_loop.induct) (auto split: prod.splits)

lemma dropWhile_pieces: "pieces (dropWhile is_ascii_whitespace cs) = dropWhile (\<lambda>p. p = Blank) (pieces cs)"
  by (induction cs) (auto simp: blank_not_quote split: prod.splits)

lemma normalize_sql_pieces: "normalize_sql sql = print_pieces (squeeze (pieces sql))"
  by (simp add: normalize_sql_def normalize_loop_pieces dropWhile_pieces squeeze_def)

lemma copy_literal_again:
  "copy_literal q cs = (out, rest) \<Longrightarrow> (rest = [] \<longrightarrow> rest' = []) \<Longrightarrow> rest' = [] \<or> hd rest' \<noteq> q \<Longrightarrow>
   copy_literal q (out @ rest') = (out, rest')"
proof (induction q cs arbitrary: out rest rule: copy_literal.induct)
  case (3 q c d cs)
  then show ?case
    by (cases rest') (auto split: if_splits prod.splits elim!: copy_literal.elims)
qed auto

lemma copy_literal_stops: "copy_literal q cs = (out, rest) \<Longrightarrow> rest = [] \<or> hd rest \<noteq> q"
  by (induction q cs arbitrary: out rest rule: copy_literal.induct) (auto split: if_splits prod.splits)

lemma squeezed_blank: "squeeze_from True ps \<noteq> [] \<Longrightarrow> hd (print_pieces (squeeze_from True ps)) = CHR '' ''"
  by (induction True ps rule: squeeze_from.induct) auto

lemma squeezed_head:
  assumes "print_pieces (squeeze_from p (pieces cs)) \<noteq> []"
  shows "cs \<noteq> [] \<and> hd (print_pieces (squeeze_from p (pieces cs))) \<in> {hd cs, CHR '' ''}"
proof (cases cs)
  case (Cons c cs')
  show ?thesis
  proof (cases "is_ascii_whitespace c")
    case True
    then have "squeeze_from p (pieces cs) = squeeze_from True (pieces cs')" by (simp add: Cons blank_not_quote)
    moreover have "squeeze_from True (pieces cs') \<noteq> []" using assms calculation by auto
    ultimately show ?thesis using squeezed_blank Cons by simp
  next
    case False
    then show ?thesis by (auto simp: Cons split: prod.splits)
  qed
qed (use assms in simp)

lemma pieces_print:
  "pieces (print_pieces (squeeze_from p (pieces cs))) = squeeze_from p (pieces cs)"
proof (induction cs arbitrary: p rule: pieces.induct)
  case (2 c cs)
  show ?case
  proof (cases "is_quote c")
    case True
    obtain out rest where cl: "copy_literal c cs = (out, rest)" by (cases "copy_literal c cs")
    let ?r = "print_pieces (squeeze_from False (pieces rest))"
    have "?r = [] \<or> hd ?r \<noteq> c"
    proof (cases "?r = []")
      case False
      from squeezed_head [OF this] copy_literal_stops [OF cl] True show ?thesis
        by (auto simp: blank_not_quote)
    qed simp
    then have "copy_literal c (out @ ?r) = (out, ?r)"
      by (intro copy_literal_again [OF cl]) simp_all
    then show ?thesis using True 2(1) [OF True cl [symmetric] refl, of False] by (simp add: cl)
  next
    case False
    then show ?thesis using 2(2,3) by simp
  qed
qed simp

lemma squeeze_dropWhile: "squeeze (pieces cs) = squeeze_from False (pieces (dropWhile is_ascii_whitespace cs))"
  by (simp add: squeeze_def dropWhile_pieces)

lemma pieces_normalize: "pieces (normalize_sql sql) = squeeze (pieces sql)"
  by (simp add: normalize_sql_pieces squeeze_dropWhile pieces_print)

lemma squeeze_from_again: "(q \<longrightarrow> p) \<Longrightarrow> squeeze_from q (squeeze_from p ps) = squeeze_from p ps"
  by (induction p ps arbitrary: q rule: squeeze_from.induct) auto

lemma squeeze_again: "squeeze (squeeze ps) = squeeze ps"
proof -
  have "dropWhile (\<lambda>p. p = Blank) (squeeze ps) = squeeze ps"
  proof (cases "dropWhile (\<lambda>p. p = Blank) ps")
    case (Cons p qs)
    then have "p \<noteq> Blank" using hd_dropWhile [of "\<lambda>p. p = Blank" ps] by simp
    then show ?thesis by (cases p) (simp_all add: squeeze_def Cons)
  qed (simp add: squeeze_def del: dropWhile_eq_Nil_conv)
  then show ?thesis by (simp add: squeeze_def squeeze_from_again)
qed

subsection \<open>The cache as a function of what was observed\<close>

datatype cache_event = Observed string "column_metadata list" | Invalidated string

fun cache_step :: "cache_event \<Rightarrow> shape_cache \<Rightarrow> shape_cache" where
  "cache_step (Observed sql columns) cache = snd (observe sql columns cache)"
| "cache_step (Invalidated sql) cache = snd (invalidate sql cache)"

definition cache_after :: "cache_event list \<Rightarrow> shape_cache" where
  "cache_after events = fold cache_step events new_shape_cache"

text \<open>The shapes described for a key since its last invalidation, oldest first.\<close>

fun seen_step :: "string \<Rightarrow> cache_event \<Rightarrow> column_shape list \<Rightarrow> column_shape list" where
  "seen_step key (Observed sql columns) shapes =
     (if normalize_sql sql = key \<and> columns \<noteq> [] then shapes @ [from_columns columns] else shapes)"
| "seen_step key (Invalidated sql) shapes = (if normalize_sql sql = key then [] else shapes)"

definition seen :: "string \<Rightarrow> cache_event list \<Rightarrow> column_shape list" where
  "seen key events = fold (seen_step key) events []"

fun changes :: "'a list \<Rightarrow> nat" where
  "changes (x # y # xs) = (if x = y then 0 else 1) + changes (y # xs)"
| "changes xs = 0"

definition described :: "column_shape list \<Rightarrow> (u64 \<times> column_shape) option" where
  "described shapes = (if shapes = [] then None else Some (of_nat (Suc (changes shapes)), last shapes))"

lemma changes_snoc: "xs \<noteq> [] \<Longrightarrow> changes (xs @ [x]) = changes xs + (if last xs = x then 0 else 1)"
  by (induction xs rule: changes.induct) auto

lemma from_columns_Nil [simp]: "from_columns columns = [] \<longleftrightarrow> columns = []"
  by (simp add: from_columns_def)

definition entry_of :: "string \<Rightarrow> shape_cache \<Rightarrow> (u64 \<times> column_shape) option" where
  "entry_of key cache = map_option (\<lambda>e. (generation e, cached_columns e)) (cache key)"

lemma cache_step_refines:
  "entry_of key cache = described shapes \<Longrightarrow>
   entry_of key (cache_step event cache) = described (seen_step key event shapes)"
  by (cases event; cases "cache key")
     (auto simp: entry_of_def described_def observe_def invalidate_def Let_def changes_snoc
        split: option.splits if_splits)

interpretation shape_refines: simulation cache_step "seen_step key"
    "\<lambda>cache shapes. entry_of key cache = described shapes" for key
  by unfold_locales (rule cache_step_refines)

lemma cache_refines: "entry_of key (cache_after events) = described (seen key events)"
  unfolding cache_after_def seen_def
  by (rule shape_refines.run) (simp add: entry_of_def new_shape_cache_def described_def)

text \<open>
  C5. Statement-shape cache: after any sequence of observations and invalidations the cache holds, for
  each key, the shape described last and one plus the number of shape changes since the key was last
  invalidated; an observation reports exactly the first sight and the changes.
\<close>

theorem shape_cache_refines:
  "current sql (cache_after events) = described (seen (normalize_sql sql) events) \<and>
   fst (observe sql columns (cache_after events)) =
     (let shapes = seen (normalize_sql sql) events; shape = from_columns columns
      in if columns = [] then \<lparr>obs_generation = 0, self_healed = False, first_seen = False\<rparr>
         else \<lparr>obs_generation = of_nat (Suc (changes (shapes @ [shape]))),
               self_healed = (shapes \<noteq> [] \<and> last shapes \<noteq> shape), first_seen = (shapes = [])\<rparr>)"
proof
  let ?e = "cache_after events (normalize_sql sql)" and ?s = "seen (normalize_sql sql) events"
  have e: "map_option (\<lambda>e. (generation e, cached_columns e)) ?e = described ?s"
    using cache_refines [of "normalize_sql sql" events] by (simp add: entry_of_def)
  then show "current sql (cache_after events) = described ?s" by (simp add: current_def)
  show "fst (observe sql columns (cache_after events)) =
     (let shapes = ?s; shape = from_columns columns
      in if columns = [] then \<lparr>obs_generation = 0, self_healed = False, first_seen = False\<rparr>
         else \<lparr>obs_generation = of_nat (Suc (changes (shapes @ [shape]))),
               self_healed = (shapes \<noteq> [] \<and> last shapes \<noteq> shape), first_seen = (shapes = [])\<rparr>)"
    using e by (cases ?e) (auto simp: observe_def described_def Let_def changes_snoc split: if_splits)
qed

text \<open>
  Statement keys: two statements share a key exactly when they have the same literals, quoted names
  and other characters in the same order with blanks in the same places; normalising a key again
  changes nothing.
\<close>

theorem shape_keys_exact:
  "(normalize_sql a = normalize_sql b \<longleftrightarrow> squeeze (pieces a) = squeeze (pieces b)) \<and>
   normalize_sql (normalize_sql a) = normalize_sql a"
proof
  show "normalize_sql a = normalize_sql b \<longleftrightarrow> squeeze (pieces a) = squeeze (pieces b)"
    using pieces_normalize [of a] pieces_normalize [of b] normalize_sql_pieces [of a] normalize_sql_pieces [of b]
    by metis
  have "squeeze (squeeze (pieces a)) = squeeze (pieces a)"
    using pieces_normalize [of "normalize_sql a"] squeeze_again by (simp add: pieces_normalize)
  then show "normalize_sql (normalize_sql a) = normalize_sql a"
    by (simp add: normalize_sql_pieces pieces_normalize [unfolded normalize_sql_pieces])
qed

text \<open>
  A line comment ends at its newline, which the key replaces by a space: a statement whose select list
  continues after a comment shares its key with one whose tail is all comment.
\<close>

lemma comment_newline_lost:
  "normalize_sql (''select a --x'' @ [CHR 0x0A] @ '', b from t'') = normalize_sql ''select a --x , b from t''"
  by (simp add: normalize_sql_def is_ascii_whitespace_def is_quote_def)

text \<open>Invalidation restarts the generation of a key.\<close>

lemma generation_restarts:
  "columns \<noteq> [] \<Longrightarrow> obs_generation (fst (observe sql columns (snd (invalidate sql cache)))) = 1"
  by (simp add: observe_def invalidate_def Let_def)

end
