(* ===== verification/Cursor_Cache.thy ===== *)
theory Cursor_Cache
  imports Shape_Cache Protocol_Limits "HOL-Library.Multiset"
begin

text \<open>
  The client side of server cursors (\<^verbatim>\<open>crates/oracledb/src/lib.rs\<close>, \<^verbatim>\<open>impl Connection\<close>): the LRU
  statement cache with the bind type shape of each open cursor, the sets of cursors in use and of copies,
  the queue of cursors to close, the retained fetch metadata, and the part of an execute that chooses,
  stores and retires cursors. The server is the set of cursors it has open; its replies are inputs.
\<close>

subsection \<open>Bind type shapes\<close>

definition ORA_TYPE_NUM_VARCHAR :: byte where "ORA_TYPE_NUM_VARCHAR = 1"
definition ORA_TYPE_NUM_LONG :: byte where "ORA_TYPE_NUM_LONG = 8"
definition ORA_TYPE_NUM_RAW :: byte where "ORA_TYPE_NUM_RAW = 23"
definition ORA_TYPE_NUM_LONG_RAW :: byte where "ORA_TYPE_NUM_LONG_RAW = 24"
definition ORA_TYPE_NUM_CHAR :: byte where "ORA_TYPE_NUM_CHAR = 96"
definition ORA_TYPE_NUM_CLOB :: byte where "ORA_TYPE_NUM_CLOB = 112"
definition ORA_TYPE_NUM_BLOB :: byte where "ORA_TYPE_NUM_BLOB = 113"
definition ORA_TYPE_NUM_VECTOR :: byte where "ORA_TYPE_NUM_VECTOR = 127"
definition CS_FORM_IMPLICIT :: byte where "CS_FORM_IMPLICIT = 1"
definition TNS_MAX_LONG_LENGTH :: u32 where "TNS_MAX_LONG_LENGTH = 0x7fffffff"

lemmas ora_type_defs = ORA_TYPE_NUM_VARCHAR_def ORA_TYPE_NUM_LONG_def ORA_TYPE_NUM_RAW_def
  ORA_TYPE_NUM_LONG_RAW_def ORA_TYPE_NUM_CHAR_def ORA_TYPE_NUM_CLOB_def ORA_TYPE_NUM_BLOB_def
  ORA_TYPE_NUM_VECTOR_def

record bind_shape_slot =
  family :: byte
  slot_csfrm :: byte
  untyped_null :: bool

definition bind_type_family :: "byte \<Rightarrow> byte" where
  "bind_type_family ora_type =
     (if ora_type = ORA_TYPE_NUM_CHAR \<or> ora_type = ORA_TYPE_NUM_LONG then ORA_TYPE_NUM_VARCHAR
      else if ora_type = ORA_TYPE_NUM_LONG_RAW then ORA_TYPE_NUM_RAW
      else ora_type)"

text \<open>
  The type and character-set form of a bind value come from \<open>type_info\<close>, which is \<open>None\<close> for an untyped
  null.
\<close>

fun first_typed :: "('v \<Rightarrow> (byte \<times> byte) option) \<Rightarrow> nat \<Rightarrow> 'v list list \<Rightarrow> (byte \<times> byte) option" where
  "first_typed type_info i [] = None"
| "first_typed type_info i (row # rows) =
     (case (if i < length row then type_info (row ! i) else None) of
        Some info \<Rightarrow> Some info
      | None \<Rightarrow> first_typed type_info i rows)"

definition bind_type_shape :: "('v \<Rightarrow> (byte \<times> byte) option) \<Rightarrow> 'v list list \<Rightarrow> bind_shape_slot list" where
  "bind_type_shape type_info bind_rows =
     (case bind_rows of
        [] \<Rightarrow> []
      | first_row # _ \<Rightarrow>
          map (\<lambda>i. case first_typed type_info i bind_rows of
                     Some (ora_type, csf) \<Rightarrow>
                       \<lparr>family = bind_type_family ora_type, slot_csfrm = csf, untyped_null = False\<rparr>
                   | None \<Rightarrow>
                       \<lparr>family = ORA_TYPE_NUM_VARCHAR, slot_csfrm = CS_FORM_IMPLICIT, untyped_null = True\<rparr>)
              [0..<length first_row])"

definition bind_shape_is_compatible :: "bind_shape_slot list \<Rightarrow> bind_shape_slot list \<Rightarrow> bool" where
  "bind_shape_is_compatible cached new \<longleftrightarrow>
     length cached = length new \<and>
     list_all (\<lambda>(c, n). untyped_null n \<or> family c = family n \<and> slot_csfrm c = slot_csfrm n) (zip cached new)"

subsection \<open>The statement cache\<close>

record cached_statement =
  st_sql :: string
  st_cursor :: nat
  st_shape :: "bind_shape_slot list"

text \<open>\<^verbatim>\<open>Vec::remove\<close> at an index the code has just found.\<close>

definition vec_remove :: "nat \<Rightarrow> 'a list \<Rightarrow> 'a list" where
  "vec_remove i xs = take i xs @ drop (Suc i) xs"

fun evict :: "nat \<Rightarrow> cached_statement list \<Rightarrow> nat list \<times> cached_statement list" where
  "evict capacity [] = ([], [])"
| "evict capacity (e # cache) =
     (if length (e # cache) > capacity then
        let (to_close, cache') = evict capacity cache
        in ((if st_cursor e \<noteq> 0 then [st_cursor e] else []) @ to_close, cache')
      else ([], e # cache))"

definition inherit_slots :: "bind_shape_slot list \<Rightarrow> bind_shape_slot list \<Rightarrow> bind_shape_slot list" where
  "inherit_slots old new = map (\<lambda>(slot, old_slot). if untyped_null slot then old_slot else slot) (zip new old)"

definition statement_cache_insert ::
  "cached_statement list \<Rightarrow> nat \<Rightarrow> string \<Rightarrow> nat \<Rightarrow> bind_shape_slot list \<Rightarrow> nat list \<times> cached_statement list" where
  "statement_cache_insert cache capacity sql cursor_id bind_shape =
     (if cursor_id = 0 then ([], cache)
      else
        let (to_close, cache, bind_shape) =
              (case position (\<lambda>e. st_sql e = sql) cache of
                 None \<Rightarrow> ([], cache, bind_shape)
               | Some i \<Rightarrow>
                   let old = cache ! i; cache = vec_remove i cache
                   in if st_cursor old \<noteq> 0 \<and> st_cursor old \<noteq> cursor_id then ([st_cursor old], cache, bind_shape)
                      else if st_cursor old = cursor_id \<and> length (st_shape old) = length bind_shape
                      then ([], cache, inherit_slots (st_shape old) bind_shape)
                      else ([], cache, bind_shape));
            (evicted, cache) =
              evict capacity (cache @ [\<lparr>st_sql = sql, st_cursor = cursor_id, st_shape = bind_shape\<rparr>])
        in (to_close @ evicted, cache))"

record conn_cursors =
  statement_cache :: "cached_statement list"
  statement_cache_size :: nat
  in_use_cursors :: "nat set"
  lob_prefetch_cursors :: "nat set"
  copied_cursors :: "nat set"
  cursors_to_close :: "nat list"
  cursor_columns :: "nat \<rightharpoonup> column_metadata list"
  fetch_metadata_by_sql :: "string \<rightharpoonup> column_metadata list"
  fetch_metadata_order :: "string list"

definition new_cursors :: "nat \<Rightarrow> conn_cursors" where
  "new_cursors capacity =
     \<lparr>statement_cache = [], statement_cache_size = capacity, in_use_cursors = {}, lob_prefetch_cursors = {},
      copied_cursors = {}, cursors_to_close = [], cursor_columns = Map.empty,
      fetch_metadata_by_sql = Map.empty, fetch_metadata_order = []\<rparr>"

definition close_cursor :: "nat \<Rightarrow> conn_cursors \<Rightarrow> conn_cursors" where
  "close_cursor cursor_id c =
     (if cursor_id = 0 then c
      else
        let c = c\<lparr>statement_cache := filter (\<lambda>e. st_cursor e \<noteq> cursor_id) (statement_cache c),
                  in_use_cursors := in_use_cursors c - {cursor_id},
                  copied_cursors := copied_cursors c - {cursor_id},
                  cursor_columns := (cursor_columns c)(cursor_id := None),
                  lob_prefetch_cursors := lob_prefetch_cursors c - {cursor_id}\<rparr>
        in if cursor_id \<in> set (cursors_to_close c) then c
           else c\<lparr>cursors_to_close := cursors_to_close c @ [cursor_id]\<rparr>)"

definition release_cursor :: "nat \<Rightarrow> conn_cursors \<Rightarrow> conn_cursors" where
  "release_cursor cursor_id c =
     (if cursor_id = 0 then c
      else
        let c = c\<lparr>in_use_cursors := in_use_cursors c - {cursor_id}\<rparr>
        in if cursor_id \<in> copied_cursors c then
             c\<lparr>copied_cursors := copied_cursors c - {cursor_id},
               cursors_to_close := cursors_to_close c @ [cursor_id],
               cursor_columns := (cursor_columns c)(cursor_id := None),
               lob_prefetch_cursors := lob_prefetch_cursors c - {cursor_id}\<rparr>
           else c)"

definition statement_cache_invalidate :: "string \<Rightarrow> nat \<Rightarrow> conn_cursors \<Rightarrow> conn_cursors" where
  "statement_cache_invalidate sql cursor_id c =
     close_cursor cursor_id
       (case position (\<lambda>e. st_sql e = sql) (statement_cache c) of
          None \<Rightarrow> c
        | Some i \<Rightarrow> c\<lparr>statement_cache := vec_remove i (statement_cache c)\<rparr>)"

definition statement_is_in_use :: "string \<Rightarrow> conn_cursors \<Rightarrow> bool" where
  "statement_is_in_use sql c =
     (case position (\<lambda>e. st_sql e = sql) (statement_cache c) of
        None \<Rightarrow> False
      | Some i \<Rightarrow> let e = statement_cache c ! i in st_cursor e \<noteq> 0 \<and> st_cursor e \<in> in_use_cursors c)"

definition statement_cache_get ::
  "string \<Rightarrow> bind_shape_slot list \<Rightarrow> conn_cursors \<Rightarrow> nat option \<times> conn_cursors" where
  "statement_cache_get sql bind_shape c =
     (case position (\<lambda>e. st_sql e = sql) (statement_cache c) of
        None \<Rightarrow> (None, c)
      | Some i \<Rightarrow>
          let entry = statement_cache c ! i; cursor_id = st_cursor entry
          in if cursor_id \<noteq> 0 \<and> cursor_id \<in> in_use_cursors c then (None, c)
             else if \<not> bind_shape_is_compatible (st_shape entry) bind_shape
             then (None, statement_cache_invalidate sql cursor_id c)
             else (Some cursor_id, c\<lparr>statement_cache := vec_remove i (statement_cache c) @ [entry]\<rparr>))"

definition statement_cache_take ::
  "string \<Rightarrow> bind_shape_slot list \<Rightarrow> conn_cursors \<Rightarrow> nat option \<times> conn_cursors" where
  "statement_cache_take sql bind_shape c =
     (case position (\<lambda>e. st_sql e = sql) (statement_cache c) of
        None \<Rightarrow> (None, c)
      | Some i \<Rightarrow>
          let entry = statement_cache c ! i
          in if \<not> bind_shape_is_compatible (st_shape entry) bind_shape
             then (None, statement_cache_invalidate sql (st_cursor entry) c)
             else (Some (st_cursor entry), c\<lparr>statement_cache := vec_remove i (statement_cache c)\<rparr>))"

definition statement_cache_put :: "string \<Rightarrow> nat \<Rightarrow> bind_shape_slot list \<Rightarrow> conn_cursors \<Rightarrow> conn_cursors" where
  "statement_cache_put sql cursor_id bind_shape c =
     (let (to_close, cache) =
            statement_cache_insert (statement_cache c) (statement_cache_size c) sql cursor_id bind_shape
      in c\<lparr>statement_cache := cache,
           lob_prefetch_cursors := lob_prefetch_cursors c - set to_close,
           cursor_columns := (\<lambda>i. if i \<in> set to_close then None else cursor_columns c i),
           cursors_to_close := cursors_to_close c @ to_close\<rparr>)"

fun invalidate_bound_ref_cursors :: "nat list \<Rightarrow> conn_cursors \<Rightarrow> conn_cursors" where
  "invalidate_bound_ref_cursors [] c = c"
| "invalidate_bound_ref_cursors (cursor_id # bound) c =
     invalidate_bound_ref_cursors bound
       (if cursor_id = 0 then c
        else c\<lparr>statement_cache := filter (\<lambda>e. st_cursor e \<noteq> cursor_id) (statement_cache c),
               cursor_columns := (cursor_columns c)(cursor_id := None),
               lob_prefetch_cursors := lob_prefetch_cursors c - {cursor_id}\<rparr>)"

definition take_close_cursors :: "conn_cursors \<Rightarrow> nat list \<times> conn_cursors" where
  "take_close_cursors c = (cursors_to_close c, c\<lparr>cursors_to_close := []\<rparr>)"

subsection \<open>Retained metadata\<close>

record query_result =
  res_cursor_id :: nat
  res_columns :: "column_metadata list"
  res_has_rows :: bool

definition remember_cursor_columns :: "query_result \<Rightarrow> conn_cursors \<Rightarrow> conn_cursors" where
  "remember_cursor_columns result c =
     (if res_cursor_id result \<noteq> 0 \<and> res_columns result \<noteq> [] then
        if cursor_columns c (res_cursor_id result) = Some (res_columns result) then c
        else c\<lparr>cursor_columns := (cursor_columns c)(res_cursor_id result \<mapsto> res_columns result)\<rparr>
      else c)"

definition FETCH_METADATA_RETENTION_CAP :: nat where "FETCH_METADATA_RETENTION_CAP = 100"

definition remember_fetch_metadata :: "string \<Rightarrow> column_metadata list \<Rightarrow> conn_cursors \<Rightarrow> conn_cursors" where
  "remember_fetch_metadata sql columns c =
     (let c = (if fetch_metadata_by_sql c sql = None then
                 let c = (if length (fetch_metadata_order c) \<ge> FETCH_METADATA_RETENTION_CAP then
                            case fetch_metadata_order c of
                              oldest # order \<Rightarrow>
                                c\<lparr>fetch_metadata_order := order,
                                  fetch_metadata_by_sql := (fetch_metadata_by_sql c)(oldest := None)\<rparr>
                            | [] \<Rightarrow> c
                          else c)
                 in c\<lparr>fetch_metadata_order := fetch_metadata_order c @ [sql]\<rparr>
               else c)
      in c\<lparr>fetch_metadata_by_sql := (fetch_metadata_by_sql c)(sql \<mapsto> columns)\<rparr>)"

definition forget_fetch_metadata :: "string \<Rightarrow> conn_cursors \<Rightarrow> conn_cursors" where
  "forget_fetch_metadata sql c =
     (if fetch_metadata_by_sql c sql \<noteq> None then
        c\<lparr>fetch_metadata_by_sql := (fetch_metadata_by_sql c)(sql := None),
          fetch_metadata_order := filter (\<lambda>entry. entry \<noteq> sql) (fetch_metadata_order c)\<rparr>
      else c)"

definition columns_have_lob_prefetch_fields :: "column_metadata list \<Rightarrow> bool" where
  "columns_have_lob_prefetch_fields columns \<longleftrightarrow>
     list_ex (\<lambda>column. ora_type_num column = ORA_TYPE_NUM_CLOB \<or> ora_type_num column = ORA_TYPE_NUM_BLOB) columns"

definition adjust_refetch_metadata :: "column_metadata \<Rightarrow> column_metadata \<Rightarrow> bool \<times> column_metadata" where
  "adjust_refetch_metadata previous column =
     (if ora_type_num column = ORA_TYPE_NUM_CLOB \<and>
         (ora_type_num previous = ORA_TYPE_NUM_CHAR \<or> ora_type_num previous = ORA_TYPE_NUM_LONG \<or>
          ora_type_num previous = ORA_TYPE_NUM_VARCHAR)
      then (True, column\<lparr>ora_type_num := ORA_TYPE_NUM_LONG, csfrm := csfrm previous,
                         buffer_size := TNS_MAX_LONG_LENGTH, max_size := 0\<rparr>)
      else if ora_type_num column = ORA_TYPE_NUM_BLOB \<and>
              (ora_type_num previous = ORA_TYPE_NUM_RAW \<or> ora_type_num previous = ORA_TYPE_NUM_LONG_RAW)
      then (True, column\<lparr>ora_type_num := ORA_TYPE_NUM_LONG_RAW, csfrm := 0,
                         buffer_size := TNS_MAX_LONG_LENGTH, max_size := 0\<rparr>)
      else (False, column))"

fun adjust_columns :: "column_metadata list \<Rightarrow> column_metadata list \<Rightarrow> bool \<times> column_metadata list" where
  "adjust_columns (previous # ps) (column # cs) =
     (let (a, column') = adjust_refetch_metadata previous column; (b, cs') = adjust_columns ps cs
      in (a \<or> b, column' # cs'))"
| "adjust_columns ps cs = (False, cs)"

text \<open>The bookkeeping of a successful define-and-fetch of \<open>cursor_id\<close> with \<open>define_columns\<close>.\<close>

definition define_fetched :: "nat \<Rightarrow> column_metadata list \<Rightarrow> query_result \<Rightarrow> conn_cursors \<Rightarrow> conn_cursors" where
  "define_fetched cursor_id define_columns result c =
     (let ids = insert cursor_id (if res_cursor_id result \<noteq> 0 then {res_cursor_id result} else {});
          c = c\<lparr>lob_prefetch_cursors :=
                  (if columns_have_lob_prefetch_fields define_columns then lob_prefetch_cursors c \<union> ids
                   else lob_prefetch_cursors c - ids)\<rparr>;
          c = c\<lparr>cursor_columns := (cursor_columns c)(cursor_id \<mapsto> define_columns)\<rparr>
      in remember_cursor_columns result c)"

text \<open>
  The refetch rule after an execute; \<open>redefine\<close> is the outcome of the define-and-fetch round trip.
\<close>

definition apply_refetch_metadata ::
  "(nat \<Rightarrow> column_metadata list \<Rightarrow> query_result res) \<Rightarrow> string \<Rightarrow> query_result \<Rightarrow> shape_cache \<Rightarrow> conn_cursors \<Rightarrow>
   query_result res \<times> shape_cache \<times> conn_cursors" where
  "apply_refetch_metadata redefine sql result shapes c =
     (if res_columns result = [] then (Inr result, shapes, c)
      else
        let (observation, shapes) = observe sql (res_columns result) shapes;
            c = (if self_healed observation then forget_fetch_metadata sql c else c);
            (any_adjusted, adjusted) =
              (case fetch_metadata_by_sql c sql of
                 Some previous_columns \<Rightarrow> adjust_columns previous_columns (res_columns result)
               | None \<Rightarrow> (False, res_columns result));
            cursor_id = res_cursor_id result
        in if any_adjusted \<and> cursor_id \<noteq> 0 then
             case redefine cursor_id adjusted of
               Inl e \<Rightarrow> (Inl e, shapes, close_cursor cursor_id c)
             | Inr redefined \<Rightarrow>
                 let c = define_fetched cursor_id adjusted redefined c;
                     redefined = redefined\<lparr>res_columns := (if res_columns redefined = [] then adjusted
                                                           else res_columns redefined),
                                           res_cursor_id := (if res_cursor_id redefined = 0 then cursor_id
                                                             else res_cursor_id redefined)\<rparr>
                 in (Inr redefined, shapes, remember_fetch_metadata sql (res_columns redefined) c)
           else (Inr result, shapes, remember_fetch_metadata sql (res_columns result) c))"

subsection \<open>One execute\<close>

text \<open>
  An execute as the cursor bookkeeping sees it: the statement, whether it may use the cache, whether it
  only parses, whether it is a query, the cursor the caller names (0 for none), its bind shape, the
  numbers of bind rows and binds, and the cursors bound as IN REF CURSOR.
\<close>

record exec_request =
  rq_sql :: string
  rq_cache :: bool
  rq_parse_only :: bool
  rq_query :: bool
  rq_cursor :: nat
  rq_shape :: "bind_shape_slot list"
  rq_rows :: nat
  rq_binds :: nat
  rq_bound :: "nat list"

definition use_cache :: "exec_request \<Rightarrow> bool" where
  "use_cache rq \<longleftrightarrow> rq_cache rq \<and> \<not> rq_parse_only rq"

text \<open>The cursor an execute reuses (0 for a fresh parse) and whether it is a copy.\<close>

definition execute_select :: "exec_request \<Rightarrow> conn_cursors \<Rightarrow> nat \<times> bool \<times> conn_cursors" where
  "execute_select rq c =
     (if rq_cursor rq \<noteq> 0 \<or> rq_parse_only rq then (rq_cursor rq, False, c)
      else if use_cache rq then
        if statement_is_in_use (rq_sql rq) c then (0, True, c)
        else case statement_cache_get (rq_sql rq) (rq_shape rq) c of
               (Some cursor_id, c) \<Rightarrow> (cursor_id, False, c)
             | (None, c) \<Rightarrow> (0, False, c)
      else case statement_cache_take (rq_sql rq) (rq_shape rq) c of
             (Some cursor_id, c) \<Rightarrow> (cursor_id, False, c)
           | (None, c) \<Rightarrow> (0, False, c))"

record exec_plan =
  plan_cursor :: nat
  plan_copy :: bool
  plan_no_prefetch :: bool
  plan_closes :: "nat list"

definition execute_plan :: "protocol_limits \<Rightarrow> exec_request \<Rightarrow> conn_cursors \<Rightarrow> exec_plan res \<times> conn_cursors" where
  "execute_plan limits rq c =
     (let (cursor_id, is_copy, c) = execute_select rq c;
          no_prefetch = (cursor_id \<noteq> 0 \<and> rq_query rq \<and>
            (case cursor_columns c cursor_id of
               Some columns \<Rightarrow> list_ex (\<lambda>column. ora_type_num column = ORA_TYPE_NUM_VECTOR) columns
             | None \<Rightarrow> False));
          (closes, c) = take_close_cursors c
      in case ebind (check_batch_rows limits (rq_rows rq)) (\<lambda>_.
                if rq_rows rq = 0 then Inr () else check_binds limits (rq_binds rq)) of
           Inl e \<Rightarrow> (Inl e, c)
         | Inr _ \<Rightarrow> (Inr \<lparr>plan_cursor = cursor_id, plan_copy = is_copy, plan_no_prefetch = no_prefetch,
                           plan_closes = closes\<rparr>, c))"

definition execute_ok ::
  "(nat \<Rightarrow> column_metadata list \<Rightarrow> query_result res) \<Rightarrow> exec_request \<Rightarrow> exec_plan \<Rightarrow> query_result \<Rightarrow>
   shape_cache \<Rightarrow> conn_cursors \<Rightarrow> query_result res \<times> shape_cache \<times> conn_cursors" where
  "execute_ok redefine rq plan result shapes c =
     (let cursor_id = res_cursor_id result;
          c = (if cursor_id \<noteq> 0 \<and> res_has_rows result \<and> columns_have_lob_prefetch_fields (res_columns result)
               then c\<lparr>lob_prefetch_cursors := insert cursor_id (lob_prefetch_cursors c)\<rparr> else c);
          c = (if plan_copy plan then
                 if cursor_id \<noteq> 0 then c\<lparr>copied_cursors := insert cursor_id (copied_cursors c)\<rparr> else c
               else if use_cache rq then statement_cache_put (rq_sql rq) cursor_id (rq_shape rq) c
               else c);
          c = (if cursor_id \<noteq> 0 \<and> rq_query rq \<and> \<not> rq_parse_only rq
               then c\<lparr>in_use_cursors := insert cursor_id (in_use_cursors c)\<rparr> else c);
          c = invalidate_bound_ref_cursors (rq_bound rq) c;
          c = remember_cursor_columns result c
      in if rq_parse_only rq then (Inr result, shapes, c)
         else apply_refetch_metadata redefine (rq_sql rq) result shapes c)"

text \<open>
  A server error: \<open>error_cursor\<close> is the cursor id of the error trailer, which \<^verbatim>\<open>note_parse\<close> retires.
\<close>

definition execute_failed :: "exec_request \<Rightarrow> exec_plan \<Rightarrow> nat \<Rightarrow> conn_cursors \<Rightarrow> conn_cursors" where
  "execute_failed rq plan error_cursor c =
     (let c = close_cursor error_cursor c
      in if use_cache rq then statement_cache_invalidate (rq_sql rq) (plan_cursor plan) c else c)"

subsection \<open>Sessions\<close>

text \<open>
  A connection together with the cursors the server has open and the shared shape cache. The server
  closes the cursors a request names, executes an open cursor under its own id, and gives a fresh parse
  an id that is not open (or none). Callers leave the choice of cursor to the driver. A called PL/SQL block may close cursors that were bound to it and
  that are not copies; a block that raised an error has closed none.
\<close>

record session =
  conn :: conn_cursors
  srv :: "nat set"
  shared :: shape_cache

definition opened :: "nat \<Rightarrow> nat set \<Rightarrow> nat set" where
  "opened cursor_id ids = (if cursor_id = 0 then ids else insert cursor_id ids)"

inductive session_step :: "protocol_limits \<Rightarrow> session \<Rightarrow> session \<Rightarrow> bool" for limits where
  exec_refused:
  "rq_cursor rq = 0 \<Longrightarrow> execute_plan limits rq (conn s) = (Inl e, c) \<Longrightarrow> session_step limits s (s\<lparr>conn := c\<rparr>)"
| exec_reused:
  "rq_cursor rq = 0 \<Longrightarrow> execute_plan limits rq (conn s) = (Inr plan, c) \<Longrightarrow> plan_cursor plan \<noteq> 0 \<Longrightarrow>
   plan_cursor plan \<in> srv s - set (plan_closes plan) \<Longrightarrow> res_cursor_id result = plan_cursor plan \<Longrightarrow>
   gone \<subseteq> set (rq_bound rq) - copied_cursors c \<Longrightarrow>
   execute_ok redefine rq plan result (shared s) c = (r, shapes, c') \<Longrightarrow>
   session_step limits s (s\<lparr>conn := c', srv := srv s - set (plan_closes plan) - gone, shared := shapes\<rparr>)"
| exec_parsed:
  "rq_cursor rq = 0 \<Longrightarrow> execute_plan limits rq (conn s) = (Inr plan, c) \<Longrightarrow> plan_cursor plan = 0 \<Longrightarrow>
   res_cursor_id result \<notin> srv s - set (plan_closes plan) \<Longrightarrow>
   gone \<subseteq> set (rq_bound rq) - opened (res_cursor_id result) (copied_cursors c) \<Longrightarrow>
   execute_ok redefine rq plan result (shared s) c = (r, shapes, c') \<Longrightarrow>
   session_step limits s
     (s\<lparr>conn := c', srv := opened (res_cursor_id result) (srv s - set (plan_closes plan)) - gone, shared := shapes\<rparr>)"
| exec_failed:
  "rq_cursor rq = 0 \<Longrightarrow> execute_plan limits rq (conn s) = (Inr plan, c) \<Longrightarrow>
   error_cursor = 0 \<or> error_cursor = plan_cursor plan \<or> error_cursor \<notin> srv s - set (plan_closes plan) \<Longrightarrow>
   session_step limits s
     (s\<lparr>conn := execute_failed rq plan error_cursor c,
        srv := opened error_cursor (srv s - set (plan_closes plan))\<rparr>)"
| released: "session_step limits s (s\<lparr>conn := release_cursor cursor_id (conn s)\<rparr>)"
| closed: "session_step limits s (s\<lparr>conn := close_cursor cursor_id (conn s)\<rparr>)"
| flushed:
  "take_close_cursors (conn s) = (closes, c) \<Longrightarrow>
   session_step limits s (s\<lparr>conn := c, srv := srv s - set closes\<rparr>)"
| shape_seen_elsewhere: "session_step limits s (s\<lparr>shared := cache_step event (shared s)\<rparr>)"

definition session_init :: "nat \<Rightarrow> session \<Rightarrow> bool" where
  "session_init capacity s \<longleftrightarrow> conn s = new_cursors capacity \<and> srv s = {} \<and> shared s = new_shape_cache"

definition cached_ids :: "conn_cursors \<Rightarrow> nat list" where
  "cached_ids c = map st_cursor (statement_cache c)"

definition cursors_ok :: "nat set \<Rightarrow> conn_cursors \<Rightarrow> bool" where
  "cursors_ok live c \<longleftrightarrow>
     distinct (map st_sql (statement_cache c)) \<and> distinct (cached_ids c) \<and> 0 \<notin> set (cached_ids c) \<and>
     length (statement_cache c) \<le> statement_cache_size c \<and>
     set (cached_ids c) \<subseteq> live \<and> copied_cursors c \<subseteq> live \<and>
     set (cached_ids c) \<inter> set (cursors_to_close c) = {} \<and>
     set (cached_ids c) \<inter> copied_cursors c = {} \<and> copied_cursors c \<inter> set (cursors_to_close c) = {}"

subsection \<open>Operations on the cache keep the invariant\<close>

lemma cursors_okD:
  assumes "cursors_ok live c"
  shows "0 \<notin> set (cached_ids c)" "set (cached_ids c) \<subseteq> live" "copied_cursors c \<subseteq> live"
    "set (cached_ids c) \<inter> set (cursors_to_close c) = {}" "set (cached_ids c) \<inter> copied_cursors c = {}"
    "copied_cursors c \<inter> set (cursors_to_close c) = {}" "distinct (map st_sql (statement_cache c))"
    "distinct (cached_ids c)" "length (statement_cache c) \<le> statement_cache_size c"
  using assms by (simp_all add: cursors_ok_def)

lemma distinct_map_submset:
  assumes "mset ys \<subseteq># mset xs" "distinct (map f xs)"
  shows "distinct (map f ys)"
proof -
  have "mset (map f ys) \<subseteq># mset (map f xs)" using assms(1) by (simp add: image_mset_subseteq_mono)
  then have "count (mset (map f ys)) a \<le> count (mset (map f xs)) a" for a by (rule mset_subset_eq_count)
  moreover have "count (mset (map f xs)) a \<le> 1" for a using assms(2) by (simp add: distinct_count_atmost_1)
  ultimately have "count (mset (map f ys)) a \<le> 1" for a by (meson le_trans)
  then show ?thesis unfolding distinct_count_atmost_1
    by (metis count_greater_zero_iff count_mset_0_iff le_neq_implies_less less_one set_mset_mset)
qed

lemma mset_vec_remove: "i < length xs \<Longrightarrow> add_mset (xs ! i) (mset (vec_remove i xs)) = mset xs"
  using arg_cong [OF id_take_nth_drop [of i xs], of mset] by (simp add: vec_remove_def)

lemma vec_remove_submset: "mset (vec_remove i xs) \<subseteq># mset xs"
proof -
  have "mset (drop (Suc i) xs) \<subseteq># mset (drop i xs)"
    by (cases "i < length xs") (simp_all flip: Cons_nth_drop_Suc)
  then have "mset (take i xs) + mset (drop (Suc i) xs) \<subseteq># mset (take i xs) + mset (drop i xs)"
    by (rule subset_mset.add_left_mono)
  also have "\<dots> = mset xs" by (simp flip: mset_append)
  finally show ?thesis by (simp add: vec_remove_def)
qed

lemma cache_shrink_ok:
  assumes "cursors_ok live c" "mset cache \<subseteq># mset (statement_cache c)"
  shows "cursors_ok live (c\<lparr>statement_cache := cache\<rparr>)"
proof -
  have sub: "set cache \<subseteq> set (statement_cache c)" using assms(2) by (metis set_mset_mono set_mset_mset)
  have "length cache \<le> length (statement_cache c)" using size_mset_mono [OF assms(2)] by simp
  moreover have "distinct (map st_sql cache)" "distinct (map st_cursor cache)"
    using assms by (auto simp: cursors_ok_def cached_ids_def intro: distinct_map_submset)
  moreover define New where "New = set (map st_cursor cache)"
  moreover have "New \<subseteq> set (cached_ids c)" using sub by (auto simp: New_def cached_ids_def)
  then have "0 \<notin> New" "New \<subseteq> live" "New \<inter> set (cursors_to_close c) = {}" "New \<inter> copied_cursors c = {}"
    using cursors_okD(1,2,4,5) [OF assms(1)] by blast+
  ultimately show ?thesis using assms(1) by (simp add: cursors_ok_def cached_ids_def)
qed

lemma cursors_ok_cong:
  assumes "statement_cache c' = statement_cache c" "statement_cache_size c' = statement_cache_size c"
    and "copied_cursors c' \<subseteq> copied_cursors c" "set (cursors_to_close c') \<subseteq> set (cursors_to_close c) \<union> fresh"
    and "set (cached_ids c) \<inter> fresh = {}" "copied_cursors c' \<inter> fresh = {}" "cursors_ok live c"
  shows "cursors_ok live c'"
proof -
  have ids: "cached_ids c' = cached_ids c" using assms(1) by (simp add: cached_ids_def)
  have "set (cached_ids c) \<inter> set (cursors_to_close c') = {}" "copied_cursors c' \<inter> set (cursors_to_close c') = {}"
      "set (cached_ids c) \<inter> copied_cursors c' = {}" "copied_cursors c' \<subseteq> live"
    using assms(3-6) cursors_okD(3-6) [OF assms(7)] by blast+
  then show ?thesis using assms(7) unfolding cursors_ok_def ids assms(1,2) by simp
qed

lemma close_cursor_ok:
  assumes "cursors_ok live c"
  shows "cursors_ok live (close_cursor i c)"
proof -
  let ?c = "c\<lparr>statement_cache := filter (\<lambda>e. st_cursor e \<noteq> i) (statement_cache c)\<rparr>"
  have ok: "cursors_ok live ?c" by (rule cache_shrink_ok [OF assms]) (simp add: multiset_filter_subset)
  have i: "set (cached_ids ?c) \<inter> {i} = {}" by (auto simp: cached_ids_def)
  show ?thesis
  proof (cases "i = 0")
    case False
    then show ?thesis
      by (intro cursors_ok_cong [OF _ _ _ _ i _ ok]) (auto simp: close_cursor_def Let_def)
  qed (use assms in \<open>simp add: close_cursor_def\<close>)
qed

lemma release_cursor_ok:
  assumes "cursors_ok live c"
  shows "cursors_ok live (release_cursor i c)"
proof (cases "i \<noteq> 0 \<and> i \<in> copied_cursors c")
  case True
  then have "set (cached_ids c) \<inter> {i} = {}" using assms by (auto simp: cursors_ok_def)
  from cursors_ok_cong [OF _ _ _ _ this _ assms] True show ?thesis
    by (auto simp: release_cursor_def Let_def)
next
  case False
  then show ?thesis
    by (intro cursors_ok_cong [where fresh = "{}", OF _ _ _ _ _ _ assms]) (auto simp: release_cursor_def Let_def)
qed

lemma statement_cache_invalidate_ok:
  assumes "cursors_ok live c"
  shows "cursors_ok live (statement_cache_invalidate sql i c)"
proof -
  have "cursors_ok live (case position (\<lambda>e. st_sql e = sql) (statement_cache c) of
      None \<Rightarrow> c | Some i \<Rightarrow> c\<lparr>statement_cache := vec_remove i (statement_cache c)\<rparr>)"
    using assms by (simp add: cache_shrink_ok vec_remove_submset split: option.splits)
  then show ?thesis unfolding statement_cache_invalidate_def by (rule close_cursor_ok)
qed

lemma invalidate_copied: "copied_cursors (statement_cache_invalidate sql i c) \<subseteq> copied_cursors c"
  by (auto simp: statement_cache_invalidate_def close_cursor_def Let_def split: option.splits if_splits)

lemma evict_split:
  "evict capacity cache = (to_close, cache') \<Longrightarrow>
   (\<exists>old. cache = old @ cache' \<and> to_close = filter (\<lambda>i. i \<noteq> 0) (map st_cursor old)) \<and> length cache' \<le> capacity"
proof (induction cache arbitrary: to_close)
  case (Cons e cache)
  show ?case
  proof (cases "length (e # cache) > capacity")
    case True
    obtain cl ca where ev: "evict capacity cache = (cl, ca)" by (cases "evict capacity cache")
    with True Cons.prems have "ca = cache'" "to_close = (if st_cursor e \<noteq> 0 then [st_cursor e] else []) @ cl" by auto
    moreover obtain old where "cache = old @ cache'" "cl = filter (\<lambda>i. i \<noteq> 0) (map st_cursor old)" "length cache' \<le> capacity"
      using Cons.IH ev calculation(1) by blast
    ultimately show ?thesis by (intro conjI exI [of _ "e # old"]) auto
  qed (use Cons.prems in auto)
qed auto

text \<open>Storing a cursor that is open and neither queued, copied nor cached for another statement.\<close>

lemma cache_append_ok:
  assumes "cursors_ok live c" "i \<noteq> 0" "i \<in> live" "i \<notin> set (cursors_to_close c)" "i \<notin> copied_cursors c"
    and "i \<notin> set (cached_ids c)" "sql \<notin> st_sql ` set (statement_cache c)"
    and "set extra \<inter> set (cached_ids c) = {}" "i \<notin> set extra" "set extra \<inter> copied_cursors c = {}"
    and "evict (statement_cache_size c) (statement_cache c @ [\<lparr>st_sql = sql, st_cursor = i, st_shape = shape\<rparr>]) = (out, cache)"
  shows "cursors_ok live (c\<lparr>statement_cache := cache, lob_prefetch_cursors := l, cursor_columns := m,
    cursors_to_close := cursors_to_close c @ extra @ out\<rparr>)"
proof -
  obtain old where old: "statement_cache c @ [\<lparr>st_sql = sql, st_cursor = i, st_shape = shape\<rparr>] = old @ cache"
      "out = filter (\<lambda>i. i \<noteq> 0) (map st_cursor old)" "length cache \<le> statement_cache_size c"
    using evict_split [OF assms(11)] by blast
  have s: "map st_sql (statement_cache c) @ [sql] = map st_sql old @ map st_sql cache"
    and d: "cached_ids c @ [i] = map st_cursor old @ map st_cursor cache"
    using arg_cong [OF old(1), of "map st_sql"] arg_cong [OF old(1), of "map st_cursor"] by (simp_all add: cached_ids_def)
  have sd: "distinct (map st_sql cache)"
    using assms(1,7) arg_cong [OF s, of distinct] by (auto simp: cursors_ok_def)
  have "distinct (cached_ids c @ [i])" using assms(1,6) by (auto simp: cursors_ok_def)
  then have cd: "distinct (map st_cursor cache)" "set (map st_cursor old) \<inter> set (map st_cursor cache) = {}"
    unfolding d by simp_all
  define Old where "Old = set (map st_cursor old)"
  define New where "New = set (map st_cursor cache)"
  have ids: "Old \<union> New = insert i (set (cached_ids c))"
    using arg_cong [OF d, of set] by (simp add: Old_def New_def)
  have out: "set out \<subseteq> Old" using old(2) by (auto simp: Old_def)
  have dis: "Old \<inter> New = {}" using cd(2) by (simp add: Old_def New_def)
  note ok = cursors_okD [OF assms(1)]
  have sub: "New \<subseteq> insert i (set (cached_ids c))" "Old \<subseteq> insert i (set (cached_ids c))" using ids by auto
  have "0 \<notin> New" "New \<subseteq> live" "New \<inter> copied_cursors c = {}" "New \<inter> set (cursors_to_close c) = {}" "New \<inter> set extra = {}"
    using sub(1) ok(1,2,4,5) assms(2-5,8-9) by auto
  moreover have "New \<inter> set out = {}" using dis out by auto
  ultimately have New: "0 \<notin> New" "New \<subseteq> live" "New \<inter> copied_cursors c = {}"
      "New \<inter> (set (cursors_to_close c) \<union> set extra \<union> set out) = {}" by auto
  have "copied_cursors c \<inter> set out = {}" using sub(2) out ok(5) assms(5) by auto
  then have "copied_cursors c \<inter> (set (cursors_to_close c) \<union> set extra \<union> set out) = {}"
    using ok(6) assms(10) by auto
  then show ?thesis
    using sd cd(1) old(3) New ok(3) by (simp add: cursors_ok_def cached_ids_def New_def Un_assoc)
qed

lemma vec_remove_notin:
  assumes "k < length xs" "distinct (map f xs)"
  shows "f (xs ! k) \<notin> f ` set (vec_remove k xs)"
proof -
  have "mset (map f xs) = add_mset (f (xs ! k)) (mset (map f (vec_remove k xs)))"
    using arg_cong [OF mset_vec_remove [OF assms(1)], of "image_mset f"] by simp
  then have "distinct (f (xs ! k) # map f (vec_remove k xs))"
    using assms(2) by (metis mset.simps(2) mset_eq_imp_distinct_iff)
  then show ?thesis by simp
qed

lemma set_vec_remove: "set (vec_remove k xs) \<subseteq> set xs"
  by (auto simp: vec_remove_def dest: in_set_takeD in_set_dropD)

lemma statement_cache_put_ok:
  assumes "cursors_ok live c" "i \<in> live" "i \<notin> set (cursors_to_close c)" "i \<notin> copied_cursors c"
    and "\<And>e. e \<in> set (statement_cache c) \<Longrightarrow> st_cursor e = i \<Longrightarrow> st_sql e = sql"
  shows "cursors_ok live (statement_cache_put sql i shape c)"
proof (cases "i = 0")
  case True
  then show ?thesis
    by (intro cursors_ok_cong [where fresh = "{}", OF _ _ _ _ _ _ assms(1)])
       (auto simp: statement_cache_put_def statement_cache_insert_def)
next
  case False
  show ?thesis
  proof (cases "position (\<lambda>e. st_sql e = sql) (statement_cache c)")
    case None
    then have n: "sql \<notin> st_sql ` set (statement_cache c)" by (auto simp: position_None)
    then have "i \<notin> set (cached_ids c)" using assms(5) by (auto simp: cached_ids_def)
    with False assms n show ?thesis
      using cache_append_ok [of live c i sql "[]" shape]
      by (auto simp: statement_cache_put_def statement_cache_insert_def None Let_def split: prod.splits)
  next
    case (Some k)
    define old where "old = statement_cache c ! k"
    define c1 where "c1 = c\<lparr>statement_cache := vec_remove k (statement_cache c)\<rparr>"
    have k: "k < length (statement_cache c)" "st_sql old = sql" using position_SomeD [OF Some] by (auto simp: old_def)
    have ok: "cursors_ok live c1" using cache_shrink_ok [OF assms(1) vec_remove_submset] by (simp add: c1_def)
    have sql: "sql \<notin> st_sql ` set (statement_cache c1)"
      using vec_remove_notin [OF k(1) cursors_okD(7) [OF assms(1)]] k(2) by (simp add: c1_def old_def)
    have oid: "st_cursor old \<notin> set (cached_ids c1)"
      using vec_remove_notin [OF k(1), of st_cursor] cursors_okD(8) [OF assms(1)] by (simp add: c1_def old_def cached_ids_def)
    have i: "i \<notin> set (cached_ids c1)"
      using assms(5) sql set_vec_remove [of k "statement_cache c"] by (auto simp: cached_ids_def c1_def)
    have oc: "st_cursor old \<notin> copied_cursors c"
      using cursors_okD(5) [OF assms(1)] nth_mem [OF k(1)] by (auto simp: cached_ids_def old_def)
    define extra where "extra = (if st_cursor old \<noteq> 0 \<and> st_cursor old \<noteq> i then [st_cursor old] else [])"
    have e: "set extra \<inter> set (cached_ids c1) = {}" "i \<notin> set extra" "set extra \<inter> copied_cursors c = {}"
      using oid oc by (auto simp: extra_def)
    define sh where "sh = (if st_cursor old = i \<and> length (st_shape old) = length shape
      then inherit_slots (st_shape old) shape else shape)"
    obtain out cache where
      ev: "evict (statement_cache_size c) (statement_cache c1 @ [\<lparr>st_sql = sql, st_cursor = i, st_shape = sh\<rparr>]) = (out, cache)"
      by fastforce
    have ins: "statement_cache_insert (statement_cache c) (statement_cache_size c) sql i shape = (extra @ out, cache)"
      using ev False
      by (cases "st_cursor old = i"; cases "length (st_shape old) = length shape")
         (simp_all add: statement_cache_insert_def Some Let_def old_def [symmetric] c1_def extra_def sh_def)
    show ?thesis
      using cache_append_ok [of live c1 i sql extra sh out cache] False assms(2-4) ok i sql e ev
      by (simp add: statement_cache_put_def ins c1_def)
  qed
qed

subsection \<open>An execute keeps the invariant\<close>

definition names :: "conn_cursors \<Rightarrow> string \<Rightarrow> nat \<Rightarrow> bool" where
  "names c sql i \<longleftrightarrow> (\<exists>e\<in>set (statement_cache c). st_sql e = sql \<and> st_cursor e = i)"

lemma cached_entry:
  assumes "position (\<lambda>e. st_sql e = sql) (statement_cache c) = Some k"
  shows "st_cursor (statement_cache c ! k) \<in> set (cached_ids c)" "names c sql (st_cursor (statement_cache c ! k))"
  using position_SomeD [OF assms] by (auto simp: cached_ids_def names_def)

lemma mset_ok: "cursors_ok live c \<Longrightarrow> mset cache = mset (statement_cache c) \<Longrightarrow> cursors_ok live (c\<lparr>statement_cache := cache\<rparr>)"
  by (rule cache_shrink_ok) simp_all

text \<open>
  What an execute may rely on after choosing its cursor: a reused cursor was cached, so it is open, not
  queued and not a copy; through the cache it is not in use either, and it is still cached for its
  statement.
\<close>

definition chosen_ok :: "exec_request \<Rightarrow> conn_cursors \<Rightarrow> nat \<Rightarrow> bool \<Rightarrow> conn_cursors \<Rightarrow> bool" where
  "chosen_ok rq c i copy c' \<longleftrightarrow>
     copied_cursors c' \<subseteq> copied_cursors c \<and>
     (i \<noteq> 0 \<longrightarrow> i \<in> set (cached_ids c) \<and> \<not> copy \<and> cursors_to_close c' = cursors_to_close c \<and>
               (use_cache rq \<longrightarrow> i \<notin> in_use_cursors c \<and> names c' (rq_sql rq) i))"

lemma statement_cache_get_ok:
  assumes "cursors_ok live c" "statement_cache_get sql shape c = (r, c')"
  shows "cursors_ok live c'" "copied_cursors c' \<subseteq> copied_cursors c"
    "r = Some i \<Longrightarrow> i \<in> set (cached_ids c) \<and> i \<notin> in_use_cursors c \<and> cursors_to_close c' = cursors_to_close c \<and> names c' sql i"
proof -
  have "cursors_ok live c' \<and> copied_cursors c' \<subseteq> copied_cursors c \<and>
    (r = Some i \<longrightarrow> i \<in> set (cached_ids c) \<and> i \<notin> in_use_cursors c \<and> cursors_to_close c' = cursors_to_close c \<and> names c' sql i)"
  proof (cases "position (\<lambda>e. st_sql e = sql) (statement_cache c)")
    case None
    then show ?thesis using assms by (simp add: statement_cache_get_def)
  next
    case (Some k)
    let ?e = "statement_cache c ! k"
    have k: "k < length (statement_cache c)" "st_sql ?e = sql" using position_SomeD [OF Some] by auto
    have nz: "st_cursor ?e \<noteq> 0" using cached_entry(1) [OF Some] cursors_okD(1) [OF assms(1)] by metis
    consider "st_cursor ?e \<in> in_use_cursors c"
      | "st_cursor ?e \<notin> in_use_cursors c" "\<not> bind_shape_is_compatible (st_shape ?e) shape"
      | "st_cursor ?e \<notin> in_use_cursors c" "bind_shape_is_compatible (st_shape ?e) shape" by blast
    then show ?thesis
    proof cases
      case 1
      then show ?thesis using assms nz by (simp add: statement_cache_get_def Some Let_def)
    next
      case 2
      then have "r = None" "c' = statement_cache_invalidate sql (st_cursor ?e) c"
        using assms(2) by (simp_all add: statement_cache_get_def Some Let_def)
      then show ?thesis
        using statement_cache_invalidate_ok [OF assms(1)] invalidate_copied by simp
    next
      case 3
      then have r: "r = Some (st_cursor ?e)" "c' = c\<lparr>statement_cache := vec_remove k (statement_cache c) @ [?e]\<rparr>"
        using assms(2) by (simp_all add: statement_cache_get_def Some Let_def)
      have "cursors_ok live c'"
        unfolding r(2) using mset_vec_remove [OF k(1)] by (intro mset_ok [OF assms(1)]) simp
      then show ?thesis using r 3 k(2) cached_entry(1) [OF Some] by (auto simp: names_def)
    qed
  qed
  then show "cursors_ok live c'" "copied_cursors c' \<subseteq> copied_cursors c"
    "r = Some i \<Longrightarrow> i \<in> set (cached_ids c) \<and> i \<notin> in_use_cursors c \<and> cursors_to_close c' = cursors_to_close c \<and> names c' sql i"
    by auto
qed

lemma statement_cache_take_ok:
  assumes "cursors_ok live c" "statement_cache_take sql shape c = (r, c')"
  shows "cursors_ok live c'" "copied_cursors c' \<subseteq> copied_cursors c"
    "r = Some i \<Longrightarrow> i \<in> set (cached_ids c) \<and> cursors_to_close c' = cursors_to_close c"
proof -
  have "cursors_ok live c' \<and> copied_cursors c' \<subseteq> copied_cursors c \<and>
    (r = Some i \<longrightarrow> i \<in> set (cached_ids c) \<and> cursors_to_close c' = cursors_to_close c)"
  proof (cases "position (\<lambda>e. st_sql e = sql) (statement_cache c)")
    case None
    then show ?thesis using assms by (simp add: statement_cache_take_def)
  next
    case (Some k)
    show ?thesis
    proof (cases "bind_shape_is_compatible (st_shape (statement_cache c ! k)) shape")
      case True
      then show ?thesis
        using assms cached_entry(1) [OF Some] cache_shrink_ok [OF assms(1) vec_remove_submset]
        by (auto simp: statement_cache_take_def Let_def Some)
    next
      case False
      then have "r = None" "c' = statement_cache_invalidate sql (st_cursor (statement_cache c ! k)) c"
        using assms(2) by (simp_all add: statement_cache_take_def Let_def Some)
      then show ?thesis using statement_cache_invalidate_ok [OF assms(1)] invalidate_copied by simp
    qed
  qed
  then show "cursors_ok live c'" "copied_cursors c' \<subseteq> copied_cursors c"
    "r = Some i \<Longrightarrow> i \<in> set (cached_ids c) \<and> cursors_to_close c' = cursors_to_close c"
    by auto
qed

lemma execute_select_ok:
  assumes "cursors_ok live c" "execute_select rq c = (i, copy, c')" "rq_cursor rq = 0"
  shows "cursors_ok live c'" "chosen_ok rq c i copy c'"
proof -
  obtain rg cg where g: "statement_cache_get (rq_sql rq) (rq_shape rq) c = (rg, cg)" by fastforce
  obtain rt ct where t: "statement_cache_take (rq_sql rq) (rq_shape rq) c = (rt, ct)" by fastforce
  note gs = statement_cache_get_ok [OF assms(1) g] and ts = statement_cache_take_ok [OF assms(1) t]
  consider "rq_parse_only rq" | "use_cache rq" "statement_is_in_use (rq_sql rq) c"
    | "use_cache rq" "\<not> statement_is_in_use (rq_sql rq) c" | "\<not> rq_parse_only rq" "\<not> use_cache rq"
    by (auto simp: use_cache_def)
  then have "cursors_ok live c' \<and> chosen_ok rq c i copy c'"
  proof cases
    case 3
    then have "i = (case rg of Some j \<Rightarrow> j | None \<Rightarrow> 0)" "\<not> copy" "c' = cg"
      using assms(2) by (auto simp: execute_select_def use_cache_def g assms(3) split: option.splits)
    then show ?thesis using gs by (auto simp: chosen_ok_def split: option.splits)
  next
    case 4
    then have "i = (case rt of Some j \<Rightarrow> j | None \<Rightarrow> 0)" "\<not> copy" "c' = ct"
      using assms(2) by (auto simp: execute_select_def t assms(3) split: option.splits)
    then show ?thesis using ts 4 by (auto simp: chosen_ok_def split: option.splits)
  qed (use assms in \<open>auto simp: execute_select_def use_cache_def chosen_ok_def\<close>)
  then show "cursors_ok live c'" "chosen_ok rq c i copy c'" by auto
qed

lemma execute_planE:
  assumes "execute_plan limits rq c = (r, c')"
  obtains i copy c1 where "execute_select rq c = (i, copy, c1)" "c' = c1\<lparr>cursors_to_close := []\<rparr>"
    "\<And>plan. r = Inr plan \<Longrightarrow> plan_cursor plan = i \<and> plan_copy plan = copy \<and> plan_closes plan = cursors_to_close c1"
proof -
  obtain i copy c1 where "execute_select rq c = (i, copy, c1)" by (metis prod_cases3)
  then show thesis
    using assms by (intro that) (auto simp: execute_plan_def take_close_cursors_def Let_def split: sum.splits)
qed

lemma flush_ok:
  assumes "cursors_ok live c" "X \<subseteq> set (cursors_to_close c)"
  shows "cursors_ok (live - X) (c\<lparr>cursors_to_close := []\<rparr>)"
proof -
  have "set (cached_ids c) \<subseteq> live - X" "copied_cursors c \<subseteq> live - X"
    using cursors_okD(2-6) [OF assms(1)] assms(2) by blast+
  then show ?thesis using assms(1) by (simp add: cursors_ok_def cached_ids_def)
qed

text \<open>Bookkeeping that leaves the cache, the copies and the queue alone.\<close>

definition same_cursors :: "conn_cursors \<Rightarrow> conn_cursors \<Rightarrow> bool" where
  "same_cursors c c' \<longleftrightarrow>
     statement_cache c' = statement_cache c \<and> statement_cache_size c' = statement_cache_size c \<and>
     copied_cursors c' = copied_cursors c \<and> cursors_to_close c' = cursors_to_close c"

lemma same_cursors_ok: "same_cursors c c' \<Longrightarrow> cursors_ok live c' = cursors_ok live c"
  by (simp add: same_cursors_def cursors_ok_def cached_ids_def)

lemma same_cursors_simps:
  "same_cursors c c" "same_cursors c (remember_cursor_columns result c)" "same_cursors c (forget_fetch_metadata sql c)"
  "same_cursors c (remember_fetch_metadata sql columns c)" "same_cursors c (define_fetched i columns result c)"
  by (simp_all add: same_cursors_def remember_cursor_columns_def forget_fetch_metadata_def
      remember_fetch_metadata_def define_fetched_def Let_def split: list.splits)

lemma same_cursors_trans: "same_cursors a b \<Longrightarrow> same_cursors b c \<Longrightarrow> same_cursors a c"
  by (simp add: same_cursors_def)

lemma apply_refetch_same:
  assumes "apply_refetch_metadata redefine sql result shapes c = (r, shapes', c')"
  shows "same_cursors c c' \<or> (\<exists>c1 i. same_cursors c c1 \<and> c' = close_cursor i c1)"
proof -
  define c1 where "c1 = (if self_healed (fst (observe sql (res_columns result) shapes)) then forget_fetch_metadata sql c else c)"
  have c1: "same_cursors c c1" by (simp add: c1_def same_cursors_simps)
  have "c' = c \<or> c' = close_cursor (res_cursor_id result) c1 \<or> (\<exists>columns. c' = remember_fetch_metadata sql columns c1) \<or>
    (\<exists>columns cols' i res. c' = remember_fetch_metadata sql columns (define_fetched i cols' res c1))"
    using assms unfolding apply_refetch_metadata_def c1_def
    by (auto simp: Let_def split: prod.splits sum.splits if_splits) blast+
  then show ?thesis
    using c1 same_cursors_simps same_cursors_trans by metis
qed

lemma invalidate_bound_ok:
  assumes "cursors_ok live c"
  shows "cursors_ok live (invalidate_bound_ref_cursors bound c)"
    "copied_cursors (invalidate_bound_ref_cursors bound c) = copied_cursors c"
    "set (cached_ids (invalidate_bound_ref_cursors bound c)) = set (cached_ids c) - (set bound - {0})"
proof -
  have "cursors_ok live (invalidate_bound_ref_cursors bound c) \<and>
    copied_cursors (invalidate_bound_ref_cursors bound c) = copied_cursors c \<and>
    set (cached_ids (invalidate_bound_ref_cursors bound c)) = set (cached_ids c) - (set bound - {0})"
    using assms
  proof (induction bound arbitrary: c)
    case (Cons i bound)
    let ?c = "c\<lparr>statement_cache := filter (\<lambda>e. st_cursor e \<noteq> i) (statement_cache c)\<rparr>"
    let ?d = "?c\<lparr>cursor_columns := (cursor_columns c)(i := None), lob_prefetch_cursors := lob_prefetch_cursors c - {i}\<rparr>"
    show ?case
    proof (cases "i = 0")
      case False
      have "cursors_ok live ?c" by (rule cache_shrink_ok [OF Cons.prems]) (simp add: multiset_filter_subset)
      then have "cursors_ok live ?d" by (rule same_cursors_ok [THEN iffD2, rotated]) (simp add: same_cursors_def)
      moreover have "set (cached_ids ?d) = set (cached_ids c) - {i}" by (auto simp: cached_ids_def)
      ultimately show ?thesis using Cons.IH [of ?d] False by auto
    qed (use Cons in auto)
  qed simp
  then show "cursors_ok live (invalidate_bound_ref_cursors bound c)"
    "copied_cursors (invalidate_bound_ref_cursors bound c) = copied_cursors c"
    "set (cached_ids (invalidate_bound_ref_cursors bound c)) = set (cached_ids c) - (set bound - {0})"
    by auto
qed

lemma close_cursor_shrinks:
  "set (cached_ids (close_cursor i c)) \<subseteq> set (cached_ids c)" "copied_cursors (close_cursor i c) \<subseteq> copied_cursors c"
  by (auto simp: close_cursor_def Let_def cached_ids_def)

text \<open>The cursor of a reply: open, and new or the one this execute reused.\<close>

definition reply_ok :: "nat set \<Rightarrow> exec_request \<Rightarrow> exec_plan \<Rightarrow> nat \<Rightarrow> conn_cursors \<Rightarrow> bool" where
  "reply_ok live rq plan i c \<longleftrightarrow>
     cursors_to_close c = [] \<and>
     (i \<noteq> 0 \<longrightarrow> i \<in> live \<and> i \<notin> copied_cursors c \<and>
       (plan_copy plan \<longrightarrow> i \<notin> set (cached_ids c)) \<and> (use_cache rq \<longrightarrow> i \<in> set (cached_ids c) \<longrightarrow> names c (rq_sql rq) i))"

lemma names_unique: "cursors_ok live c \<Longrightarrow> names c sql i \<Longrightarrow> e \<in> set (statement_cache c) \<Longrightarrow> st_cursor e = i \<Longrightarrow> st_sql e = sql"
  using cursors_okD(8) [of live c] by (auto simp: names_def cached_ids_def distinct_map inj_on_def)

lemma stored_ok:
  assumes "cursors_ok live c" "reply_ok live rq plan i c"
    and "c' = (if plan_copy plan then if i \<noteq> 0 then c\<lparr>copied_cursors := insert i (copied_cursors c)\<rparr> else c
              else if use_cache rq then statement_cache_put (rq_sql rq) i (rq_shape rq) c else c)"
  shows "cursors_ok live c'" "copied_cursors c' \<subseteq> opened (if plan_copy plan then i else 0) (copied_cursors c)"
proof -
  consider "plan_copy plan" "i \<noteq> 0" | "i = 0 \<and> plan_copy plan \<or> \<not> plan_copy plan \<and> \<not> use_cache rq"
    | "\<not> plan_copy plan" "use_cache rq" by auto
  then have "cursors_ok live c' \<and> copied_cursors c' \<subseteq> opened (if plan_copy plan then i else 0) (copied_cursors c)"
  proof cases
    case 1
    then show ?thesis using assms by (auto simp: cursors_ok_def cached_ids_def reply_ok_def opened_def)
  next
    case 2
    then show ?thesis using assms by (auto simp: opened_def)
  next
    case 3
    have "cursors_ok live (statement_cache_put (rq_sql rq) i (rq_shape rq) c)"
    proof (cases "i = 0")
      case True
      then have "same_cursors c (statement_cache_put (rq_sql rq) i (rq_shape rq) c)"
        by (simp add: same_cursors_def statement_cache_put_def statement_cache_insert_def)
      then show ?thesis using same_cursors_ok assms(1) by blast
    next
      case False
      show ?thesis
        using assms(2) 3 False names_unique [OF assms(1)]
        by (intro statement_cache_put_ok [OF assms(1)]) (auto simp: reply_ok_def cached_ids_def)
    qed
    moreover have "copied_cursors (statement_cache_put (rq_sql rq) i (rq_shape rq) c) = copied_cursors c"
      by (simp add: statement_cache_put_def split: prod.splits)
    ultimately show ?thesis using 3 assms(3) by (simp add: opened_def)
  qed
  then show "cursors_ok live c'" "copied_cursors c' \<subseteq> opened (if plan_copy plan then i else 0) (copied_cursors c)" by auto
qed

lemma execute_ok_ok:
  assumes "cursors_ok live c" "reply_ok live rq plan (res_cursor_id result) c"
    and "execute_ok redefine rq plan result shapes c = (r, shapes', c')"
  shows "cursors_ok live c'"
    "copied_cursors c' \<subseteq> opened (if plan_copy plan then res_cursor_id result else 0) (copied_cursors c)"
    "set (cached_ids c') \<inter> set (rq_bound rq) = {}"
proof -
  let ?i = "res_cursor_id result"
  define c1 where "c1 = (if ?i \<noteq> 0 \<and> res_has_rows result \<and> columns_have_lob_prefetch_fields (res_columns result)
    then c\<lparr>lob_prefetch_cursors := insert ?i (lob_prefetch_cursors c)\<rparr> else c)"
  define c2 where "c2 = (if plan_copy plan then if ?i \<noteq> 0 then c1\<lparr>copied_cursors := insert ?i (copied_cursors c1)\<rparr> else c1
    else if use_cache rq then statement_cache_put (rq_sql rq) ?i (rq_shape rq) c1 else c1)"
  define c3 where "c3 = (if ?i \<noteq> 0 \<and> rq_query rq \<and> \<not> rq_parse_only rq
    then c2\<lparr>in_use_cursors := insert ?i (in_use_cursors c2)\<rparr> else c2)"
  define c4 where "c4 = invalidate_bound_ref_cursors (rq_bound rq) c3"
  define c5 where "c5 = remember_cursor_columns result c4"
  have s1: "same_cursors c c1" by (simp add: c1_def same_cursors_def)
  have r1: "cursors_ok live c1" "reply_ok live rq plan ?i c1"
    using assms(1,2) s1 same_cursors_ok [OF s1] by (simp_all add: reply_ok_def same_cursors_def cached_ids_def names_def)
  note r2 = stored_ok [OF r1 c2_def]
  have s3: "same_cursors c2 c3" by (simp add: c3_def same_cursors_def)
  then have "cursors_ok live c3" using r2(1) same_cursors_ok by blast
  note r4 = invalidate_bound_ok [OF this, of "rq_bound rq", folded c4_def]
  have s5: "same_cursors c4 c5" by (simp add: c5_def same_cursors_simps)
  have r5: "cursors_ok live c5" "copied_cursors c5 \<subseteq> opened (if plan_copy plan then ?i else 0) (copied_cursors c)"
    "set (cached_ids c5) \<inter> set (rq_bound rq) = {}"
    using same_cursors_ok [OF s5] r4 r2(2) s1 s3 s5 cursors_okD(1) [OF r4(1)]
    by (auto simp: same_cursors_def cached_ids_def)
  have "execute_ok redefine rq plan result shapes c =
    (if rq_parse_only rq then (Inr result, shapes, c5) else apply_refetch_metadata redefine (rq_sql rq) result shapes c5)"
    unfolding execute_ok_def Let_def c1_def [symmetric] c2_def [symmetric] c3_def [symmetric] c4_def [symmetric] c5_def [symmetric] ..
  then have "same_cursors c5 c' \<or> (\<exists>c6 i. same_cursors c5 c6 \<and> c' = close_cursor i c6)"
    using assms(3) apply_refetch_same [of redefine "rq_sql rq" result shapes c5 r shapes' c']
    by (cases "rq_parse_only rq") (simp_all add: same_cursors_simps)
  then have "cursors_ok live c' \<and> copied_cursors c' \<subseteq> copied_cursors c5 \<and> set (cached_ids c') \<subseteq> set (cached_ids c5)"
  proof
    assume s: "same_cursors c5 c'"
    then have "cursors_ok live c'" using r5(1) same_cursors_ok [OF s] by simp
    then show ?thesis using s by (simp add: same_cursors_def cached_ids_def)
  next
    assume "\<exists>c6 i. same_cursors c5 c6 \<and> c' = close_cursor i c6"
    then obtain c6 i where c6: "same_cursors c5 c6" "c' = close_cursor i c6" by blast
    then have "cursors_ok live c6" "copied_cursors c6 = copied_cursors c5" "cached_ids c6 = cached_ids c5"
      using r5(1) same_cursors_ok [OF c6(1)] by (simp_all add: same_cursors_def cached_ids_def)
    then show ?thesis unfolding c6(2) using close_cursor_ok close_cursor_shrinks [of i c6] by simp
  qed
  then show "cursors_ok live c'" "copied_cursors c' \<subseteq> opened (if plan_copy plan then ?i else 0) (copied_cursors c)"
    "set (cached_ids c') \<inter> set (rq_bound rq) = {}"
    using r5 by blast+
qed

subsection \<open>Sessions keep the invariant\<close>

lemma cursors_ok_live:
  assumes "cursors_ok live c" "set (cached_ids c) \<union> copied_cursors c \<subseteq> live'"
  shows "cursors_ok live' c"
  using assms by (simp add: cursors_ok_def)

lemma cursors_ok_mono:
  assumes "cursors_ok live c" "live \<subseteq> live'"
  shows "cursors_ok live' c"
  by (rule cursors_ok_live [OF assms(1)]) (use cursors_okD(2,3) [OF assms(1)] assms(2) in blast)

lemma execute_plan_ok:
  assumes "cursors_ok live c" "execute_plan limits rq c = (Inr plan, c')" "rq_cursor rq = 0"
  shows "cursors_ok (live - set (plan_closes plan)) c'" "cursors_to_close c' = []"
    "plan_cursor plan \<noteq> 0 \<Longrightarrow> plan_cursor plan \<in> live - set (plan_closes plan) \<and> plan_cursor plan \<notin> copied_cursors c' \<and>
       \<not> plan_copy plan \<and> (use_cache rq \<longrightarrow> plan_cursor plan \<notin> in_use_cursors c \<and> names c' (rq_sql rq) (plan_cursor plan))"
proof -
  obtain i copy c1 where e: "execute_select rq c = (i, copy, c1)" "c' = c1\<lparr>cursors_to_close := []\<rparr>"
      "plan_cursor plan = i" "plan_copy plan = copy" "plan_closes plan = cursors_to_close c1"
    using execute_planE [OF assms(2)] by metis
  note sel = execute_select_ok [OF assms(1) e(1) assms(3)]
  show "cursors_ok (live - set (plan_closes plan)) c'" unfolding e(2,5) by (rule flush_ok [OF sel(1)]) simp
  show "cursors_to_close c' = []" by (simp add: e(2))
  assume "plan_cursor plan \<noteq> 0"
  then have ch: "i \<in> set (cached_ids c)" "\<not> copy" "cursors_to_close c1 = cursors_to_close c" "copied_cursors c1 \<subseteq> copied_cursors c"
      "use_cache rq \<longrightarrow> i \<notin> in_use_cursors c \<and> names c1 (rq_sql rq) i"
    using sel(2) e(3) by (simp_all add: chosen_ok_def)
  have "i \<in> live" "i \<notin> set (cursors_to_close c)" "i \<notin> copied_cursors c"
    using ch(1) cursors_okD(2,4,5) [OF assms(1)] by auto
  then show "plan_cursor plan \<in> live - set (plan_closes plan) \<and> plan_cursor plan \<notin> copied_cursors c' \<and>
      \<not> plan_copy plan \<and> (use_cache rq \<longrightarrow> plan_cursor plan \<notin> in_use_cursors c \<and> names c' (rq_sql rq) (plan_cursor plan))"
    using ch e by (auto simp: names_def)
qed

lemma execute_failed_ok: "cursors_ok live c \<Longrightarrow> cursors_ok live (execute_failed rq plan i c)"
  by (simp add: execute_failed_def Let_def close_cursor_ok statement_cache_invalidate_ok)

lemma gone_ok:
  assumes "cursors_ok live c" "set (cached_ids c) \<inter> set bound = {}" "copied_cursors c \<subseteq> copied" "gone \<subseteq> set bound - copied"
  shows "cursors_ok (live - gone) c"
  by (rule cursors_ok_live [OF assms(1)]) (use cursors_okD(2,3) [OF assms(1)] assms(2-4) in blast)

lemma session_step_ok:
  assumes "cursors_ok (srv s) (conn s)" "session_step limits s s'"
  shows "cursors_ok (srv s') (conn s')"
  using assms(2)
proof cases
  case (exec_refused rq e c)
  obtain i copy c1 where e: "execute_select rq (conn s) = (i, copy, c1)" "c = c1\<lparr>cursors_to_close := []\<rparr>"
    using execute_planE [OF exec_refused(3)] by metis
  have "cursors_ok (srv s - {}) c" unfolding e(2) by (rule flush_ok [OF execute_select_ok(1) [OF assms(1) e(1) exec_refused(2)]]) simp
  then show ?thesis by (simp add: exec_refused(1))
next
  case (exec_reused rq plan c result gone redefine r shapes c')
  note plan = execute_plan_ok [OF assms(1) exec_reused(3,2)]
  have rep: "reply_ok (srv s - set (plan_closes plan)) rq plan (res_cursor_id result) c"
    using plan(2) plan(3) [OF exec_reused(4)] by (auto simp: reply_ok_def exec_reused(6))
  note fin = execute_ok_ok [OF plan(1) rep exec_reused(8)]
  have "copied_cursors c' \<subseteq> copied_cursors c"
    using fin(2) plan(3) [OF exec_reused(4)] by (simp add: opened_def)
  from gone_ok [OF fin(1,3) this exec_reused(7)] show ?thesis by (simp add: exec_reused(1))
next
  case (exec_parsed rq plan c result gone redefine r shapes c')
  let ?live = "opened (res_cursor_id result) (srv s - set (plan_closes plan))"
  note plan = execute_plan_ok [OF assms(1) exec_parsed(3,2)]
  have ok: "cursors_ok ?live c" by (rule cursors_ok_mono [OF plan(1)]) (auto simp: opened_def)
  have rep: "reply_ok ?live rq plan (res_cursor_id result) c"
    using plan(2) exec_parsed(5) cursors_okD(2,3) [OF plan(1)] by (auto simp: reply_ok_def opened_def)
  note fin = execute_ok_ok [OF ok rep exec_parsed(7)]
  have "copied_cursors c' \<subseteq> opened (res_cursor_id result) (copied_cursors c)"
    using fin(2) by (auto simp: opened_def split: if_splits)
  from gone_ok [OF fin(1,3) this exec_parsed(6)] show ?thesis by (simp add: exec_parsed(1))
next
  case (exec_failed rq plan c error_cursor)
  have "srv s - set (plan_closes plan) \<subseteq> opened error_cursor (srv s - set (plan_closes plan))"
    by (auto simp: opened_def)
  from execute_failed_ok [OF cursors_ok_mono [OF execute_plan_ok(1) [OF assms(1) exec_failed(3,2)] this]]
  show ?thesis by (simp add: exec_failed(1))
next
  case (flushed closes c)
  then have "closes = cursors_to_close (conn s)" "c = conn s\<lparr>cursors_to_close := []\<rparr>"
    by (simp_all add: take_close_cursors_def)
  then show ?thesis using flush_ok [OF assms(1), of "set closes"] by (simp add: flushed(1))
qed (use assms(1) in \<open>simp_all add: release_cursor_ok close_cursor_ok\<close>)

interpretation cursor_sessions: state_machine "session_init capacity" "session_step limits"
    "\<lambda>s. cursors_ok (srv s) (conn s)" for capacity limits
proof unfold_locales
  show "cursors_ok (srv s) (conn s)" if "session_init capacity s" for s
    using that by (simp add: session_init_def new_cursors_def cursors_ok_def cached_ids_def)
qed (rule session_step_ok)

end
