(* ===== verification/Cursor_Safety.thy ===== *)
theory Cursor_Safety
  imports Cursor_Cache
begin

text \<open>
  What the invariant of \<^verbatim>\<open>Cursor_Cache\<close> gives for the cursors an execute reuses, and three ways the
  bookkeeping loses track of a cursor: eviction of a cursor in use, a failed copy, and a refused execute.
\<close>

subsection \<open>What an execute reuses\<close>

lemma statement_cache_get_entry:
  assumes "statement_cache_get sql shape c = (Some i, c')"
  shows "\<exists>e\<in>set (statement_cache c). st_sql e = sql \<and> st_cursor e = i \<and> bind_shape_is_compatible (st_shape e) shape"
proof (cases "position (\<lambda>e. st_sql e = sql) (statement_cache c)")
  case (Some k)
  then show ?thesis
    using assms position_SomeD [OF Some] nth_mem [of k "statement_cache c"]
    by (auto simp: statement_cache_get_def Let_def split: if_splits)
qed (use assms in \<open>simp add: statement_cache_get_def\<close>)

lemma statement_cache_take_entry:
  assumes "statement_cache_take sql shape c = (Some i, c')"
  shows "\<exists>e\<in>set (statement_cache c). st_sql e = sql \<and> st_cursor e = i \<and> bind_shape_is_compatible (st_shape e) shape"
proof (cases "position (\<lambda>e. st_sql e = sql) (statement_cache c)")
  case (Some k)
  then show ?thesis
    using assms position_SomeD [OF Some] nth_mem [of k "statement_cache c"]
    by (auto simp: statement_cache_take_def Let_def split: if_splits)
qed (use assms in \<open>simp add: statement_cache_take_def\<close>)

lemma execute_select_entry:
  assumes "execute_select rq c = (i, copy, c')" "rq_cursor rq = 0" "i \<noteq> 0"
  shows "\<exists>e\<in>set (statement_cache c). st_sql e = rq_sql rq \<and> st_cursor e = i \<and>
    bind_shape_is_compatible (st_shape e) (rq_shape rq)"
  using assms statement_cache_get_entry [of "rq_sql rq" "rq_shape rq" c i c']
    statement_cache_take_entry [of "rq_sql rq" "rq_shape rq" c i c']
  by (auto simp: execute_select_def split: if_splits prod.splits option.splits)



subsection \<open>Concrete sessions\<close>

definition demo_column :: column_metadata where
  "demo_column =
     \<lparr>name = ''N'', ora_type_num = 2, csfrm = 0, precision = 0, scale = 0, buffer_size = 22, max_size = 22,
      nulls_allowed = True, is_json = False, is_oson = False, object_schema = None, object_type_name = None,
      is_array = False, vector_dimensions = None, vector_format = 0, vector_flags = 0, domain_schema = None,
      domain_name = None, annotations = None\<rparr>"

definition query_of :: "string \<Rightarrow> exec_request" where
  "query_of sql = \<lparr>rq_sql = sql, rq_cache = True, rq_parse_only = False, rq_query = True, rq_cursor = 0,
     rq_shape = [], rq_rows = 0, rq_binds = 0, rq_bound = []\<rparr>"

definition reply_of :: "nat \<Rightarrow> query_result" where
  "reply_of i = \<lparr>res_cursor_id = i, res_columns = [demo_column], res_has_rows = True\<rparr>"

lemma res_cursor_reply [simp]: "res_cursor_id (reply_of i) = i"
  by (simp add: reply_of_def)

definition fresh_session :: "nat \<Rightarrow> session" where
  "fresh_session capacity = \<lparr>conn = new_cursors capacity, srv = {}, shared = new_shape_cache\<rparr>"

definition run_query :: "string \<Rightarrow> nat \<Rightarrow> session \<Rightarrow> session" where
  "run_query sql i s =
     (case execute_plan default_limits (query_of sql) (conn s) of
        (Inr plan, c) \<Rightarrow>
          (case execute_ok (\<lambda>_ _. Inl InvalidServerResponse) (query_of sql) plan (reply_of i) (shared s) c of
             (r, shapes, c') \<Rightarrow> s\<lparr>conn := c', srv := opened i (srv s - set (plan_closes plan)), shared := shapes\<rparr>)
      | (Inl e, c) \<Rightarrow> s\<lparr>conn := c\<rparr>)"

lemma run_query_reachable:
  assumes "reachable (session_init capacity) (session_step default_limits) s"
    and "execute_plan default_limits (query_of sql) (conn s) = (Inr plan, c)" "plan_cursor plan = 0"
    and "i \<notin> srv s - set (plan_closes plan)"
  shows "reachable (session_init capacity) (session_step default_limits) (run_query sql i s)"
proof -
  obtain r shapes c' where e: "execute_ok (\<lambda>_ _. Inl InvalidServerResponse) (query_of sql) plan (reply_of i) (shared s) c = (r, shapes, c')"
    by (metis prod_cases3)
  have "session_step default_limits s
     (s\<lparr>conn := c', srv := opened (res_cursor_id (reply_of i)) (srv s - set (plan_closes plan)) - {}, shared := shapes\<rparr>)"
    by (rule exec_parsed [OF _ assms(2,3) _ _ e]) (use assms(4) in \<open>simp_all add: query_of_def reply_of_def\<close>)
  then have "session_step default_limits s (run_query sql i s)"
    by (simp add: run_query_def assms(2) e)
  then show ?thesis by (rule reachable_step [OF assms(1)])
qed

lemma fresh_reachable: "reachable (session_init capacity) step (fresh_session capacity)"
  by (rule reachable_init) (simp add: session_init_def fresh_session_def)

lemmas cursor_eval = execute_plan_def execute_select_def execute_ok_def use_cache_def query_of_def reply_of_def
  statement_is_in_use_def statement_cache_get_def statement_cache_put_def statement_cache_insert_def
  take_close_cursors_def remember_cursor_columns_def apply_refetch_metadata_def observe_def from_columns_def
  remember_fetch_metadata_def columns_have_lob_prefetch_fields_def demo_column_def ora_type_defs new_cursors_def
  new_shape_cache_def vec_remove_def FETCH_METADATA_RETENTION_CAP_def bind_shape_is_compatible_def inherit_slots_def
  check_defs check_def default_limits_def

definition one_query :: session where "one_query = run_query ''a'' 1 (fresh_session 1)"
definition two_queries :: session where "two_queries = run_query ''b'' 2 one_query"

lemma one_query_plan:
  "execute_plan default_limits (query_of ''a'') (conn (fresh_session 1)) =
     (Inr \<lparr>plan_cursor = 0, plan_copy = False, plan_no_prefetch = False, plan_closes = []\<rparr>, new_cursors 1)"
  by (simp add: cursor_eval fresh_session_def)

lemma one_query_state:
  "statement_cache (conn one_query) = [\<lparr>st_sql = ''a'', st_cursor = 1, st_shape = []\<rparr>]"
  "statement_cache_size (conn one_query) = 1" "in_use_cursors (conn one_query) = {1}"
  "copied_cursors (conn one_query) = {}" "cursors_to_close (conn one_query) = []" "srv one_query = {1}"
  by (simp_all add: one_query_def run_query_def one_query_plan)
     (simp_all add: cursor_eval fresh_session_def opened_def)

lemma one_query_reachable: "reachable (session_init 1) (session_step default_limits) one_query"
  unfolding one_query_def by (rule run_query_reachable [OF fresh_reachable one_query_plan]) (simp_all add: fresh_session_def)

lemma one_query_columns: "cursor_columns (conn one_query) = [1 \<mapsto> [demo_column]]"
  "fetch_metadata_by_sql (conn one_query) = [''a'' \<mapsto> [demo_column]]" "fetch_metadata_order (conn one_query) = [''a'']"
  by (simp_all add: one_query_def run_query_def one_query_plan)
     (simp_all add: cursor_eval fresh_session_def)

lemma second_plan:
  "execute_plan default_limits (query_of ''b'') (conn one_query) =
     (Inr \<lparr>plan_cursor = 0, plan_copy = False, plan_no_prefetch = False, plan_closes = []\<rparr>, conn one_query)"
  by (simp add: cursor_eval one_query_state)

lemma refetch_first:
  assumes "fetch_metadata_by_sql c sql = None" "apply_refetch_metadata redefine sql result shapes c = (r, shapes', c')"
  shows "same_cursors c c' \<and> in_use_cursors c' = in_use_cursors c"
proof -
  have "forget_fetch_metadata sql c = c" using assms(1) by (simp add: forget_fetch_metadata_def)
  then have "c' = c \<or> c' = remember_fetch_metadata sql (res_columns result) c"
    using assms by (auto simp: apply_refetch_metadata_def Let_def split: if_splits prod.splits)
  moreover have "in_use_cursors (remember_fetch_metadata sql (res_columns result) c) = in_use_cursors c"
    by (simp add: remember_fetch_metadata_def Let_def split: list.splits)
  ultimately show ?thesis using same_cursors_simps(1,4) by metis
qed

lemma two_queries_state:
  "statement_cache (conn two_queries) = [\<lparr>st_sql = ''b'', st_cursor = 2, st_shape = []\<rparr>]"
  "statement_cache_size (conn two_queries) = 1" "in_use_cursors (conn two_queries) = {1, 2}"
  "copied_cursors (conn two_queries) = {}" "cursors_to_close (conn two_queries) = [1]" "srv two_queries = {1, 2}"
proof -
  let ?f = "\<lambda>_ _. Inl InvalidServerResponse" and ?p = "\<lparr>plan_cursor = 0, plan_copy = False, plan_no_prefetch = False, plan_closes = []\<rparr>"
  define c where "c = remember_cursor_columns (reply_of 2)
    ((statement_cache_put ''b'' 2 [] (conn one_query))\<lparr>in_use_cursors := {2, 1}\<rparr>)"
  have c: "statement_cache c = [\<lparr>st_sql = ''b'', st_cursor = 2, st_shape = []\<rparr>]" "statement_cache_size c = 1"
      "in_use_cursors c = {1, 2}" "copied_cursors c = {}" "cursors_to_close c = [1]" "fetch_metadata_by_sql c ''b'' = None"
    by (simp_all add: c_def cursor_eval one_query_state one_query_columns insert_commute)
  have "in_use_cursors (statement_cache_put ''b'' 2 [] (conn one_query)) = {1}"
    by (simp add: cursor_eval one_query_state)
  then have "execute_ok ?f (query_of ''b'') ?p (reply_of 2) (shared one_query) (conn one_query) =
      apply_refetch_metadata ?f ''b'' (reply_of 2) (shared one_query) c"
    by (simp add: execute_ok_def query_of_def use_cache_def c_def columns_have_lob_prefetch_fields_def reply_of_def
        demo_column_def ora_type_defs)
  moreover obtain r shapes c' where e: "apply_refetch_metadata ?f ''b'' (reply_of 2) (shared one_query) c = (r, shapes, c')"
    by (metis prod_cases3)
  ultimately have t: "two_queries = one_query\<lparr>conn := c', srv := opened 2 (srv one_query), shared := shapes\<rparr>"
    by (simp add: two_queries_def run_query_def second_plan)
  show "statement_cache (conn two_queries) = [\<lparr>st_sql = ''b'', st_cursor = 2, st_shape = []\<rparr>]"
      "statement_cache_size (conn two_queries) = 1" "in_use_cursors (conn two_queries) = {1, 2}"
      "copied_cursors (conn two_queries) = {}" "cursors_to_close (conn two_queries) = [1]" "srv two_queries = {1, 2}"
    unfolding t using refetch_first [OF c(6) e] c by (auto simp: same_cursors_def one_query_state opened_def)
qed

lemma two_queries_reachable: "reachable (session_init 1) (session_step default_limits) two_queries"
  unfolding two_queries_def by (rule run_query_reachable [OF one_query_reachable second_plan]) (simp_all add: one_query_state)


definition one_released :: session where
  "one_released = one_query\<lparr>conn := release_cursor 1 (conn one_query)\<rparr>"

lemma one_released_plan:
  "execute_plan default_limits (query_of ''a'') (conn one_released) =
     (Inr \<lparr>plan_cursor = 1, plan_copy = False, plan_no_prefetch = False, plan_closes = []\<rparr>, conn one_released)"
  by (simp add: cursor_eval one_released_def release_cursor_def one_query_state one_query_columns)


subsection \<open>Cursors the bookkeeping loses\<close>

text \<open>
  C38. Eviction: a statement evicted from a full cache is queued for closing even while a live cursor is
  fetching from it, so the next request closes it under that cursor.
\<close>

theorem eviction_closes_busy_cursor:
  "\<exists>s. reachable (session_init 1) (session_step default_limits) s \<and>
    (\<exists>i. i \<in> in_use_cursors (conn s) \<and> i \<in> srv s \<and> i \<in> set (cursors_to_close (conn s)))"
proof (intro exI conjI)
  show "reachable (session_init 1) (session_step default_limits) two_queries" by (rule two_queries_reachable)
  show "1 \<in> in_use_cursors (conn two_queries)" "1 \<in> srv two_queries" "1 \<in> set (cursors_to_close (conn two_queries))"
    by (simp_all add: two_queries_state)
qed

definition leaked :: "nat \<Rightarrow> session \<Rightarrow> bool" where
  "leaked i s \<longleftrightarrow> i \<in> srv s \<and> i \<notin> in_use_cursors (conn s) \<and> i \<notin> set (cached_ids (conn s)) \<and>
     i \<notin> copied_cursors (conn s) \<and> i \<notin> set (cursors_to_close (conn s))"

text \<open>A second execute of a busy statement that fails, and then the release of the first.\<close>

definition failed_copy :: session where
  "failed_copy = one_query\<lparr>conn := release_cursor 1
     (execute_failed (query_of ''a'') \<lparr>plan_cursor = 0, plan_copy = True, plan_no_prefetch = False, plan_closes = []\<rparr> 0
        (conn one_query))\<rparr>"

text \<open>A batch over the limit while a close is queued, and then the release of the cursor.\<close>

definition big_batch :: exec_request where
  "big_batch = query_of ''c''\<lparr>rq_rows := Suc (max_batch_rows default_limits)\<rparr>"

definition refused_batch :: session where
  "refused_batch = two_queries\<lparr>conn := release_cursor 1 ((conn two_queries)\<lparr>cursors_to_close := []\<rparr>)\<rparr>"

lemma failed_copy_reachable: "reachable (session_init 1) (session_step default_limits) failed_copy"
proof -
  let ?p = "\<lparr>plan_cursor = 0, plan_copy = True, plan_no_prefetch = False, plan_closes = []\<rparr>"
  let ?s = "one_query\<lparr>conn := execute_failed (query_of ''a'') ?p 0 (conn one_query)\<rparr>"
  have p: "execute_plan default_limits (query_of ''a'') (conn one_query) = (Inr ?p, conn one_query)"
    by (simp add: cursor_eval one_query_state)
  have "session_step default_limits one_query
     (one_query\<lparr>conn := execute_failed (query_of ''a'') ?p 0 (conn one_query), srv := opened 0 (srv one_query - set (plan_closes ?p))\<rparr>)"
    by (rule exec_failed [OF _ p]) (simp_all add: query_of_def)
  then have "session_step default_limits one_query ?s" by (simp add: opened_def)
  from reachable_step [OF reachable_step [OF one_query_reachable this] released [where cursor_id = 1]]
  show ?thesis by (simp add: failed_copy_def)
qed

lemma refused_batch_reachable: "reachable (session_init 1) (session_step default_limits) refused_batch"
proof -
  have "\<exists>e. execute_plan default_limits big_batch (conn two_queries) = (Inl e, (conn two_queries)\<lparr>cursors_to_close := []\<rparr>)"
    by (simp add: cursor_eval big_batch_def two_queries_state)
  then have "session_step default_limits two_queries (two_queries\<lparr>conn := (conn two_queries)\<lparr>cursors_to_close := []\<rparr>\<rparr>)"
  proof
    fix e
    assume "execute_plan default_limits big_batch (conn two_queries) = (Inl e, (conn two_queries)\<lparr>cursors_to_close := []\<rparr>)"
    from exec_refused [OF _ this] show ?thesis by (simp add: big_batch_def query_of_def)
  qed
  from reachable_step [OF reachable_step [OF two_queries_reachable this] released [where cursor_id = 1]]
  show ?thesis by (simp add: refused_batch_def)
qed

text \<open>
  C39. Leaks: two reachable sessions leave a cursor open at the server that the client has forgotten. When
  a second execute of a busy statement fails, its cached cursor is dropped without being queued for
  closing; when an execute is refused by a limit, the closes already taken from the queue are lost.
\<close>

theorem cursors_leak:
  "reachable (session_init 1) (session_step default_limits) failed_copy \<and> leaked 1 failed_copy \<and>
   reachable (session_init 1) (session_step default_limits) refused_batch \<and> leaked 1 refused_batch"
proof (intro conjI)
  show "leaked 1 failed_copy"
    by (simp add: leaked_def failed_copy_def execute_failed_def close_cursor_def statement_cache_invalidate_def
        release_cursor_def use_cache_def query_of_def one_query_state vec_remove_def cached_ids_def)
  show "leaked 1 refused_batch"
    by (simp add: leaked_def refused_batch_def release_cursor_def two_queries_state cached_ids_def)
qed (rule failed_copy_reachable refused_batch_reachable)+

text \<open>An execute outside the cache takes a cached cursor even when it is in use.\<close>

lemma uncached_takes_busy:
  "fst (execute_select (query_of ''a''\<lparr>rq_cache := False\<rparr>) (conn one_query)) = 1 \<and> 1 \<in> in_use_cursors (conn one_query)"
  by (simp add: execute_select_def query_of_def use_cache_def statement_cache_take_def one_query_state
      bind_shape_is_compatible_def)

end
