(* ===== verification/Batch_Windows.thy ===== *)
theory Batch_Windows
  imports Refinement
begin

text \<open>
  The two batch managers: \<^verbatim>\<open>ExecutemanyManager\<close> (\<^verbatim>\<open>crates/oracledb/src/cursor_logic.rs\<close>) and
  \<^verbatim>\<open>BatchLoadState\<close> (\<^verbatim>\<open>crates/oracledb-protocol/src/dpl.rs\<close>). Both cut a chunked source of rows into
  batches for the server; the lemmas show that both follow the same abstract plan.
\<close>

definition u32_max :: nat where "u32_max = 2 ^ 32 - 1"

subsection \<open>ExecutemanyManager\<close>

datatype executemany_manager_error = ZeroBatchSize | RowCountOverflow

record executemany_manager =
  em_total_rows :: nat
  em_batch_size :: nat
  em_num_rows :: nat
  em_message_offset :: nat
  em_chunk_ends :: "nat list"

definition saturating_add_u32 :: "nat \<Rightarrow> nat \<Rightarrow> nat" where
  "saturating_add_u32 a b = min (a + b) u32_max"

definition batch_len_from :: "executemany_manager \<Rightarrow> nat \<Rightarrow> nat" where
  "batch_len_from m offset =
     (let remaining = em_total_rows m - offset;
          len = min remaining (em_batch_size m)
      in case find (\<lambda>e. e > offset) (em_chunk_ends m) of
           Some next_end \<Rightarrow> min len (next_end - offset)
         | None \<Rightarrow> len)"

fun accumulate_ends :: "nat \<Rightarrow> nat list \<Rightarrow> executemany_manager_error + nat list" where
  "accumulate_ends acc [] = Inr []"
| "accumulate_ends acc (len # lens) =
     (if len > u32_max then Inl RowCountOverflow
      else let acc = saturating_add_u32 acc len
           in ebind (accumulate_ends acc lens) (\<lambda>ends. Inr (acc # ends)))"

definition with_chunks :: "nat \<Rightarrow> nat \<Rightarrow> nat list \<Rightarrow> executemany_manager_error + executemany_manager" where
  "with_chunks total_rows batch_size chunk_lengths =
     (if total_rows > u32_max then Inl RowCountOverflow
      else if batch_size = 0 then Inl ZeroBatchSize
      else ebind (accumulate_ends 0 chunk_lengths) (\<lambda>chunk_ends.
        let manager = \<lparr>em_total_rows = total_rows, em_batch_size = batch_size, em_num_rows = 0,
                       em_message_offset = 0, em_chunk_ends = chunk_ends\<rparr>
        in Inr (manager\<lparr>em_num_rows := batch_len_from manager 0\<rparr>)))"

definition new_manager :: "nat \<Rightarrow> nat \<Rightarrow> executemany_manager_error + executemany_manager" where
  "new_manager total_rows batch_size = with_chunks total_rows batch_size []"

definition em_next_batch :: "executemany_manager \<Rightarrow> executemany_manager" where
  "em_next_batch m =
     (let m = m\<lparr>em_message_offset := saturating_add_u32 (em_message_offset m) (em_num_rows m)\<rparr>
      in m\<lparr>em_num_rows := batch_len_from m (em_message_offset m)\<rparr>)"

subsection \<open>BatchLoadState\<close>

record batch_load_state =
  bl_chunk_lengths :: "nat list"
  bl_batch_size :: nat
  bl_chunk_index :: nat
  bl_offset :: nat
  bl_message_offset :: nat
  bl_num_rows :: nat

definition rows_in_current_chunk :: "batch_load_state \<Rightarrow> nat" where
  "rows_in_current_chunk s =
     (if bl_chunk_index s < length (bl_chunk_lengths s) then bl_chunk_lengths s ! bl_chunk_index s else 0)"

definition calculate_num_rows_in_batch :: "batch_load_state \<Rightarrow> batch_load_state" where
  "calculate_num_rows_in_batch s =
     (let remaining = rows_in_current_chunk s - bl_offset s;
          rows = min remaining (bl_batch_size s)
      in s\<lparr>bl_num_rows := (if rows \<le> u32_max then rows else 0)\<rparr>)"

function advance_chunk :: "batch_load_state \<Rightarrow> batch_load_state" where
  "advance_chunk s =
     (if bl_chunk_index s + 1 < length (bl_chunk_lengths s) then
        let s = calculate_num_rows_in_batch
                  (s\<lparr>bl_offset := 0, bl_message_offset := 0, bl_chunk_index := bl_chunk_index s + 1\<rparr>)
        in if bl_num_rows s > 0 then s else advance_chunk s
      else s)"
  by pat_completeness auto
termination
  by (relation "measure (\<lambda>s. length (bl_chunk_lengths s) - bl_chunk_index s)")
     (auto simp: calculate_num_rows_in_batch_def Let_def)

declare advance_chunk.simps [simp del]

definition advance_batch :: "batch_load_state \<Rightarrow> batch_load_state" where
  "advance_batch s =
     (let s = calculate_num_rows_in_batch (s\<lparr>bl_message_offset := bl_offset s\<rparr>)
      in if bl_num_rows s = 0 then advance_chunk s else s)"

definition new_batch_load :: "nat list \<Rightarrow> nat \<Rightarrow> batch_load_state res" where
  "new_batch_load chunk_lengths batch_size =
     (if batch_size = 0 then Inl (TtcDecode ''batch_size must be a positive integer'')
      else Inr (advance_batch \<lparr>bl_chunk_lengths = chunk_lengths, bl_batch_size = batch_size, bl_chunk_index = 0,
                               bl_offset = 0, bl_message_offset = 0, bl_num_rows = 0\<rparr>))"

definition for_rows :: "nat \<Rightarrow> nat \<Rightarrow> batch_load_state res" where
  "for_rows total_rows batch_size = new_batch_load [total_rows] batch_size"

definition bl_is_done :: "batch_load_state \<Rightarrow> bool" where
  "bl_is_done s \<longleftrightarrow> bl_num_rows s = 0"

definition bl_next_batch :: "batch_load_state \<Rightarrow> batch_load_state" where
  "bl_next_batch s = advance_batch (s\<lparr>bl_offset := bl_offset s + bl_num_rows s\<rparr>)"

subsection \<open>The plan\<close>

text \<open>Cutting a run of rows, and a sequence of chunks, into batches of at most \<open>b\<close> rows.\<close>

function cut_rows :: "nat \<Rightarrow> nat \<Rightarrow> nat \<Rightarrow> (nat \<times> nat) list" where
  "cut_rows b start len = (if len = 0 \<or> b = 0 then [] else (start, min b len) # cut_rows b (start + min b len) (len - min b len))"
  by pat_completeness auto
termination
  by (relation "measure (\<lambda>(b, start, len). len)") auto

declare cut_rows.simps [simp del]

lemma cut_rows_0 [simp]: "cut_rows b start 0 = []"
  by (simp add: cut_rows.simps)

fun plan :: "nat \<Rightarrow> nat \<Rightarrow> nat list \<Rightarrow> (nat \<times> nat) list" where
  "plan b start [] = []"
| "plan b start (len # lens) = cut_rows b start len @ plan b (start + len) lens"

text \<open>The batches a caller sees: offset and size of each until a batch is empty.\<close>

function windows :: "executemany_manager \<Rightarrow> (nat \<times> nat) list" where
  "windows m =
     (if em_num_rows m = 0 \<or> em_total_rows m > u32_max then []
      else (em_message_offset m, em_num_rows m) # windows (em_next_batch m))"
  by pat_completeness auto
termination
proof (relation "measures [\<lambda>m. if em_num_rows m = 0 then 0 else 1, \<lambda>m. em_total_rows m - em_message_offset m]")
  fix m :: executemany_manager
  assume "\<not> (em_num_rows m = 0 \<or> em_total_rows m > u32_max)"
  then show "(em_next_batch m, m)
    \<in> measures [\<lambda>m. if em_num_rows m = 0 then 0 else 1, \<lambda>m. em_total_rows m - em_message_offset m]"
    by (auto simp: em_next_batch_def batch_len_from_def Let_def saturating_add_u32_def min_def split: option.splits)
qed auto

declare windows.simps [simp del]

lemma calculate_fields [simp]:
  "bl_chunk_lengths (calculate_num_rows_in_batch s) = bl_chunk_lengths s"
  "bl_batch_size (calculate_num_rows_in_batch s) = bl_batch_size s"
  "bl_chunk_index (calculate_num_rows_in_batch s) = bl_chunk_index s"
  "bl_offset (calculate_num_rows_in_batch s) = bl_offset s"
  "bl_message_offset (calculate_num_rows_in_batch s) = bl_message_offset s"
  by (simp_all add: calculate_num_rows_in_batch_def Let_def)

lemma advance_chunk_moves:
  "bl_chunk_lengths (advance_chunk s) = bl_chunk_lengths s \<and>
   (advance_chunk s = s \<or> bl_chunk_index s < bl_chunk_index (advance_chunk s) \<and>
      bl_chunk_index (advance_chunk s) < length (bl_chunk_lengths s))"
proof (induction s rule: advance_chunk.induct)
  case (1 s)
  let ?s = "calculate_num_rows_in_batch (s\<lparr>bl_offset := 0, bl_message_offset := 0, bl_chunk_index := bl_chunk_index s + 1\<rparr>)"
  show ?case
  proof (cases "bl_chunk_index s + 1 < length (bl_chunk_lengths s) \<and> bl_num_rows ?s = 0")
    case True
    then show ?thesis using 1 [OF _ refl] by (subst (1 2 3 4) advance_chunk.simps) (auto simp: Let_def)
  next
    case False
    then show ?thesis by (subst (1 2 3 4) advance_chunk.simps) (auto simp: Let_def)
  qed
qed

function batches :: "batch_load_state \<Rightarrow> (nat \<times> nat \<times> nat) list" where
  "batches s =
     (if bl_num_rows s = 0 then []
      else (bl_chunk_index s, bl_message_offset s, bl_num_rows s) # batches (bl_next_batch s))"
  by pat_completeness auto
termination
proof (relation "measures [\<lambda>s. if bl_num_rows s = 0 then 0 else 1,
    \<lambda>s. length (bl_chunk_lengths s) - bl_chunk_index s, \<lambda>s. rows_in_current_chunk s - bl_offset s]")
  fix s :: batch_load_state
  assume n: "bl_num_rows s \<noteq> 0"
  let ?t = "calculate_num_rows_in_batch (s\<lparr>bl_offset := bl_offset s + bl_num_rows s, bl_message_offset := bl_offset s + bl_num_rows s\<rparr>)"
  have next_eq: "bl_next_batch s = (if bl_num_rows ?t = 0 then advance_chunk ?t else ?t)"
    by (simp add: bl_next_batch_def advance_batch_def Let_def)
  show "(bl_next_batch s, s) \<in> measures [\<lambda>s. if bl_num_rows s = 0 then 0 else 1,
    \<lambda>s. length (bl_chunk_lengths s) - bl_chunk_index s, \<lambda>s. rows_in_current_chunk s - bl_offset s]"
  proof (cases "bl_num_rows ?t = 0")
    case True
    then show ?thesis using n advance_chunk_moves [of ?t] by (auto simp: next_eq)
  next
    case False
    then have "bl_offset s + bl_num_rows s < rows_in_current_chunk s"
      by (auto simp: calculate_num_rows_in_batch_def Let_def rows_in_current_chunk_def split: if_splits)
    moreover have "rows_in_current_chunk ?t = rows_in_current_chunk s" by (simp add: rows_in_current_chunk_def)
    ultimately show ?thesis using n False by (simp add: next_eq)
  qed
qed auto

declare batches.simps [simp del]

subsection \<open>Both managers follow the plan\<close>

lemma advance_chunk_batch:
  "advance_chunk s =
     (if bl_chunk_index s + 1 < length (bl_chunk_lengths s)
      then advance_batch (s\<lparr>bl_offset := 0, bl_chunk_index := bl_chunk_index s + 1\<rparr>) else s)"
  by (cases s) (subst advance_chunk.simps, simp add: advance_batch_def Let_def)

fun tagged_plan :: "nat \<Rightarrow> nat \<Rightarrow> nat list \<Rightarrow> (nat \<times> nat \<times> nat) list" where
  "tagged_plan b k [] = []"
| "tagged_plan b k (len # lens) = map (Pair k) (cut_rows b 0 len) @ tagged_plan b (Suc k) lens"

definition load_state :: "nat list \<Rightarrow> nat \<Rightarrow> nat \<Rightarrow> nat \<Rightarrow> nat \<Rightarrow> nat \<Rightarrow> batch_load_state" where
  "load_state lens b k off mo n =
     \<lparr>bl_chunk_lengths = lens, bl_batch_size = b, bl_chunk_index = k, bl_offset = off, bl_message_offset = mo,
      bl_num_rows = n\<rparr>"

lemma advance_load_state:
  assumes "b \<le> u32_max" "k < length lens"
  shows "advance_batch (load_state lens b k off mo n) =
    (if lens ! k \<le> off \<or> b = 0
     then if Suc k < length lens then advance_batch (load_state lens b (Suc k) 0 off 0)
          else load_state lens b k off off 0
     else load_state lens b k off off (min (lens ! k - off) b))"
proof -
  let ?n = "min (lens ! k - off) b"
  have "calculate_num_rows_in_batch (load_state lens b k off off n) = load_state lens b k off off ?n"
    using assms by (simp add: calculate_num_rows_in_batch_def rows_in_current_chunk_def load_state_def Let_def)
  then have "advance_batch (load_state lens b k off mo n) =
      (if ?n = 0 then advance_chunk (load_state lens b k off off ?n) else load_state lens b k off off ?n)"
    by (cases "?n = 0") (auto simp: advance_batch_def load_state_def Let_def min_def)
  then show ?thesis
    by (cases "?n = 0") (auto simp: advance_chunk_batch load_state_def)
qed

lemma batches_follow_plan:
  assumes "0 < b" "b \<le> u32_max" "k < length lens"
  shows "batches (advance_batch (load_state lens b k off mo n)) =
    map (Pair k) (cut_rows b off (lens ! k - off)) @ tagged_plan b (Suc k) (drop (Suc k) lens)"
  using assms(3)
proof (induction "length lens - k" arbitrary: k off mo n rule: less_induct)
  case less
  note outer = less.hyps and k = less.prems
  show ?case
  proof (induction "lens ! k - off" arbitrary: off mo n rule: less_induct)
    case less
    note inner = less.hyps
    show ?case
    proof (cases "lens ! k \<le> off")
      case True
      have "batches (advance_batch (load_state lens b (Suc k) 0 off 0)) =
          map (Pair (Suc k)) (cut_rows b 0 (lens ! Suc k)) @ tagged_plan b (Suc (Suc k)) (drop (Suc (Suc k)) lens)"
        if "Suc k < length lens" using outer [of "Suc k" 0 off 0] that k by simp
      note rest = this
      show ?thesis
      proof (cases "Suc k < length lens")
        case last: True
        then have d: "drop (Suc k) lens = lens ! Suc k # drop (Suc (Suc k)) lens" by (simp only: Cons_nth_drop_Suc)
        show ?thesis using True last k rest by (simp add: advance_load_state [OF assms(2) k] d del: drop_Suc_Cons)
      next
        case False
        then show ?thesis using True by (simp add: advance_load_state [OF assms(2) k] batches.simps [of "load_state lens b k off off 0"]) (simp add: load_state_def)
      qed
    next
      case False
      let ?n = "min (lens ! k - off) b"
      have step: "bl_next_batch (load_state lens b k off off ?n) = advance_batch (load_state lens b k (off + ?n) off ?n)"
        by (simp add: load_state_def bl_next_batch_def)
      have nz: "?n \<noteq> 0" using False assms(1) by simp
      have "advance_batch (load_state lens b k off mo n) = load_state lens b k off off ?n"
        using False assms k by (simp add: advance_load_state)
      then have "batches (advance_batch (load_state lens b k off mo n)) =
          (k, off, ?n) # batches (advance_batch (load_state lens b k (off + ?n) off ?n))"
        using nz batches.simps [of "load_state lens b k off off ?n"] by (simp only: step) (simp add: load_state_def)
      then show ?thesis
        using inner [of "off + ?n" off ?n] False assms(1)
        by (simp add: cut_rows.simps [of b off "lens ! k - off"] min.commute)
    qed
  qed
qed

fun ends_from :: "nat \<Rightarrow> nat list \<Rightarrow> nat list" where
  "ends_from acc [] = []"
| "ends_from acc (len # lens) = (acc + len) # ends_from (acc + len) lens"

lemma accumulate_ends_from:
  "acc + sum_list lens \<le> u32_max \<Longrightarrow> accumulate_ends acc lens = Inr (ends_from acc lens)"
  by (induction lens arbitrary: acc) (simp_all add: saturating_add_u32_def Let_def)

definition manager_at :: "nat \<Rightarrow> nat \<Rightarrow> nat list \<Rightarrow> nat \<Rightarrow> executemany_manager" where
  "manager_at rows b ends off =
     (let m = \<lparr>em_total_rows = rows, em_batch_size = b, em_num_rows = 0, em_message_offset = off, em_chunk_ends = ends\<rparr>
      in m\<lparr>em_num_rows := batch_len_from m off\<rparr>)"

lemma manager_at_fields [simp]:
  "em_total_rows (manager_at rows b ends off) = rows" "em_message_offset (manager_at rows b ends off) = off"
  by (simp_all add: manager_at_def Let_def)

lemma batch_len_from_fields [simp]:
  "batch_len_from (m\<lparr>em_num_rows := n\<rparr>) off = batch_len_from m off"
  "batch_len_from (m\<lparr>em_message_offset := mo\<rparr>) off = batch_len_from m off"
  by (simp_all add: batch_len_from_def)

lemma manager_at_next:
  assumes "off + em_num_rows (manager_at rows b ends off) \<le> u32_max"
  shows "em_next_batch (manager_at rows b ends off) = manager_at rows b ends (off + em_num_rows (manager_at rows b ends off))"
proof -
  define m where "m = \<lparr>em_total_rows = rows, em_batch_size = b, em_num_rows = 0, em_message_offset = off, em_chunk_ends = ends\<rparr>"
  have "manager_at rows b ends o' = m\<lparr>em_message_offset := o', em_num_rows := batch_len_from m o'\<rparr>" for o'
    using batch_len_from_fields(2) [of o' m o'] by (simp add: manager_at_def m_def)
  then show ?thesis
    using assms by (simp add: em_next_batch_def Let_def saturating_add_u32_def)
qed

lemma find_skip: "\<forall>e\<in>set pre. e \<le> off \<Longrightarrow> find (\<lambda>e. e > off) (pre @ es) = find (\<lambda>e. e > off) es" for off :: nat
  by (induction pre) auto

text \<open>A manager \<open>d\<close> rows into a chunk of \<open>l\<close> rows that starts at \<open>start\<close>, with \<open>ls\<close> the chunks after it.\<close>

definition placed :: "nat \<Rightarrow> nat list \<Rightarrow> nat \<Rightarrow> nat \<Rightarrow> nat list \<Rightarrow> bool" where
  "placed rows ends start l ls \<longleftrightarrow> rows = start + l + sum_list ls \<and>
     (ends = [] \<and> ls = [] \<or> (\<exists>pre. ends = pre @ ends_from start (l # ls) \<and> (\<forall>e\<in>set pre. e \<le> start)))"

lemma placed_next: "placed rows ends start l (l' # ls) \<Longrightarrow> placed rows ends (start + l) l' ls"
  unfolding placed_def by (auto intro!: exI [of _ "_ @ [start + l]"] simp: trans_le_add1)

lemma placed_rows:
  assumes "placed rows ends start l ls" "d < l"
  shows "em_num_rows (manager_at rows b ends (start + d)) = min b (l - d)"
proof (cases "ends = []")
  case True
  then have "ls = []" using assms(1) by (auto simp: placed_def)
  then show ?thesis
    using assms True by (simp add: manager_at_def batch_len_from_def Let_def placed_def min.commute)
next
  case False
  then obtain pre where pre: "ends = pre @ ends_from start (l # ls)" "\<forall>e\<in>set pre. e \<le> start"
    using assms(1) by (auto simp: placed_def)
  then have "find (\<lambda>e. e > start + d) ends = Some (start + l)" using assms(2) by (simp add: find_skip trans_le_add1)
  then show ?thesis
    using assms by (simp add: manager_at_def batch_len_from_def Let_def placed_def)
qed

lemma windows_chunk:
  assumes "placed rows ends start l ls" "d \<le> l" "0 < b" "rows \<le> u32_max"
  shows "windows (manager_at rows b ends (start + d)) =
    cut_rows b (start + d) (l - d) @ windows (manager_at rows b ends (start + l))"
  using assms(2)
proof (induction "l - d" arbitrary: d rule: less_induct)
  case less
  show ?case
  proof (cases "d < l")
    case True
    note n = placed_rows [OF assms(1) True, of b]
    have "start + d + min b (l - d) \<le> start + l" using True by simp
    also have "\<dots> \<le> u32_max" using assms(1,4) by (auto simp: placed_def)
    finally have "start + d + min b (l - d) \<le> u32_max" .
    then have "windows (manager_at rows b ends (start + d)) =
        (start + d, min b (l - d)) # windows (manager_at rows b ends (start + (d + min b (l - d))))"
      using n True assms(3,4) by (subst windows.simps) (simp add: manager_at_next add.assoc)
    then show ?thesis
      using less.hyps [of "d + min b (l - d)"] True assms(3)
      by (simp add: cut_rows.simps [of b "start + d" "l - d"] add.assoc)
  qed (use less.prems in simp)
qed

lemma windows_follow_plan:
  assumes "placed rows ends start l ls" "0 < b" "rows \<le> u32_max"
  shows "windows (manager_at rows b ends start) = plan b start (l # ls)"
  using assms(1)
proof (induction ls arbitrary: start l)
  case Nil
  have "em_num_rows (manager_at rows b ends (start + l)) = 0"
    using Nil by (auto simp: manager_at_def batch_len_from_def Let_def placed_def split: option.splits)
  then have "windows (manager_at rows b ends (start + l)) = []" by (subst windows.simps) simp
  then show ?case using windows_chunk [OF Nil, of 0] assms(2,3) by simp
next
  case (Cons l' ls)
  then show ?case using windows_chunk [OF Cons.prems, of 0] placed_next [OF Cons.prems] assms(2,3) by simp
qed

lemma cut_rows_shift: "map (\<lambda>(off, n). (s + off, n)) (cut_rows b start len) = cut_rows b (s + start) len"
proof (induction b start len rule: cut_rows.induct)
  case (1 b start len)
  then show ?case by (simp add: cut_rows.simps [of b start] cut_rows.simps [of b "s + start"] add.assoc)
qed

definition absolute :: "nat list \<Rightarrow> nat \<times> nat \<times> nat \<Rightarrow> nat \<times> nat" where
  "absolute lens = (\<lambda>(k, off, n). (sum_list (take k lens) + off, n))"

lemma tagged_plan_plan:
  "map (absolute (pre @ lens)) (tagged_plan b (length pre) lens) = plan b (sum_list pre) lens"
proof (induction lens arbitrary: pre)
  case (Cons len lens)
  have "map (absolute (pre @ len # lens) \<circ> Pair (length pre)) (cut_rows b 0 len) = cut_rows b (sum_list pre) len"
    using cut_rows_shift [of "sum_list pre" b 0 len] by (simp add: absolute_def comp_def)
  then show ?case using Cons [of "pre @ [len]"] by simp
qed simp

subsection \<open>The plan covers the rows\<close>

definition batch_rows :: "nat \<times> nat \<Rightarrow> nat list" where
  "batch_rows = (\<lambda>(off, n). [off..<off + n])"

lemma cut_rows_covers: "0 < b \<Longrightarrow> concat (map batch_rows (cut_rows b start len)) = [start..<start + len]"
proof (induction b start len rule: cut_rows.induct)
  case (1 b start len)
  show ?case
  proof (cases "len = 0")
    case False
    have "[start..<start + len] = [start..<start + min b len] @ [start + min b len..<start + len]"
      by (metis le_add1 le_add_diff_inverse add_left_mono min.cobounded2 upt_add_eq_append)
    then show ?thesis
      using 1 False by (subst cut_rows.simps) (simp add: batch_rows_def)
  qed simp
qed

lemma plan_covers: "0 < b \<Longrightarrow> concat (map batch_rows (plan b start lens)) = [start..<start + sum_list lens]"
proof (induction lens arbitrary: start)
  case (Cons len lens)
  then show ?case
    using upt_add_eq_append [of start "start + len" "sum_list lens"] by (simp add: cut_rows_covers add.assoc)
qed simp

lemma cut_rows_sizes:
  "(off, n) \<in> set (cut_rows b start len) \<Longrightarrow> 0 < n \<and> n \<le> b \<and> start \<le> off \<and> off + n \<le> start + len"
proof (induction b start len rule: cut_rows.induct)
  case (1 b start len)
  show ?case
  proof (cases "len = 0 \<or> b = 0")
    case True
    then show ?thesis using 1(2) by (auto simp: cut_rows.simps [of b start])
  next
    case False
    then consider "off = start" "n = min b len" | "(off, n) \<in> set (cut_rows b (start + min b len) (len - min b len))"
      using 1(2) by (auto simp: cut_rows.simps [of b start])
    then show ?thesis using 1(1) [OF False] False by cases (auto simp: min_def split: if_splits)
  qed
qed

lemma plan_batch:
  "(off, n) \<in> set (plan b start lens) \<Longrightarrow>
   0 < n \<and> n \<le> b \<and> (\<exists>k<length lens. start + sum_list (take k lens) \<le> off \<and> off + n \<le> start + sum_list (take (Suc k) lens))"
proof (induction lens arbitrary: start)
  case (Cons len lens)
  from Cons.prems consider "(off, n) \<in> set (cut_rows b start len)" | "(off, n) \<in> set (plan b (start + len) lens)" by auto
  then show ?case
  proof cases
    case 1
    then show ?thesis using cut_rows_sizes [OF 1] by (intro conjI exI [of _ 0]) auto
  next
    case 2
    then obtain k where "k < length lens" "start + len + sum_list (take k lens) \<le> off"
        "off + n \<le> start + len + sum_list (take (Suc k) lens)" "0 < n" "n \<le> b"
      using Cons.IH [of "start + len"] by auto
    then show ?thesis by (intro conjI exI [of _ "Suc k"]) (auto simp: add.assoc)
  qed
qed simp

text \<open>
  C12. Batches: over the same chunks the manager of \<^verbatim>\<open>executemany\<close> and the state of a direct path load give
  the caller the same batches, those of the plan that cuts each chunk into pieces of at most the batch size.
\<close>

theorem batch_managers_refine_plan:
  assumes "0 < b" "b \<le> u32_max" "lens \<noteq> []" "sum_list lens \<le> u32_max"
  shows "\<exists>m s. with_chunks (sum_list lens) b lens = Inr m \<and> new_batch_load lens b = Inr s \<and>
    windows m = plan b 0 lens \<and> map (absolute lens) (batches s) = plan b 0 lens"
proof -
  obtain l ls where lens: "lens = l # ls" using assms(3) by (cases lens) auto
  let ?m = "manager_at (sum_list lens) b (ends_from 0 lens) 0" and ?s = "advance_batch (load_state lens b 0 0 0 0)"
  have "with_chunks (sum_list lens) b lens = Inr ?m"
    using assms accumulate_ends_from [of 0 lens] by (simp add: with_chunks_def manager_at_def)
  moreover have "placed (sum_list lens) (ends_from 0 lens) 0 l ls" by (simp add: placed_def lens)
  then have "windows ?m = plan b 0 lens" using windows_follow_plan [of _ _ 0 l ls b] assms by (simp add: lens)
  moreover have "new_batch_load lens b = Inr ?s" using assms(1) by (simp add: new_batch_load_def load_state_def)
  moreover have "batches ?s = tagged_plan b 0 lens"
    using batches_follow_plan [OF assms(1,2), of 0 lens 0 0 0] by (simp add: lens)
  then have "map (absolute lens) (batches ?s) = plan b 0 lens" using tagged_plan_plan [of "[]" lens b] by simp
  ultimately show ?thesis by blast
qed

theorem batch_managers_refine_plan_witness:
  "\<exists>m. with_chunks 5 2 [3, 0, 2] = Inr m \<and> windows m = plan 2 0 [3, 0, 2]"
  using batch_managers_refine_plan [of 2 "[3, 0, 2]"] by (auto simp: u32_max_def)

text \<open>
  Row coverage: an \<^verbatim>\<open>executemany\<close> sends every row exactly once and in order; no batch is empty, larger
  than the batch size or across a chunk boundary.
\<close>

theorem executemany_covers_rows:
  assumes "0 < b" "lens \<noteq> []" "sum_list lens \<le> u32_max" "with_chunks (sum_list lens) b lens = Inr m"
  shows "concat (map batch_rows (windows m)) = [0..<sum_list lens] \<and>
    list_all (\<lambda>(off, n). 0 < n \<and> n \<le> b \<and>
       (\<exists>k<length lens. sum_list (take k lens) \<le> off \<and> off + n \<le> sum_list (take (Suc k) lens))) (windows m)"
proof -
  obtain l ls where lens: "lens = l # ls" using assms(2) by (cases lens) auto
  have "m = manager_at (sum_list lens) b (ends_from 0 lens) 0"
    using assms accumulate_ends_from [of 0 lens] by (simp add: with_chunks_def manager_at_def)
  moreover have "placed (sum_list lens) (ends_from 0 lens) 0 l ls" by (simp add: placed_def lens)
  ultimately have w: "windows m = plan b 0 lens" using windows_follow_plan [of _ _ 0 l ls b] assms by (simp add: lens)
  have "concat (map batch_rows (windows m)) = [0..<sum_list lens]" using plan_covers [OF assms(1), of 0] by (simp add: w)
  moreover have "list_all (\<lambda>(off, n). 0 < n \<and> n \<le> b \<and>
       (\<exists>k<length lens. sum_list (take k lens) \<le> off \<and> off + n \<le> sum_list (take (Suc k) lens))) (windows m)"
    using plan_batch [of _ _ b 0 lens] by (auto simp: w list_all_iff)
  ultimately show ?thesis ..
qed

theorem executemany_covers_rows_witness:
  "\<exists>m. with_chunks 5 2 [3, 0, 2] = Inr m \<and> concat (map batch_rows (windows m)) = [0..<5]"
proof -
  have "\<exists>m. with_chunks 5 2 [3, 0, 2] = Inr m"
    by (simp add: with_chunks_def saturating_add_u32_def u32_max_def)
  then show ?thesis using executemany_covers_rows [of 2 "[3, 0, 2]"] by (auto simp: u32_max_def)
qed

text \<open>The manager without chunks cuts one run.\<close>

lemma new_manager_plan:
  assumes "0 < b" "n \<le> u32_max"
  shows "\<exists>m. new_manager n b = Inr m \<and> windows m = plan b 0 [n]"
proof -
  have "placed n [] 0 n []" by (simp add: placed_def)
  from windows_follow_plan [OF this assms] show ?thesis
    using assms by (simp add: new_manager_def with_chunks_def manager_at_def)
qed

text \<open>Refusals.\<close>

lemma with_chunks_refuses:
  "u32_max < n \<Longrightarrow> with_chunks n b lens = Inl RowCountOverflow"
  "n \<le> u32_max \<Longrightarrow> with_chunks n 0 lens = Inl ZeroBatchSize"
  by (simp_all add: with_chunks_def)

end
