(* ===== verification/Sql_Scan.thy ===== *)
theory Sql_Scan
  imports Driver_Prelude "HOL-Library.Sublist"
begin

text \<open>
  The statement scanner (\<^verbatim>\<open>crates/oracledb-protocol/src/sql.rs\<close>): bind names outside literals, quoted
  names and comments, statement classification, PL/SQL output binds, and the rewriting of placeholders.
  Statements are ASCII text, where the byte and character positions of the source coincide; a position is
  the text that is left from it, or its distance from the start where the source slices by it.
\<close>

subsection \<open>Characters\<close>

definition code :: "char \<Rightarrow> nat" where "code c = of_char c"

definition is_ascii_digit :: "char \<Rightarrow> bool" where
  "is_ascii_digit c \<longleftrightarrow> 48 \<le> code c \<and> code c \<le> 57"

definition is_ascii_alphabetic :: "char \<Rightarrow> bool" where
  "is_ascii_alphabetic c \<longleftrightarrow> 65 \<le> code c \<and> code c \<le> 90 \<or> 97 \<le> code c \<and> code c \<le> 122"

definition is_ascii_alphanumeric :: "char \<Rightarrow> bool" where
  "is_ascii_alphanumeric c \<longleftrightarrow> is_ascii_alphabetic c \<or> is_ascii_digit c"

text \<open>\<^verbatim>\<open>char::is_whitespace\<close> and \<^verbatim>\<open>u8::is_ascii_whitespace\<close> differ on the vertical tab.\<close>

definition is_whitespace :: "char \<Rightarrow> bool" where
  "is_whitespace c \<longleftrightarrow> 9 \<le> code c \<and> code c \<le> 13 \<or> code c = 32"

definition is_byte_whitespace :: "char \<Rightarrow> bool" where
  "is_byte_whitespace c \<longleftrightarrow> code c \<in> {9, 10, 12, 13, 32}"

definition to_lower :: "char \<Rightarrow> char" where
  "to_lower c = (if 65 \<le> code c \<and> code c \<le> 90 then char_of (code c + 32) else c)"

definition to_upper :: "char \<Rightarrow> char" where
  "to_upper c = (if 97 \<le> code c \<and> code c \<le> 122 then char_of (code c - 32) else c)"

definition eq_ignore_case :: "string \<Rightarrow> string \<Rightarrow> bool" where
  "eq_ignore_case a b \<longleftrightarrow> map to_lower a = map to_lower b"

definition trim_start :: "string \<Rightarrow> string" where
  "trim_start s = dropWhile is_whitespace s"

definition trim_end :: "string \<Rightarrow> string" where
  "trim_end s = rev (dropWhile is_whitespace (rev s))"

abbreviation squote :: char where "squote \<equiv> CHR 0x27"
abbreviation dquote :: char where "dquote \<equiv> CHR 0x22"
abbreviation newline :: char where "newline \<equiv> CHR 0x0A"

text \<open>\<^verbatim>\<open>str::find\<close>: the position of the first occurrence.\<close>

fun find_text :: "string \<Rightarrow> string \<Rightarrow> nat option" where
  "find_text pat [] = (if pat = [] then Some 0 else None)"
| "find_text pat (c # cs) = (if prefix pat (c # cs) then Some 0 else map_option Suc (find_text pat cs))"

subsection \<open>Literals, comments and bind names\<close>

datatype sql_error = MissingEndingSingleQuote | MissingEndingDoubleQuote

type_synonym 'a sql_res = "sql_error + 'a"

definition is_bind_name_char :: "char \<Rightarrow> bool" where
  "is_bind_name_char c \<longleftrightarrow> is_ascii_alphanumeric c \<or> c \<in> {CHR ''_'', CHR ''$'', CHR ''#''}"

fun quoted_string_end :: "char \<Rightarrow> string \<Rightarrow> string sql_res" where
  "quoted_string_end quote [] =
     Inl (if quote = squote then MissingEndingSingleQuote else MissingEndingDoubleQuote)"
| "quoted_string_end quote [c] = (if c = quote then Inr [] else quoted_string_end quote [])"
| "quoted_string_end quote (c # d # cs) =
     (if c = quote then
        if quote = squote \<and> d = squote then quoted_string_end quote cs else Inr (d # cs)
      else quoted_string_end quote (d # cs))"

fun qstring_loop :: "char \<Rightarrow> bool \<Rightarrow> string \<Rightarrow> string sql_res" where
  "qstring_loop close_sep exiting [] = Inl MissingEndingSingleQuote"
| "qstring_loop close_sep exiting (c # cs) =
     (if \<not> exiting \<and> c = close_sep then qstring_loop close_sep True cs
      else if exiting then
        if c = squote then Inr cs else qstring_loop close_sep (c = close_sep) cs
      else qstring_loop close_sep False cs)"

definition close_sep_of :: "char \<Rightarrow> char" where
  "close_sep_of open_sep =
     (if open_sep = CHR ''['' then CHR '']''
      else if open_sep = CHR ''{'' then CHR ''}''
      else if open_sep = CHR ''<'' then CHR ''>''
      else if open_sep = CHR ''('' then CHR '')''
      else open_sep)"

fun qstring_end :: "string \<Rightarrow> string sql_res" where
  "qstring_end [] = Inl MissingEndingSingleQuote"
| "qstring_end (open_sep # cs) = qstring_loop (close_sep_of open_sep) False cs"

definition single_line_comment_end :: "string \<Rightarrow> string option" where
  "single_line_comment_end s =
     (if prefix ''--'' s then
        Some (case find_text [newline] (drop 2 s) of None \<Rightarrow> [] | Some offset \<Rightarrow> drop (2 + offset + 1) s)
      else None)"

definition multiple_line_comment_end :: "string \<Rightarrow> string option" where
  "multiple_line_comment_end s =
     (if prefix ''/*'' s then
        Some (case find_text ''*/'' (drop 2 s) of None \<Rightarrow> [] | Some offset \<Rightarrow> drop (2 + offset + 2) s)
      else None)"

text \<open>The text after a colon: what is left, and the bind name if there is one.\<close>

definition parse_bind_name :: "string \<Rightarrow> string \<times> string option" where
  "parse_bind_name after_colon =
     (case trim_start after_colon of
        [] \<Rightarrow> ([], None)
      | first_ch # cs \<Rightarrow>
          if first_ch = dquote then
            case dropWhile (\<lambda>c. c \<noteq> dquote) cs of
              [] \<Rightarrow> ([], Some (first_ch # cs))
            | _ # rest \<Rightarrow> (rest, Some (first_ch # takeWhile (\<lambda>c. c \<noteq> dquote) cs @ [dquote]))
          else if is_ascii_digit first_ch then
            (dropWhile is_ascii_digit cs, Some (first_ch # takeWhile is_ascii_digit cs))
          else if \<not> is_ascii_alphabetic first_ch then (after_colon, None)
          else (dropWhile is_bind_name_char cs, Some (first_ch # takeWhile is_bind_name_char cs)))"

lemma quoted_string_end_shorter: "quoted_string_end q cs = Inr rest \<Longrightarrow> length rest < length cs"
  by (induction q cs rule: quoted_string_end.induct) (auto split: if_splits)

lemma qstring_loop_shorter: "qstring_loop q e cs = Inr rest \<Longrightarrow> length rest < length cs"
  by (induction q e cs rule: qstring_loop.induct) (auto split: if_splits simp: less_Suc_eq)

lemma qstring_end_shorter: "qstring_end cs = Inr rest \<Longrightarrow> length rest < length cs"
  by (cases cs) (auto dest: qstring_loop_shorter)

lemma single_line_comment_end_shorter: "single_line_comment_end (c # cs) = Some rest \<Longrightarrow> length rest \<le> length cs"
  by (auto simp: single_line_comment_end_def split: if_splits option.splits)

lemma multiple_line_comment_end_shorter: "multiple_line_comment_end (c # cs) = Some rest \<Longrightarrow> length rest \<le> length cs"
  by (auto simp: multiple_line_comment_end_def split: if_splits option.splits)

lemma parse_bind_name_shorter:
  assumes "parse_bind_name cs = (rest, name)"
  shows "length rest \<le> length cs"
proof (cases "trim_start cs")
  case (Cons c ds)
  have ds: "length ds \<le> length cs"
    using length_dropWhile_le [of is_whitespace cs] Cons by (simp add: trim_start_def)
  consider "rest = cs" | "rest = []" | P where "rest = dropWhile P ds"
    | d where "dropWhile (\<lambda>c. c \<noteq> dquote) ds = d # rest"
    using assms Cons by (auto simp: parse_bind_name_def split: list.splits if_splits)
  then show ?thesis
  proof cases
    case 3
    then show ?thesis using ds length_dropWhile_le [of P ds] by simp
  next
    case 4
    then show ?thesis using ds length_dropWhile_le [of "\<lambda>c. c \<noteq> dquote" ds] by simp
  qed simp_all
qed (use assms in \<open>simp add: parse_bind_name_def\<close>)

lemmas scan_shorter = quoted_string_end_shorter qstring_end_shorter single_line_comment_end_shorter
  multiple_line_comment_end_shorter parse_bind_name_shorter

function scan_from :: "char \<Rightarrow> bool \<Rightarrow> string \<Rightarrow> string list sql_res" where
  "scan_from last_ch last_was_string [] = Inr []"
| "scan_from last_ch last_was_string (c # cs) =
     (if c = squote then
        ebind (if last_ch = CHR ''q'' \<or> last_ch = CHR ''Q'' then qstring_end cs else quoted_string_end squote cs)
          (\<lambda>rest. scan_from c True rest)
      else if is_whitespace c then scan_from c last_was_string cs
      else if c = CHR ''-'' then
        case single_line_comment_end (c # cs) of
          Some rest \<Rightarrow> scan_from c False rest
        | None \<Rightarrow> scan_from c False cs
      else if c = CHR ''/'' then
        case multiple_line_comment_end (c # cs) of
          Some rest \<Rightarrow> scan_from c False rest
        | None \<Rightarrow> scan_from c False cs
      else if c = dquote then ebind (quoted_string_end dquote cs) (\<lambda>rest. scan_from c False rest)
      else if c = CHR '':'' \<and> \<not> last_was_string then
        let (rest, name) = parse_bind_name cs
        in ebind (scan_from c False rest) (\<lambda>names.
             Inr (case name of Some n \<Rightarrow> n # names | None \<Rightarrow> names))
      else scan_from c False cs)"
  by pat_completeness auto
termination
  by (relation "measure (\<lambda>(_, _, cs). length cs)", simp_all)
     (auto simp: less_Suc_eq_le less_imp_le dest: scan_shorter scan_shorter(5) [OF sym] split: if_splits)

definition scan_bind_names :: "string \<Rightarrow> string list sql_res" where
  "scan_bind_names statement = scan_from (CHR 0x00) False statement"

subsection \<open>Bind names\<close>

definition is_quoted_bind_name :: "string \<Rightarrow> bool" where
  "is_quoted_bind_name n \<longleftrightarrow> length n \<ge> 2 \<and> hd n = dquote \<and> last n = dquote"

definition bind_names_equal :: "string \<Rightarrow> string \<Rightarrow> bool" where
  "bind_names_equal left right =
     (if is_quoted_bind_name left \<or> is_quoted_bind_name right then left = right else eq_ignore_case left right)"

definition bind_name_matches_key :: "string \<Rightarrow> string \<Rightarrow> bool" where
  "bind_name_matches_key bind_name key0 =
     (let key = (case key0 of c # cs \<Rightarrow> if c = CHR '':'' then cs else key0 | [] \<Rightarrow> key0)
      in if is_quoted_bind_name bind_name \<or> is_quoted_bind_name key then bind_name = key
         else eq_ignore_case bind_name key)"

definition public_bind_name :: "string \<Rightarrow> string" where
  "public_bind_name n = (if is_quoted_bind_name n then butlast (tl n) else map to_upper n)"

text \<open>Names added once, in order of occurrence.\<close>

fun add_names :: "string list \<Rightarrow> string list \<Rightarrow> string list" where
  "add_names names [] = names"
| "add_names names (n # ns) =
     add_names (if list_ex (\<lambda>existing. bind_names_equal existing n) names then names else names @ [n]) ns"

definition unique_bind_names :: "string \<Rightarrow> string list sql_res" where
  "unique_bind_names statement = ebind (scan_bind_names statement) (\<lambda>names. Inr (add_names [] names))"

subsection \<open>Statement kinds\<close>

definition first_keyword :: "string \<Rightarrow> string" where
  "first_keyword statement = takeWhile is_ascii_alphabetic (trim_start statement)"

definition statement_is_plsql :: "string \<Rightarrow> bool" where
  "statement_is_plsql statement \<longleftrightarrow>
     list_ex (eq_ignore_case (first_keyword statement)) [''begin'', ''declare'', ''call'']"

definition statement_is_ddl :: "string \<Rightarrow> bool" where
  "statement_is_ddl statement \<longleftrightarrow>
     list_ex (eq_ignore_case (first_keyword statement))
       [''create'', ''alter'', ''drop'', ''grant'', ''revoke'', ''analyze'', ''audit'', ''comment'', ''truncate'']"

definition statement_is_dml :: "string \<Rightarrow> bool" where
  "statement_is_dml statement \<longleftrightarrow>
     list_ex (eq_ignore_case (first_keyword statement)) [''insert'', ''update'', ''delete'', ''merge'']"

definition bind_names_per_occurrence :: "string \<Rightarrow> string list sql_res" where
  "bind_names_per_occurrence statement =
     (if statement_is_plsql statement then unique_bind_names statement else scan_bind_names statement)"

definition plsql_function_return_bind_name :: "string \<Rightarrow> string option" where
  "plsql_function_return_bind_name statement =
     (let rest = trim_start statement
      in if length rest < 5 \<or> \<not> eq_ignore_case (take 5 rest) ''begin'' then None
         else case trim_start (drop 5 rest) of
           [] \<Rightarrow> None
         | c # rest \<Rightarrow>
             if c \<noteq> CHR '':'' then None
             else
               let name = takeWhile is_bind_name_char rest
               in if name = [] then None
                  else if prefix '':='' (trim_start (dropWhile is_bind_name_char rest)) then Some name else None)"

subsection \<open>RETURNING clauses\<close>

definition returning_bind_names :: "string \<Rightarrow> string list sql_res" where
  "returning_bind_names statement =
     (if statement_is_plsql statement then Inr []
      else
        let lower = map to_lower statement
        in case find_text ''returning'' lower of
             None \<Rightarrow> Inr []
           | Some returning_pos \<Rightarrow>
               (case find_text ''into'' (drop returning_pos lower) of
                  None \<Rightarrow> Inr []
                | Some into_relative_pos \<Rightarrow>
                    scan_bind_names (drop (returning_pos + into_relative_pos + 4) statement)))"

record dml_returning_parts =
  returning_pos :: nat
  binds_start :: nat
  return_expr :: string
  bind_names :: "string list"

definition dml_returning_projection_parts :: "string \<Rightarrow> dml_returning_parts option sql_res" where
  "dml_returning_projection_parts statement =
     (if statement_is_plsql statement then Inr None
      else
        let lower = map to_lower statement
        in case find_text ''returning'' lower of
             None \<Rightarrow> Inr None
           | Some rpos \<Rightarrow>
               (case find_text ''into'' (drop rpos lower) of
                  None \<Rightarrow> Inr None
                | Some into_relative_pos \<Rightarrow>
                    let expr_start = rpos + 9; into_start = rpos + into_relative_pos; bstart = into_start + 4;
                        expr = trim_end (trim_start (take (into_start - expr_start) (drop expr_start statement)))
                    in if CHR '','' \<in> set expr \<or> expr = [] then Inr None
                       else ebind (scan_bind_names (drop bstart statement)) (\<lambda>names.
                         Inr (Some \<lparr>returning_pos = rpos, binds_start = bstart, return_expr = expr,
                                    bind_names = names\<rparr>))))"

definition dml_returning_single_bind_name :: "string \<Rightarrow> string option sql_res" where
  "dml_returning_single_bind_name statement =
     ebind (dml_returning_projection_parts statement) (\<lambda>parts.
       case parts of
         None \<Rightarrow> Inr None
       | Some p \<Rightarrow> if length (bind_names p) = 1 then Inr (Some (hd (bind_names p))) else Inr None)"

definition rewrite_dml_returning_projection :: "string \<Rightarrow> string \<Rightarrow> string option sql_res" where
  "rewrite_dml_returning_projection statement attr_name =
     ebind (dml_returning_projection_parts statement) (\<lambda>parts.
       case parts of
         None \<Rightarrow> Inr None
       | Some p \<Rightarrow>
           if length (bind_names p) \<noteq> 1 then Inr None
           else Inr (Some (take (returning_pos p) statement @ ''returning ('' @ return_expr p @ '').'' @ attr_name @
                           '' into'' @ drop (binds_start p) statement)))"

subsection \<open>PL/SQL output binds\<close>

text \<open>The inner loop over a literal: the text after it, or nothing when it does not end.\<close>

fun skip_literal :: "string \<Rightarrow> string" where
  "skip_literal [] = []"
| "skip_literal [c] = []"
| "skip_literal (c # d # cs) =
     (if c = squote then if d = squote then skip_literal cs else d # cs else skip_literal (d # cs))"

lemma skip_literal_shorter: "length (skip_literal cs) \<le> length cs"
  by (induction cs rule: skip_literal.induct) (auto simp: le_SucI)

function assignment_loop :: "bool \<Rightarrow> string list \<Rightarrow> string \<Rightarrow> string list sql_res" where
  "assignment_loop ends_in_quote names [] = Inr names"
| "assignment_loop ends_in_quote names (c # cs) =
     (if c = squote then
        let rest = skip_literal cs
        in if rest = [] \<and> \<not> ends_in_quote then Inl MissingEndingSingleQuote
           else assignment_loop ends_in_quote names rest
      else if c = CHR '':'' then
        case cs of
          [] \<Rightarrow> Inr names
        | d # ds \<Rightarrow>
            if d = dquote \<and> dquote \<notin> set ds then assignment_loop ends_in_quote names cs
            else if d \<noteq> dquote \<and> takeWhile is_bind_name_char cs = [] then assignment_loop ends_in_quote names cs
            else
              let (name, rest) =
                    (if d = dquote then
                       (d # takeWhile (\<lambda>c. c \<noteq> dquote) ds @ [dquote], tl (dropWhile (\<lambda>c. c \<noteq> dquote) ds))
                     else (takeWhile is_bind_name_char cs, dropWhile is_bind_name_char cs));
                  after_name = dropWhile is_byte_whitespace rest
              in assignment_loop ends_in_quote
                   (if prefix '':='' after_name \<and> \<not> list_ex (\<lambda>existing. bind_names_equal existing name) names
                    then names @ [name] else names)
                   rest
      else assignment_loop ends_in_quote names cs)"
  by pat_completeness auto
termination
proof (relation "measure (\<lambda>(_, _, cs). length cs)", goal_cases)
  case (2 e names c cs rest)
  then show ?case using skip_literal_shorter [of cs] by simp
next
  case (5 e names c cs d ds p name rest after_name)
  have "length rest \<le> length cs"
    using 5(3,6,7) length_dropWhile_le [of "\<lambda>c. c \<noteq> dquote" ds] length_dropWhile_le [of is_bind_name_char cs]
    by (auto split: if_splits)
  then show ?case by simp
qed auto

definition plsql_assignment_bind_names :: "string \<Rightarrow> string list sql_res" where
  "plsql_assignment_bind_names statement =
     (if statement_is_plsql statement
      then assignment_loop (statement \<noteq> [] \<and> last statement = squote) [] statement
      else Inr [])"

definition is_ident :: "char \<Rightarrow> bool" where
  "is_ident c \<longleftrightarrow> is_ascii_alphanumeric c \<or> c = CHR ''_''"

text \<open>Whether \<open>rest\<close>, a suffix of the statement, starts with the keyword as a word of its own.\<close>

definition keyword_here :: "string \<Rightarrow> string \<Rightarrow> string \<Rightarrow> bool" where
  "keyword_here statement keyword rest \<longleftrightarrow>
     (let klen = length keyword; index = length statement - length rest
      in index + klen \<le> length statement \<and> eq_ignore_case (take klen rest) keyword \<and>
         (index = 0 \<or> \<not> is_ident (statement ! (index - 1))) \<and>
         (klen < length rest \<longrightarrow> \<not> is_ident (rest ! klen)))"

function keyword_positions_from :: "string \<Rightarrow> string \<Rightarrow> char \<Rightarrow> string \<Rightarrow> nat list sql_res" where
  "keyword_positions_from statement keyword last_ch [] = Inr []"
| "keyword_positions_from statement keyword last_ch (c # cs) =
     (if c = squote then
        ebind (if last_ch = CHR ''q'' \<or> last_ch = CHR ''Q'' then qstring_end cs else quoted_string_end squote cs)
          (\<lambda>rest. keyword_positions_from statement keyword c rest)
      else if c = dquote then
        ebind (quoted_string_end dquote cs) (\<lambda>rest. keyword_positions_from statement keyword c rest)
      else if c = CHR ''-'' then
        keyword_positions_from statement keyword c
          (case single_line_comment_end (c # cs) of Some rest \<Rightarrow> rest | None \<Rightarrow> cs)
      else if c = CHR ''/'' then
        keyword_positions_from statement keyword c
          (case multiple_line_comment_end (c # cs) of Some rest \<Rightarrow> rest | None \<Rightarrow> cs)
      else ebind (keyword_positions_from statement keyword c cs) (\<lambda>positions.
        Inr (if keyword_here statement keyword (c # cs)
             then (length statement - length (c # cs)) # positions else positions)))"
  by pat_completeness auto
termination
  by (relation "measure (\<lambda>(_, _, _, cs). length cs)", simp_all)
     (auto simp: less_Suc_eq_le less_imp_le dest: scan_shorter split: if_splits option.splits)

definition keyword_token_positions :: "string \<Rightarrow> string \<Rightarrow> nat list sql_res" where
  "keyword_token_positions statement keyword = keyword_positions_from statement keyword (CHR 0x00) statement"

fun into_names :: "string \<Rightarrow> nat list \<Rightarrow> string list \<Rightarrow> string list sql_res" where
  "into_names statement [] names = Inr names"
| "into_names statement (into_pos # ps) names =
     (let bind_text = dropWhile is_byte_whitespace (drop (into_pos + 4) statement);
          tail = map to_lower bind_text
      in if prefix '':'' bind_text then
           let end_pos = (case find_text '' from '' tail of
                            Some relative \<Rightarrow> relative
                          | None \<Rightarrow> (case find_text '';'' tail of Some relative \<Rightarrow> relative | None \<Rightarrow> length tail))
           in ebind (scan_bind_names (take end_pos bind_text)) (\<lambda>ns. into_names statement ps (add_names names ns))
         else into_names statement ps names)"

fun returning_names :: "string \<Rightarrow> nat list \<Rightarrow> nat list \<Rightarrow> string list \<Rightarrow> string list sql_res" where
  "returning_names statement into_positions [] names = Inr names"
| "returning_names statement into_positions (pos # ps) names =
     (case find (\<lambda>p. p > pos) into_positions of
        None \<Rightarrow> returning_names statement into_positions ps names
      | Some into_pos \<Rightarrow>
          let after_into = drop (into_pos + 4) statement;
              end_pos = (case find_text '';'' after_into of Some relative \<Rightarrow> relative | None \<Rightarrow> length after_into)
          in ebind (scan_bind_names (take end_pos after_into)) (\<lambda>ns.
               returning_names statement into_positions ps (add_names names ns)))"

definition plsql_output_bind_names :: "string \<Rightarrow> string list sql_res" where
  "plsql_output_bind_names statement =
     ebind (plsql_assignment_bind_names statement) (\<lambda>names.
       if \<not> statement_is_plsql statement then Inr names
       else ebind (keyword_token_positions statement ''into'') (\<lambda>into_positions.
            ebind (into_names statement into_positions names) (\<lambda>names.
            ebind (keyword_token_positions statement ''returning'') (\<lambda>returning_positions.
            returning_names statement into_positions returning_positions names))))"

subsection \<open>Rewriting\<close>

text \<open>The literal at the start of a text, and what follows it.\<close>

definition split_literal :: "string \<Rightarrow> string \<times> string" where
  "split_literal s = (let rest = skip_literal (tl s) in (take (length s - length rest) s, rest))"

definition generated_object_attr_bind_name :: "string \<Rightarrow> string \<Rightarrow> string" where
  "generated_object_attr_bind_name bind_name attr_name =
     ''ORADB_OBJ_'' @ map (\<lambda>c. if is_ascii_alphanumeric c then to_upper c else CHR ''_'') bind_name @ ''_'' @
     map to_upper attr_name"

function replace_bind_placeholder :: "string \<Rightarrow> string \<Rightarrow> string \<Rightarrow> string" where
  "replace_bind_placeholder [] bind_name replacement = []"
| "replace_bind_placeholder (c # cs) bind_name replacement =
     (if c = squote then
        let (lit, rest) = split_literal (c # cs) in lit @ replace_bind_placeholder rest bind_name replacement
      else if c = CHR '':'' \<and> takeWhile is_bind_name_char cs \<noteq> [] then
        let found_name = takeWhile is_bind_name_char cs; rest = dropWhile is_bind_name_char cs
        in (if bind_names_equal found_name bind_name then replacement else c # found_name) @
           replace_bind_placeholder rest bind_name replacement
      else c # replace_bind_placeholder cs bind_name replacement)"
  by pat_completeness auto
termination
proof (relation "measure (\<lambda>(cs, _, _). length cs)", goal_cases)
  case (2 c cs bind_name replacement p lit rest)
  then show ?case using skip_literal_shorter [of cs] by (auto simp: split_literal_def Let_def)
next
  case (3 c cs bind_name replacement found_name rest)
  then show ?case using length_dropWhile_le [of is_bind_name_char cs] by simp
qed auto

definition replace_input_bind_placeholder :: "string \<Rightarrow> string \<Rightarrow> string \<Rightarrow> string" where
  "replace_input_bind_placeholder statement bind_name replacement =
     (let split = (case find_text ''returning'' (map to_lower statement) of
                     Some pos \<Rightarrow> pos | None \<Rightarrow> length statement)
      in replace_bind_placeholder (take split statement) bind_name replacement @ drop split statement)"

definition simple_sql_identifier :: "string \<Rightarrow> string option" where
  "simple_sql_identifier v = (if list_all is_bind_name_char v then Some v else None)"

definition trim_end_char :: "char \<Rightarrow> string \<Rightarrow> string" where
  "trim_end_char c s = rev (dropWhile (\<lambda>d. d = c) (rev s))"

definition parse_alter_session_value :: "string \<Rightarrow> string \<Rightarrow> string option" where
  "parse_alter_session_value statement key =
     (let trimmed = trim_end (trim_start (trim_end_char (CHR '';'') (trim_end (trim_start statement))));
          pre = ''alter session set '' @ key
      in if \<not> prefix pre (map to_lower trimmed) then None
         else
           let v = trim_start (drop (length pre) trimmed);
               v = (case v of c # cs \<Rightarrow> if c = CHR ''='' then trim_start cs else v | [] \<Rightarrow> v);
               word = takeWhile (\<lambda>c. \<not> is_whitespace c) v;
               unquoted = trim_end_char dquote (dropWhile (\<lambda>c. c = dquote) word)
           in if unquoted = [] then None else Some unquoted)"

end
