(* ===== verification/Sql_Tokens.thy ===== *)
theory Sql_Tokens
  imports Sql_Scan
begin

text \<open>
  A statement as tokens with their text, and the scanner of \<^verbatim>\<open>Sql_Scan\<close> against it: the scanner finds the
  bind names of exactly the bind tokens, and refuses a statement that ends inside a literal.
\<close>

datatype sql_token =
    Str string
  | QStr char string
  | QuotedName string
  | LineComment string
  | BlockComment string
  | BindVar string
  | Assign
  | Sym char

fun doubled :: "string \<Rightarrow> string" where
  "doubled [] = []"
| "doubled (c # cs) = (if c = squote then [squote, squote] else [c]) @ doubled cs"

fun token_text :: "sql_token \<Rightarrow> string" where
  "token_text (Str s) = squote # doubled s @ [squote]"
| "token_text (QStr sep s) = CHR ''q'' # squote # sep # s @ [close_sep_of sep, squote]"
| "token_text (QuotedName s) = dquote # s @ [dquote]"
| "token_text (LineComment s) = ''--'' @ s @ [newline]"
| "token_text (BlockComment s) = ''/*'' @ s @ ''*/''"
| "token_text (BindVar n) = CHR '':'' # n"
| "token_text Assign = '':=''"
| "token_text (Sym c) = [c]"

definition tokens_text :: "sql_token list \<Rightarrow> string" where
  "tokens_text ts = concat (map token_text ts)"

fun token_binds :: "sql_token \<Rightarrow> string list" where
  "token_binds (BindVar n) = [n]"
| "token_binds t = []"

definition tokens_binds :: "sql_token list \<Rightarrow> string list" where
  "tokens_binds ts = concat (map token_binds ts)"

lemma tokens_simps [simp]:
  "tokens_text [] = []" "tokens_text (t # ts) = token_text t @ tokens_text ts"
  "tokens_binds [] = []" "tokens_binds (t # ts) = token_binds t @ tokens_binds ts"
  by (simp_all add: tokens_text_def tokens_binds_def)

text \<open>A bind name and the text that may follow it: an identifier, a number or a quoted name.\<close>

definition starts_with :: "(char \<Rightarrow> bool) \<Rightarrow> string \<Rightarrow> bool" where
  "starts_with P s \<longleftrightarrow> s \<noteq> [] \<and> P (hd s)"

fun bind_ok :: "string \<Rightarrow> string \<Rightarrow> bool" where
  "bind_ok [] follow = False"
| "bind_ok (c # cs) follow \<longleftrightarrow>
     is_ascii_alphabetic c \<and> list_all is_bind_name_char cs \<and> \<not> starts_with is_bind_name_char follow \<or>
     is_ascii_digit c \<and> list_all is_ascii_digit cs \<and> \<not> starts_with is_ascii_digit follow \<or>
     c = dquote \<and> cs \<noteq> [] \<and> last cs = dquote \<and> dquote \<notin> set (butlast cs)"

text \<open>
  A token after the character \<open>l\<close> and, when \<open>w\<close> holds, after a literal, before the text \<open>follow\<close>: a literal
  is not taken for a q-string nor continued by its follower, a literal does not contain its own end, and a
  colon after a literal is not a bind (it separates a JSON key from its value).
\<close>

fun token_ok :: "char \<Rightarrow> bool \<Rightarrow> sql_token \<Rightarrow> string \<Rightarrow> bool" where
  "token_ok l w (Str s) follow \<longleftrightarrow> l \<noteq> CHR ''q'' \<and> l \<noteq> CHR ''Q'' \<and> \<not> starts_with (\<lambda>c. c = squote) follow"
| "token_ok l w (QStr sep s) follow \<longleftrightarrow> sep \<noteq> squote \<and> find_text [close_sep_of sep, squote] s = None"
| "token_ok l w (QuotedName s) follow \<longleftrightarrow> dquote \<notin> set s"
| "token_ok l w (LineComment s) follow \<longleftrightarrow> newline \<notin> set s"
| "token_ok l w (BlockComment s) follow \<longleftrightarrow> find_text ''*/'' s = None"
| "token_ok l w (BindVar n) follow \<longleftrightarrow> \<not> w \<and> bind_ok n follow"
| "token_ok l w Assign follow \<longleftrightarrow> True"
| "token_ok l w (Sym c) follow \<longleftrightarrow> c \<notin> {squote, dquote, CHR '':''} \<and>
     (c = CHR ''-'' \<longrightarrow> \<not> starts_with (\<lambda>d. d = CHR ''-'') follow) \<and>
     (c = CHR ''/'' \<longrightarrow> \<not> starts_with (\<lambda>d. d = CHR ''*'') follow)"

text \<open>The character and the flag the scanner keeps after a token.\<close>

fun last_after :: "sql_token \<Rightarrow> char" where
  "last_after (Str s) = squote"
| "last_after (QStr sep s) = squote"
| "last_after (QuotedName s) = dquote"
| "last_after (LineComment s) = CHR ''-''"
| "last_after (BlockComment s) = CHR ''/''"
| "last_after (BindVar n) = CHR '':''"
| "last_after Assign = CHR ''=''"
| "last_after (Sym c) = c"

fun literal_after :: "bool \<Rightarrow> sql_token \<Rightarrow> bool" where
  "literal_after w (Str s) = True"
| "literal_after w (QStr sep s) = True"
| "literal_after w (Sym c) = (w \<and> is_whitespace c)"
| "literal_after w t = False"

fun tokens_ok :: "char \<Rightarrow> bool \<Rightarrow> sql_token list \<Rightarrow> string \<Rightarrow> bool" where
  "tokens_ok l w [] follow = True"
| "tokens_ok l w (t # ts) follow \<longleftrightarrow>
     token_ok l w t (tokens_text ts @ follow) \<and> tokens_ok (last_after t) (literal_after w t) ts follow"

fun last_of :: "char \<Rightarrow> sql_token list \<Rightarrow> char" where
  "last_of l [] = l"
| "last_of l (t # ts) = last_of (last_after t) ts"

fun literal_of :: "bool \<Rightarrow> sql_token list \<Rightarrow> bool" where
  "literal_of w [] = w"
| "literal_of w (t # ts) = literal_of (literal_after w t) ts"

subsection \<open>The ends of literals and comments\<close>

lemma end_of_Str:
  "\<not> starts_with (\<lambda>c. c = squote) r \<Longrightarrow> quoted_string_end squote (doubled s @ squote # r) = Inr r"
proof (induction s rule: doubled.induct)
  case 1
  then show ?case by (cases r) (auto simp: starts_with_def)
next
  case (2 c cs)
  then show ?case by (cases "doubled cs @ squote # r") (auto split: if_splits)
qed

lemma end_of_QuotedName: "dquote \<notin> set s \<Longrightarrow> quoted_string_end dquote (s @ dquote # r) = Inr r"
proof (induction s)
  case Nil
  then show ?case by (cases r) simp_all
next
  case (Cons c cs)
  then show ?case by (cases "cs @ dquote # r") auto
qed

lemma end_of_QStr:
  assumes "find_text [sep, squote] s = None" "sep \<noteq> squote" "e \<longrightarrow> \<not> starts_with (\<lambda>c. c = squote) s"
  shows "qstring_loop sep e (s @ sep # squote # r) = Inr r"
  using assms(1,3)
proof (induction s arbitrary: e)
  case Nil
  then show ?case using assms(2) by simp
next
  case (Cons c cs)
  have f: "find_text [sep, squote] cs = None" using Cons.prems(1) by (auto split: if_splits)
  have n: "c = sep \<Longrightarrow> \<not> starts_with (\<lambda>c. c = squote) cs"
    using Cons.prems(1) by (cases cs) (auto simp: starts_with_def split: if_splits)
  show ?case using Cons.IH [OF f] Cons.prems(2) n assms(2) by (auto simp: starts_with_def)
qed

lemma find_text_char: "c \<notin> set s \<Longrightarrow> find_text [c] (s @ c # r) = Some (length s)"
  by (induction s) auto

lemma end_of_LineComment: "newline \<notin> set s \<Longrightarrow> single_line_comment_end (''--'' @ s @ newline # r) = Some r"
  by (simp add: single_line_comment_end_def find_text_char)

lemma find_text_star: "find_text ''*/'' s = None \<Longrightarrow> find_text ''*/'' (s @ ''*/'' @ r) = Some (length s)"
proof (induction s)
  case (Cons c cs)
  then show ?case by (cases cs) (auto split: if_splits)
qed simp

lemma end_of_BlockComment: "find_text ''*/'' s = None \<Longrightarrow> multiple_line_comment_end (''/*'' @ s @ ''*/'' @ r) = Some r"
  using find_text_star [of s r] by (simp add: multiple_line_comment_end_def)

lemma takeWhile_all: "list_all P xs \<Longrightarrow> \<not> starts_with P r \<Longrightarrow> takeWhile P (xs @ r) = xs \<and> dropWhile P (xs @ r) = r"
  by (induction xs; cases r) (auto simp: starts_with_def)

lemma digit_props: "is_ascii_digit c \<Longrightarrow> \<not> is_whitespace c \<and> c \<noteq> dquote"
  by (auto simp: is_ascii_digit_def is_whitespace_def code_def)

lemma alphabetic_props: "is_ascii_alphabetic c \<Longrightarrow> \<not> is_whitespace c \<and> c \<noteq> dquote \<and> \<not> is_ascii_digit c"
  by (auto simp: is_ascii_digit_def is_ascii_alphabetic_def is_whitespace_def code_def)

lemma end_of_BindVar:
  assumes "bind_ok n r"
  shows "parse_bind_name (n @ r) = (r, Some n)"
proof -
  obtain c cs where n: "n = c # cs" using assms by (cases n) auto
  consider (alpha) "is_ascii_alphabetic c" "list_all is_bind_name_char cs" "\<not> starts_with is_bind_name_char r"
    | (digit) "is_ascii_digit c" "list_all is_ascii_digit cs" "\<not> starts_with is_ascii_digit r"
    | (quoted) m where "c = dquote" "cs = m @ [dquote]" "dquote \<notin> set m"
    using assms by (auto simp: n) (metis append_butlast_last_id)
  then show ?thesis
  proof cases
    case alpha
    then show ?thesis
      using alphabetic_props [OF alpha(1)] takeWhile_all [OF alpha(2,3)] by (simp add: parse_bind_name_def trim_start_def n)
  next
    case digit
    then show ?thesis
      using digit_props [OF digit(1)] takeWhile_all [OF digit(2,3)] by (simp add: parse_bind_name_def trim_start_def n)
  next
    case quoted
    have "takeWhile (\<lambda>c. c \<noteq> dquote) (m @ dquote # r) = m \<and> dropWhile (\<lambda>c. c \<noteq> dquote) (m @ dquote # r) = dquote # r"
      using quoted(3) by (induction m) auto
    then show ?thesis by (simp add: parse_bind_name_def trim_start_def n quoted is_whitespace_def code_def)
  qed
qed

subsection \<open>The scanner on tokens\<close>

lemma specials_not_blank [simp]:
  "\<not> is_whitespace squote" "\<not> is_whitespace dquote" "\<not> is_whitespace (CHR ''q'')" "\<not> is_whitespace (CHR '':'')"
  "\<not> is_whitespace (CHR ''='')" "\<not> is_whitespace (CHR ''-'')" "\<not> is_whitespace (CHR ''/'')"
  by (simp_all add: is_whitespace_def code_def)

lemma no_comment:
  "\<not> starts_with (\<lambda>d. d = CHR ''-'') r \<Longrightarrow> single_line_comment_end (CHR ''-'' # r) = None"
  "\<not> starts_with (\<lambda>d. d = CHR ''*'') r \<Longrightarrow> multiple_line_comment_end (CHR ''/'' # r) = None"
  by (cases r; simp add: single_line_comment_end_def multiple_line_comment_end_def starts_with_def)+

lemma scan_token:
  assumes "token_ok l w t r"
  shows "scan_from l w (token_text t @ r) =
    ebind (scan_from (last_after t) (literal_after w t) r) (\<lambda>ns. Inr (token_binds t @ ns))"
proof (cases t)
  case (Str s)
  then show ?thesis using assms end_of_Str [of r s] by (simp add: ebind_def split: sum.split)
next
  case (QStr sep s)
  then have "qstring_end (sep # s @ close_sep_of sep # squote # r) = Inr r"
    using assms by (auto simp: close_sep_of_def intro!: end_of_QStr split: if_splits)
  then show ?thesis using QStr by (simp add: ebind_def split: sum.split)
next
  case (QuotedName s)
  then show ?thesis using assms end_of_QuotedName [of s r] by (simp add: ebind_def split: sum.split)
next
  case (LineComment s)
  then show ?thesis using assms end_of_LineComment [of s r] by (simp add: ebind_def split: sum.split)
next
  case (BlockComment s)
  then show ?thesis using assms end_of_BlockComment [of s r] by (simp add: ebind_def split: sum.split)
next
  case (BindVar n)
  then show ?thesis using assms end_of_BindVar [of n r] by simp
next
  case Assign
  have "parse_bind_name (CHR ''='' # r) = (CHR ''='' # r, None)"
    by (simp add: parse_bind_name_def trim_start_def is_ascii_digit_def is_ascii_alphabetic_def code_def)
  then show ?thesis using Assign by (simp add: ebind_def split: sum.split)
next
  case (Sym c)
  then show ?thesis using assms by (auto simp: no_comment ebind_def split: sum.split)
qed

lemma scan_tokens:
  "tokens_ok l w ts r \<Longrightarrow> scan_from l w (tokens_text ts @ r) =
     ebind (scan_from (last_of l ts) (literal_of w ts) r) (\<lambda>ns. Inr (tokens_binds ts @ ns))"
proof (induction ts arbitrary: l w)
  case (Cons t ts)
  then show ?case
    using scan_token [of l w t "tokens_text ts @ r"] by (simp add: ebind_def split: sum.split)
qed (simp add: ebind_def split: sum.split)

text \<open>
  C14. Bind discovery: in a statement made of literals, q-strings, quoted names, comments, binds and other
  text the scanner finds the name of every bind, in order, and nothing inside the other tokens; when the
  statement then ends inside a literal or a quoted name it is refused.
\<close>

theorem scan_bind_names_exact:
  assumes "tokens_ok (CHR 0x00) False ts follow"
  shows "(follow = [] \<longrightarrow> scan_bind_names (tokens_text ts) = Inr (tokens_binds ts)) \<and>
    (follow = squote # s \<and> squote \<notin> set s \<and> last_of (CHR 0x00) ts \<notin> {CHR ''q'', CHR ''Q''} \<longrightarrow>
       scan_bind_names (tokens_text ts @ follow) = Inl MissingEndingSingleQuote) \<and>
    (follow = dquote # s \<and> dquote \<notin> set s \<longrightarrow>
       scan_bind_names (tokens_text ts @ follow) = Inl MissingEndingDoubleQuote)"
proof -
  have "quoted_string_end q s = Inl (if q = squote then MissingEndingSingleQuote else MissingEndingDoubleQuote)"
    if "q \<notin> set s" for q
    using that by (induction q s rule: quoted_string_end.induct) auto
  then show ?thesis
    using scan_tokens [OF assms] by (auto simp: scan_bind_names_def)
qed

definition demo_tokens :: "sql_token list" where
  "demo_tokens = [Str '':a'', Sym (CHR '' ''), Sym (CHR ''=''), BindVar ''b1'', LineComment '':c'', BindVar ''2'',
     QStr (CHR ''['') (CHR ''t'' # squote # '':d''), Sym (CHR '' ''), QuotedName '':e'']"

theorem scan_bind_names_exact_witness: "scan_bind_names (tokens_text demo_tokens) = Inr [''b1'', ''2'']"
proof -
  have "tokens_ok (CHR 0x00) False demo_tokens []"
    by (simp add: demo_tokens_def starts_with_def is_ascii_alphabetic_def is_ascii_digit_def is_bind_name_char_def
        is_ascii_alphanumeric_def code_def close_sep_of_def)
  from scan_bind_names_exact [OF this] show ?thesis by (simp add: demo_tokens_def)
qed

subsection \<open>Names without duplicates\<close>

lemma bind_names_equal_refl: "bind_names_equal n n"
  by (simp add: bind_names_equal_def eq_ignore_case_def)

lemma bind_names_equal_trans:
  "bind_names_equal a b \<Longrightarrow> bind_names_equal b c \<Longrightarrow> bind_names_equal a c"
  by (auto simp: bind_names_equal_def eq_ignore_case_def split: if_splits)

lemma add_names_sound:
  "set names \<subseteq> set (add_names names ns) \<and> set (add_names names ns) \<subseteq> set names \<union> set ns"
  by (induction names ns rule: add_names.induct) (auto split: if_splits)

lemma add_names_complete: "n \<in> set ns \<Longrightarrow> \<exists>m\<in>set (add_names names ns). bind_names_equal m n"
proof (induction names ns rule: add_names.induct)
  case (2 names m ns)
  let ?names = "if list_ex (\<lambda>existing. bind_names_equal existing m) names then names else names @ [m]"
  have "\<exists>k\<in>set ?names. bind_names_equal k m" by (auto simp: list_ex_iff bind_names_equal_refl)
  then show ?case using 2 add_names_sound [of ?names ns] by fastforce
qed simp

fun unequal :: "string list \<Rightarrow> bool" where
  "unequal [] = True"
| "unequal (n # ns) = (list_all (\<lambda>m. \<not> bind_names_equal n m) ns \<and> unequal ns)"

lemma unequal_snoc: "unequal (ns @ [m]) \<longleftrightarrow> unequal ns \<and> list_all (\<lambda>n. \<not> bind_names_equal n m) ns"
  by (induction ns) auto

lemma add_names_unequal: "unequal names \<Longrightarrow> unequal (add_names names ns)"
proof (induction names ns rule: add_names.induct)
  case (2 names n ns)
  then show ?case by (auto simp: unequal_snoc list_ex_iff list_all_iff)
qed simp

text \<open>
  Unique binds: the names of a statement without duplicates are names it has, no two of them are the
  same bind, and every bind of the statement is one of them.
\<close>

theorem unique_bind_names_exact:
  assumes "scan_bind_names statement = Inr names"
  shows "\<exists>us. unique_bind_names statement = Inr us \<and> set us \<subseteq> set names \<and> unequal us \<and>
    list_all (\<lambda>n. list_ex (\<lambda>u. bind_names_equal u n) us) names"
  using add_names_sound [of "[]" names] add_names_unequal [of "[]" names] add_names_complete [of _ names "[]"]
  by (auto simp: unique_bind_names_def assms list_all_iff list_ex_iff)

theorem unique_bind_names_exact_witness: "\<exists>us. unique_bind_names '':a:A:b'' = Inr us \<and> unequal us"
proof -
  have "scan_bind_names (tokens_text [BindVar ''a'', BindVar ''A'', BindVar ''b'']) = Inr [''a'', ''A'', ''b'']"
    by (subst scan_bind_names_def, subst append_Nil2 [symmetric], subst scan_tokens)
       (simp_all add: starts_with_def is_ascii_alphabetic_def is_ascii_digit_def is_bind_name_char_def
          is_ascii_alphanumeric_def code_def)
  then have "scan_bind_names '':a:A:b'' = Inr [''a'', ''A'', ''b'']" by simp
  from unique_bind_names_exact [OF this] show ?thesis by blast
qed

subsection \<open>Where the helpers disagree with the scanner\<close>

lemmas char_defs = is_ascii_alphabetic_def is_ascii_digit_def is_bind_name_char_def is_ascii_alphanumeric_def
  code_def is_whitespace_def is_byte_whitespace_def

lemma to_lower_letters [simp]:
  "to_lower (CHR ''b'') = CHR ''b''" "to_lower (CHR ''e'') = CHR ''e''" "to_lower (CHR ''g'') = CHR ''g''"
  "to_lower (CHR ''i'') = CHR ''i''" "to_lower (CHR ''n'') = CHR ''n''" "to_lower (CHR ''r'') = CHR ''r''"
  "to_lower (CHR ''t'') = CHR ''t''" "to_lower (CHR ''u'') = CHR ''u''" "to_lower (CHR ''o'') = CHR ''o''"
  "to_lower (CHR ''_'') = CHR ''_''" "to_lower (CHR ''='') = CHR ''=''" "to_lower (CHR '':'') = CHR '':''"
  "to_lower (CHR ''a'') = CHR ''a''" "to_lower (CHR ''d'') = CHR ''d''" "to_lower (CHR ''c'') = CHR ''c''"
  "to_lower (CHR ''l'') = CHR ''l''"
  by (simp_all add: to_lower_def code_def)

text \<open>A column whose name contains the keywords makes an input bind a RETURNING bind.\<close>

lemma returning_in_a_name: "returning_bind_names ''returning_into=:a'' = Inr [''a'']"
  by (simp add: returning_bind_names_def statement_is_plsql_def first_keyword_def trim_start_def eq_ignore_case_def
      scan_bind_names_def parse_bind_name_def char_defs Let_def)

text \<open>A placeholder inside a comment is replaced although the scanner sees no bind there.\<close>

lemma replaced_in_comment:
  "scan_bind_names ''/*:a*/'' = Inr [] \<and> replace_bind_placeholder ''/*:a*/'' ''a'' ''b'' = ''/*b*/''"
  by (simp add: scan_bind_names_def multiple_line_comment_end_def char_defs bind_names_equal_def
      is_quoted_bind_name_def eq_ignore_case_def)

text \<open>A literal that ends in a doubled quote at the end of the statement is not reported as unterminated.\<close>

lemma unterminated_not_reported:
  "assignment_loop True [] (CHR ''x'' # squote # ''a'' @ [squote, squote]) = Inr [] \<and>
   scan_bind_names (CHR ''x'' # squote # ''a'' @ [squote, squote]) = Inl MissingEndingSingleQuote"
  by (simp add: scan_bind_names_def char_defs)

end
