(* ===== verification/Vector_Codec.thy ===== *)
theory Vector_Codec
  imports Ttc_Fields Binary_Float
begin

unbundle bit_operations_syntax

text \<open>
  The VECTOR image (\<^verbatim>\<open>crates/oracledb-protocol/src/vector.rs\<close>): header, element values and the
  sparse index list, as bytes. Float elements are their IEEE bit patterns, \<^verbatim>\<open>i8\<close> elements are
  bytes. The image is read with \<open>Ttc_Reader\<close> under a resource policy; the writer of the LOB wrapper
  appends to a \<open>ttc_writer\<close>.
\<close>

subsection \<open>Values\<close>

definition TNS_VECTOR_MAGIC_BYTE :: byte where "TNS_VECTOR_MAGIC_BYTE = 0xDB"
definition TNS_VECTOR_VERSION_BASE :: byte where "TNS_VECTOR_VERSION_BASE = 0"
definition TNS_VECTOR_VERSION_WITH_BINARY :: byte where "TNS_VECTOR_VERSION_WITH_BINARY = 1"
definition TNS_VECTOR_VERSION_WITH_SPARSE :: byte where "TNS_VECTOR_VERSION_WITH_SPARSE = 2"
definition TNS_VECTOR_FLAG_NORM :: u16 where "TNS_VECTOR_FLAG_NORM = 0x0002"
definition TNS_VECTOR_FLAG_NORM_RESERVED :: u16 where "TNS_VECTOR_FLAG_NORM_RESERVED = 0x0010"
definition TNS_VECTOR_FLAG_SPARSE :: u16 where "TNS_VECTOR_FLAG_SPARSE = 0x0020"
definition VECTOR_FORMAT_FLOAT32 :: byte where "VECTOR_FORMAT_FLOAT32 = 2"
definition VECTOR_FORMAT_FLOAT64 :: byte where "VECTOR_FORMAT_FLOAT64 = 3"
definition VECTOR_FORMAT_INT8 :: byte where "VECTOR_FORMAT_INT8 = 4"
definition VECTOR_FORMAT_BINARY :: byte where "VECTOR_FORMAT_BINARY = 5"

lemmas vector_consts [simp] =
  TNS_VECTOR_MAGIC_BYTE_def TNS_VECTOR_VERSION_BASE_def TNS_VECTOR_VERSION_WITH_BINARY_def
  TNS_VECTOR_VERSION_WITH_SPARSE_def TNS_VECTOR_FLAG_NORM_def TNS_VECTOR_FLAG_NORM_RESERVED_def
  TNS_VECTOR_FLAG_SPARSE_def VECTOR_FORMAT_FLOAT32_def VECTOR_FORMAT_FLOAT64_def VECTOR_FORMAT_INT8_def
  VECTOR_FORMAT_BINARY_def

datatype vector_values = Float32 "u32 list" | Float64 "u64 list" | Int8 "byte list" | Binary "byte list"

datatype vector = Dense vector_values | Sparse u32 "u32 list" vector_values

fun vector_format :: "vector_values \<Rightarrow> byte" where
  "vector_format (Float32 v) = VECTOR_FORMAT_FLOAT32"
| "vector_format (Float64 v) = VECTOR_FORMAT_FLOAT64"
| "vector_format (Int8 v) = VECTOR_FORMAT_INT8"
| "vector_format (Binary v) = VECTOR_FORMAT_BINARY"

fun vector_len :: "vector_values \<Rightarrow> nat" where
  "vector_len (Float32 v) = length v"
| "vector_len (Float64 v) = length v"
| "vector_len (Int8 v) = length v"
| "vector_len (Binary v) = length v"

text \<open>
  The element transforms of this file repeat those of \<^verbatim>\<open>codecs.rs\<close> on arrays of fixed size.
\<close>

definition float_element :: "byte list \<Rightarrow> u32" where
  "float_element raw = of_nat (be_nat (unorder_bytes raw))"

definition double_element :: "byte list \<Rightarrow> u64" where
  "double_element raw = of_nat (be_nat (unorder_bytes raw))"

definition element_of_float :: "u32 \<Rightarrow> byte list" where
  "element_of_float value = order_bytes (be_bytes 4 (unat value))"

definition element_of_double :: "u64 \<Rightarrow> byte list" where
  "element_of_double value = order_bytes (be_bytes 8 (unat value))"

subsection \<open>Decoding\<close>

text \<open>\<open>for _ in 0..count\<close> with one read that may fail per round.\<close>

fun read_times :: "nat \<Rightarrow> (ttc_reader, 'a) step \<Rightarrow> (ttc_reader, 'a list) step" where
  "read_times 0 m = rret []"
| "read_times (Suc n) m = rbind m (\<lambda>x. rbind (read_times n m) (\<lambda>xs. rret (x # xs)))"

definition check_dimensions :: "nat \<Rightarrow> (ttc_reader, unit) step" where
  "check_dimensions n r = (check_vector_dimensions (limits r) n, r)"

definition reserve_elements :: "nat \<Rightarrow> nat \<Rightarrow> (ttc_reader, nat) step" where
  "reserve_elements count element_size r =
     (with_capacity_limited (limits r) (remaining r) count element_size check_vector_dimensions, r)"

definition decode_values :: "u32 \<Rightarrow> byte \<Rightarrow> (ttc_reader, vector_values) step" where
  "decode_values n format =
     (let count = unat n in
      rbind (check_dimensions count) (\<lambda>_.
      if format = VECTOR_FORMAT_FLOAT32 then
        rbind (reserve_elements count 4) (\<lambda>_.
        rbind (read_times count (rbind (read_raw 4) (\<lambda>raw. rret (float_element raw)))) (\<lambda>out. rret (Float32 out)))
      else if format = VECTOR_FORMAT_FLOAT64 then
        rbind (reserve_elements count 8) (\<lambda>_.
        rbind (read_times count (rbind (read_raw 8) (\<lambda>raw. rret (double_element raw)))) (\<lambda>out. rret (Float64 out)))
      else if format = VECTOR_FORMAT_INT8 then
        rbind (reserve_elements count 1) (\<lambda>_.
        rbind (read_times count read_u8) (\<lambda>out. rret (Int8 out)))
      else if format = VECTOR_FORMAT_BINARY then rbind (read_raw count) (\<lambda>raw. rret (Binary raw))
      else rlift (Inl (TtcDecode ''vector: unsupported element format''))))"

definition ensure_vector_image_fully_consumed :: "(ttc_reader, unit) step" where
  "ensure_vector_image_fully_consumed r =
     (if remaining r = 0 then (Inr (), r)
      else (Inl (TtcDecode ''vector: trailing bytes after image payload''), r))"

definition decode_sparse :: "u32 \<Rightarrow> byte \<Rightarrow> (ttc_reader, vector) step" where
  "decode_sparse num_dimensions format =
     rbind read_u16be (\<lambda>num_sparse.
     rbind (check_dimensions (unat num_sparse)) (\<lambda>_.
     rbind (reserve_elements (unat num_sparse) 4) (\<lambda>_.
     rbind (read_times (unat num_sparse) read_u32be) (\<lambda>indices.
     rbind (decode_values (ucast num_sparse) format) (\<lambda>values.
     rbind ensure_vector_image_fully_consumed (\<lambda>_.
     rret (Sparse num_dimensions indices values)))))))"

definition decode_dense :: "u32 \<Rightarrow> byte \<Rightarrow> (ttc_reader, vector) step" where
  "decode_dense num_elements format =
     (if format = VECTOR_FORMAT_BINARY \<and> num_elements mod 8 \<noteq> 0
      then rlift (Inl (TtcDecode ''vector: binary dimension count is not byte-aligned''))
      else
        rbind (decode_values (if format = VECTOR_FORMAT_BINARY then num_elements div 8 else num_elements) format) (\<lambda>values.
        rbind ensure_vector_image_fully_consumed (\<lambda>_.
        rret (Dense values))))"

definition decode_image :: "(ttc_reader, vector) step" where
  "decode_image =
     rbind read_u8 (\<lambda>magic.
     if magic \<noteq> TNS_VECTOR_MAGIC_BYTE then rlift (Inl (TtcDecode ''vector: bad magic byte'')) else
     rbind read_u8 (\<lambda>version.
     if version > TNS_VECTOR_VERSION_WITH_SPARSE then rlift (Inl (TtcDecode ''vector: unsupported version'')) else
     rbind read_u16be (\<lambda>flags.
     rbind read_u8 (\<lambda>format.
     rbind read_u32be (\<lambda>num_elements.
     rbind (check_dimensions (unat num_elements)) (\<lambda>_.
     rbind (if flags AND TNS_VECTOR_FLAG_NORM_RESERVED \<noteq> 0 \<or> flags AND TNS_VECTOR_FLAG_NORM \<noteq> 0 then skip 8
            else rret ()) (\<lambda>_.
     if flags AND TNS_VECTOR_FLAG_SPARSE \<noteq> 0 then decode_sparse num_elements format
     else decode_dense num_elements format)))))))"

definition decode_vector_with_limits :: "byte list \<Rightarrow> protocol_limits \<Rightarrow> vector res" where
  "decode_vector_with_limits data l =
     ebind (check_response_bytes l (length data)) (\<lambda>_.
     ebind (with_limits data l) (\<lambda>reader. fst (decode_image reader)))"

definition decode_vector :: "byte list \<Rightarrow> vector res" where
  "decode_vector data = decode_vector_with_limits data default_limits"

subsection \<open>Encoding\<close>

fun encode_values :: "vector_values \<Rightarrow> byte list" where
  "encode_values (Float32 v) = concat (map element_of_float v)"
| "encode_values (Float64 v) = concat (map element_of_double v)"
| "encode_values (Int8 v) = v"
| "encode_values (Binary v) = v"

text \<open>The header: flags, format, version and the element count narrowed with \<^verbatim>\<open>as u32\<close>.\<close>

fun vector_header :: "vector \<Rightarrow> u16 \<times> byte \<times> byte \<times> u32" where
  "vector_header (Sparse num_dimensions indices values) =
     (TNS_VECTOR_FLAG_NORM_RESERVED OR (TNS_VECTOR_FLAG_SPARSE OR TNS_VECTOR_FLAG_NORM),
      vector_format values, TNS_VECTOR_VERSION_WITH_SPARSE, num_dimensions)"
| "vector_header (Dense values) =
     (let format = vector_format values
      in if format = VECTOR_FORMAT_BINARY
         then (TNS_VECTOR_FLAG_NORM_RESERVED, format, TNS_VECTOR_VERSION_WITH_BINARY, of_nat (vector_len values) * 8)
         else (TNS_VECTOR_FLAG_NORM_RESERVED OR TNS_VECTOR_FLAG_NORM, format, TNS_VECTOR_VERSION_BASE,
               of_nat (vector_len values)))"

definition encode_vector_checked :: "vector \<Rightarrow> byte list res" where
  "encode_vector_checked vec =
     (let (flags, format, version, num_elements) = vector_header vec;
          header = [TNS_VECTOR_MAGIC_BYTE, version] @ be_bytes 2 (unat flags) @ [format] @
            be_bytes 4 (unat num_elements) @ replicate 8 0
      in case vec of
           Dense values \<Rightarrow> Inr (header @ encode_values values)
         | Sparse _ indices values \<Rightarrow>
             if length indices \<noteq> vector_len values
             then Inl (TtcDecode ''vector: sparse index/value count mismatch'')
             else if length indices \<ge> 2 ^ 16 then Inl (InvalidPacketLength (length indices) 0)
             else Inr (header @ be_bytes 2 (length indices) @ concat (map (\<lambda>i. be_bytes 4 (unat i)) indices) @
                    encode_values values))"

text \<open>The infallible wrapper panics on an invalid vector; a panic is \<open>None\<close>.\<close>

definition encode_vector :: "vector \<Rightarrow> byte list option" where
  "encode_vector vec = (case encode_vector_checked vec of Inr img \<Rightarrow> Some img | Inl _ \<Rightarrow> None)"

subsection \<open>The LOB wrapper\<close>

definition write_qlocator :: "u64 \<Rightarrow> bool \<Rightarrow> ttc_writer \<Rightarrow> ttc_writer" where
  "write_qlocator data_length write_length w =
     (let w = write_ub4 40 w;
          w = (if write_length then write_u8 40 w else w);
          w = write_u16be 38 w;
          w = write_u16be 4 w;
          w = write_u8 (0x20 OR 0x01 OR 0x40) w;
          w = write_u8 0x08 w;
          w = write_u16be 0 w;
          w = write_u16be 1 w;
          w = write_u64be data_length w;
          w = write_u16be 0 w;
          w = write_u16be 0 w;
          w = write_u16be 0 w;
          w = write_u64be 0 w
      in write_u64be 0 w)"

definition write_vector_image :: "byte list \<Rightarrow> ttc_writer \<Rightarrow> ttc_writer res" where
  "write_vector_image img w = write_bytes_with_length img (write_qlocator (of_nat (length img)) True w)"

definition write_oson_aq_payload :: "byte list \<Rightarrow> ttc_writer \<Rightarrow> ttc_writer res" where
  "write_oson_aq_payload img w = write_bytes_with_length img (write_qlocator (of_nat (length img)) False w)"

subsection \<open>Reading back what was written\<close>

text \<open>\<open>reads l m x xs\<close>: under the limits \<open>l\<close> the step \<open>m\<close> reads \<open>x\<close> from the bytes \<open>xs\<close> and nothing after them.\<close>

definition reads :: "protocol_limits \<Rightarrow> (ttc_reader, 'a) step \<Rightarrow> 'a \<Rightarrow> byte list \<Rightarrow> bool" where
  "reads l m x xs \<longleftrightarrow> (\<forall>r ys. reader_wf r \<longrightarrow> limits r = l \<longrightarrow> remaining_slice r = xs @ ys \<longrightarrow>
     m r = (Inr x, advance (length xs) r))"

lemma reads_rret [intro]: "reads l (rret x) x []"
  by (simp add: reads_def)

lemma reads_rbind:
  assumes "reads l m x xs" "reads l (f x) y ys"
  shows "reads l (rbind m f) y (xs @ ys)"
  unfolding reads_def
proof (intro allI impI)
  fix r zs
  assume r: "reader_wf r" "limits r = l" "remaining_slice r = (xs @ ys) @ zs"
  note s = slice_append [OF r(1), of xs "ys @ zs"]
  have "m r = (Inr x, advance (length xs) r)" using assms(1) r unfolding reads_def by simp
  moreover have "f x (advance (length xs) r) = (Inr y, advance (length ys) (advance (length xs) r))"
    using assms(2) r s unfolding reads_def by simp
  ultimately show "rbind m f r = (Inr y, advance (length (xs @ ys)) r)" by (simp add: rbind_Inr)
qed

lemma reads_map:
  assumes "reads l m x xs" "y = f x"
  shows "reads l (rbind m (\<lambda>x. rret (f x))) y xs"
  unfolding assms(2) using reads_rbind [OF assms(1), of "\<lambda>x. rret (f x)" "f x" "[]"] reads_rret [of l "f x"] by simp

lemma reads_u8: "reads l read_u8 b [b]"
  by (auto simp: reads_def dest: read_u8_slice)

lemma reads_raw: "n = length xs \<Longrightarrow> reads l (read_raw n) xs xs"
  by (auto simp: reads_def intro: read_raw_slice')

lemma reads_skip: "n = length xs \<Longrightarrow> reads l (skip n) () xs"
  unfolding skip_def by (rule reads_map [OF reads_raw]) simp_all

lemma word_of_be_bytes:
  "(of_nat (be_nat (be_bytes 2 (unat x))) :: u16) = x"
  "(of_nat (be_nat (be_bytes 4 (unat y))) :: u32) = y"
  "(of_nat (be_nat (be_bytes 8 (unat z))) :: u64) = z"
proof -
  have "unat x < 256 ^ 2" "unat y < 256 ^ 4" "unat z < 256 ^ 8"
    using unsigned_less [of x] unsigned_less [of y] unsigned_less [of z] by simp_all
  then have "be_nat (be_bytes 2 (unat x)) = unat x" "be_nat (be_bytes 4 (unat y)) = unat y" "be_nat (be_bytes 8 (unat z)) = unat z"
    by (simp_all only: be_nat_be_bytes mod_less)
  then show "(of_nat (be_nat (be_bytes 2 (unat x))) :: u16) = x" "(of_nat (be_nat (be_bytes 4 (unat y))) :: u32) = y"
    "(of_nat (be_nat (be_bytes 8 (unat z))) :: u64) = z"
    by simp_all
qed

lemma reads_u16be: "reads l read_u16be v (be_bytes 2 (unat v))"
  unfolding read_u16be_def
  by (rule reads_map [OF reads_raw]) (simp_all only: length_be_bytes word_of_be_bytes)

lemma reads_u32be: "reads l read_u32be v (be_bytes 4 (unat v))"
  unfolding read_u32be_def
  by (rule reads_map [OF reads_raw]) (simp_all only: length_be_bytes word_of_be_bytes)

lemma reads_dimensions:
  "n \<le> max_vector_dimensions l \<Longrightarrow> reads l m x xs \<Longrightarrow> reads l (rbind (check_dimensions n) (\<lambda>_. m)) x xs"
  by (simp add: reads_def rbind_def check_dimensions_def check_defs check_def)

lemma reads_times:
  "(\<And>x. x \<in> set vs \<Longrightarrow> reads l m x (enc x)) \<Longrightarrow> reads l (read_times (length vs) m) vs (concat (map enc vs))"
proof (induction vs)
  case (Cons v vs)
  have "reads l (rbind (read_times (length vs) m) (\<lambda>xs. rret (v # xs))) (v # vs) (concat (map enc vs))"
    using Cons by (intro reads_map) auto
  with Cons.prems [of v] show ?case by (auto intro: reads_rbind)
qed auto

lemma reads_reserve: "n \<le> max_vector_dimensions l \<Longrightarrow> reads l m x xs \<Longrightarrow> reads l (rbind (reserve_elements n k) (\<lambda>_. m)) x xs"
  by (simp add: reads_def rbind_def reserve_elements_def with_capacity_limited_def check_defs check_def)

lemma element_roundtrip:
  "float_element (element_of_float v) = v" "double_element (element_of_double w) = w"
  "length (element_of_float v) = 4" "length (element_of_double w) = 8"
proof -
  have "be_bytes 4 (unat v) \<noteq> []" "be_bytes 8 (unat w) \<noteq> []" by simp_all
  from this [THEN unorder_order]
  show "float_element (element_of_float v) = v" "double_element (element_of_double w) = w"
    by (simp_all only: float_element_def double_element_def element_of_float_def element_of_double_def word_of_be_bytes)
  show "length (element_of_float v) = 4" "length (element_of_double w) = 8"
    by (simp_all add: element_of_float_def element_of_double_def order_bytes_def)
qed

lemma reads_values:
  assumes "unat n = vector_len vs" "vector_len vs \<le> max_vector_dimensions l"
  shows "reads l (decode_values n (vector_format vs)) vs (encode_values vs)"
proof (cases vs)
  case (Float32 v)
  have "reads l (rbind (read_raw 4) (\<lambda>raw. rret (float_element raw))) x (element_of_float x)" for x
    by (rule reads_map [OF reads_raw]) (simp_all add: element_roundtrip)
  from reads_times [OF this] show ?thesis using assms
    by (auto simp: Float32 decode_values_def Let_def intro!: reads_dimensions reads_reserve reads_map)
next
  case (Float64 v)
  have "reads l (rbind (read_raw 8) (\<lambda>raw. rret (double_element raw))) x (element_of_double x)" for x
    by (rule reads_map [OF reads_raw]) (simp_all add: element_roundtrip)
  from reads_times [OF this] show ?thesis using assms
    by (auto simp: Float64 decode_values_def Let_def intro!: reads_dimensions reads_reserve reads_map)
next
  case (Int8 v)
  have "reads l (read_times (length v) read_u8) v v"
    using reads_times [of v l read_u8 "\<lambda>b. [b]"] reads_u8 by simp
  then show ?thesis using assms
    by (auto simp: Int8 decode_values_def Let_def intro!: reads_dimensions reads_reserve reads_map)
next
  case (Binary v)
  then show ?thesis using assms
    by (auto simp: decode_values_def Let_def intro!: reads_dimensions reads_map reads_raw)
qed

text \<open>\<open>consumes l m x xs\<close>: the step \<open>m\<close> reads \<open>x\<close> from a buffer that holds exactly \<open>xs\<close>.\<close>

definition consumes :: "protocol_limits \<Rightarrow> (ttc_reader, 'a) step \<Rightarrow> 'a \<Rightarrow> byte list \<Rightarrow> bool" where
  "consumes l m x xs \<longleftrightarrow>
     (\<forall>r. reader_wf r \<longrightarrow> limits r = l \<longrightarrow> remaining_slice r = xs \<longrightarrow> fst (m r) = Inr x)"

lemma consumes_rbind:
  assumes "reads l m x xs" "consumes l (f x) y ys"
  shows "consumes l (rbind m f) y (xs @ ys)"
  unfolding consumes_def
proof (intro allI impI)
  fix r
  assume r: "reader_wf r" "limits r = l" "remaining_slice r = xs @ ys"
  note s = slice_append [OF r(1,3)]
  have "m r = (Inr x, advance (length xs) r)" using assms(1) r unfolding reads_def by blast
  moreover have "fst (f x (advance (length xs) r)) = Inr y"
    using assms(2) r s unfolding consumes_def by simp
  ultimately show "fst (rbind m f r) = Inr y" by (simp add: rbind_Inr)
qed

lemma consumes_checks:
  "n \<le> max_vector_dimensions l \<Longrightarrow> consumes l m x xs \<Longrightarrow> consumes l (rbind (check_dimensions n) (\<lambda>_. m)) x xs"
  "n \<le> max_vector_dimensions l \<Longrightarrow> consumes l m x xs \<Longrightarrow> consumes l (rbind (reserve_elements n k) (\<lambda>_. m)) x xs"
  by (simp_all add: consumes_def rbind_def check_dimensions_def reserve_elements_def with_capacity_limited_def
      check_defs check_def)

lemma consumes_last:
  assumes "reads l m x xs"
  shows "consumes l (rbind m (\<lambda>v. rbind ensure_vector_image_fully_consumed (\<lambda>_. rret (f v)))) (f x) xs"
proof -
  have "remaining r = 0" if "reader_wf r" "remaining_slice r = []" for r
    using that by (simp add: remaining_def remaining_slice_def reader_wf_def)
  then have "consumes l (rbind ensure_vector_image_fully_consumed (\<lambda>_. rret (f x))) (f x) []"
    by (simp add: consumes_def rbind_def ensure_vector_image_fully_consumed_def)
  from consumes_rbind [where f = "\<lambda>v. rbind ensure_vector_image_fully_consumed (\<lambda>_. rret (f v))", OF assms this]
  show ?thesis by simp
qed

text \<open>The dimension count an image declares; the elements of a sparse vector are counted too.\<close>

fun dimensions :: "vector \<Rightarrow> nat" where
  "dimensions (Sparse num_dimensions indices values) = max (unat num_dimensions) (vector_len values)"
| "dimensions (Dense (Binary v)) = 8 * length v"
| "dimensions (Dense values) = vector_len values"

lemma consumes_header:
  assumes "version \<le> 2" "flags AND TNS_VECTOR_FLAG_NORM_RESERVED \<noteq> 0" "unat n \<le> max_vector_dimensions l"
    "consumes l (if flags AND TNS_VECTOR_FLAG_SPARSE \<noteq> 0 then decode_sparse n format else decode_dense n format) v xs"
  shows "consumes l decode_image v
    (([TNS_VECTOR_MAGIC_BYTE, version] @ be_bytes 2 (unat flags) @ [format] @ be_bytes 4 (unat n) @ replicate 8 0) @ xs)"
proof -
  have "consumes l decode_image v
    ([TNS_VECTOR_MAGIC_BYTE] @ [version] @ be_bytes 2 (unat flags) @ [format] @ be_bytes 4 (unat n) @ replicate 8 0 @ xs)"
    unfolding decode_image_def
    apply (rule consumes_rbind [OF reads_u8], subst if_not_P, simp)
    apply (rule consumes_rbind [OF reads_u8], subst if_not_P, use assms(1) in \<open>simp add: not_less\<close>)
    apply (rule consumes_rbind [OF reads_u16be], rule consumes_rbind [OF reads_u8],
        rule consumes_rbind [OF reads_u32be], rule consumes_checks(1) [OF assms(3)])
    apply (subst if_P, use assms(2) in blast, rule consumes_rbind [OF reads_skip], simp, rule assms(4))
    done
  then show ?thesis by simp
qed

lemma consumes_sparse:
  assumes "length indices = vector_len values" "length indices < 2 ^ 16" "vector_len values \<le> max_vector_dimensions l"
  shows "consumes l (decode_sparse n (vector_format values)) (Sparse n indices values)
    (be_bytes 2 (length indices) @ concat (map (\<lambda>i. be_bytes 4 (unat i)) indices) @ encode_values values)"
proof -
  define k :: u16 where "k = of_nat (length indices)"
  have k: "unat k = length indices" using assms(2) by (simp add: k_def unat_of_nat)
  have "consumes l (decode_sparse n (vector_format values)) (Sparse n indices values)
    (be_bytes 2 (unat k) @ concat (map (\<lambda>i. be_bytes 4 (unat i)) indices) @ encode_values values)"
    unfolding decode_sparse_def
    apply (rule consumes_rbind [OF reads_u16be], rule consumes_checks(1), use assms k in simp)
    apply (rule consumes_checks(2), use assms k in simp, unfold k)
    apply (rule consumes_rbind [OF reads_times [OF reads_u32be]])
    apply (rule consumes_last [OF reads_values, of _ _ _ "Sparse n indices"])
    using assms k unsigned_less [of k] by (simp_all add: unsigned_ucast_eq take_bit_eq_mod)
  then show ?thesis by (simp add: k)
qed

lemma consumes_dense:
  assumes "dimensions (Dense vs) \<le> max_vector_dimensions l" "dimensions (Dense vs) < 2 ^ 32"
    "unat n = dimensions (Dense vs)"
  shows "consumes l (decode_dense n (vector_format vs)) (Dense vs) (encode_values vs)"
proof (cases "vector_format vs = VECTOR_FORMAT_BINARY")
  case True
  then obtain v where v: "vs = Binary v" by (cases vs) auto
  have n: "unat (n mod 8) = 0" "unat (n div 8) = length v"
    using assms(3) by (simp_all add: v unat_mod unat_div)
  then have "n mod 8 = 0" by (simp only: unat_eq_0)
  then show ?thesis using True n(2) assms(1)
    by (simp add: v decode_dense_def consumes_last [OF reads_values [of _ "Binary v", simplified]])
next
  case False
  then have "unat n = vector_len vs" "vector_len vs \<le> max_vector_dimensions l"
    using assms by (cases vs; simp)+
  then show ?thesis using False by (simp add: decode_dense_def consumes_last [OF reads_values] del: vector_consts)
qed

lemma image_decodes:
  assumes "encode_vector_checked v = Inr img" "limits_wf l" "length img \<le> max_frame_bytes l"
    "length img \<le> usize_max" "dimensions v \<le> max_vector_dimensions l" "dimensions v < 2 ^ 32"
  shows "decode_vector_with_limits img l = Inr v"
proof -
  have "consumes l decode_image v img"
  proof (cases v)
    case (Dense vs)
    obtain flags version n where h: "vector_header v = (flags, vector_format vs, version, n)"
      and *: "version \<le> 2" "flags AND TNS_VECTOR_FLAG_NORM_RESERVED \<noteq> 0" "flags AND TNS_VECTOR_FLAG_SPARSE = 0"
        "unat n = dimensions (Dense vs)"
      using assms(6) by (cases vs) (auto simp: Dense Let_def unat_of_nat unat_word_ariths)
    from consumes_header [OF *(1,2), of n l "vector_format vs" v "encode_values vs"] consumes_dense [of vs l n] * assms(5,6)
    show ?thesis using assms(1) h by (simp add: Dense encode_vector_checked_def del: vector_consts)
  next
    case (Sparse n indices vs)
    have "(TNS_VECTOR_FLAG_NORM_RESERVED OR (TNS_VECTOR_FLAG_SPARSE OR TNS_VECTOR_FLAG_NORM)) AND TNS_VECTOR_FLAG_SPARSE \<noteq> 0"
      "(TNS_VECTOR_FLAG_NORM_RESERVED OR (TNS_VECTOR_FLAG_SPARSE OR TNS_VECTOR_FLAG_NORM)) AND TNS_VECTOR_FLAG_NORM_RESERVED \<noteq> 0"
      "TNS_VECTOR_VERSION_WITH_SPARSE \<le> 2"
      by simp_all
    from consumes_header [OF this(3,2), of n l "vector_format vs" v] this(1)
      consumes_sparse [of indices vs l n] assms(1,5)
    show ?thesis
      by (auto simp: Sparse encode_vector_checked_def split: if_splits simp del: vector_consts)
  qed
  moreover have "with_limits img l = Inr \<lparr>bytes = img, pos = 0, limits = l\<rparr>" "length img \<le> max_response_bytes l"
    using assms(2,3) by (auto simp: with_limits_def ebind_Inr_iff validate_Inr_iff check_defs limits_wf_def)
  ultimately show ?thesis
    using assms(4) by (simp add: decode_vector_with_limits_def consumes_def reader_wf_def remaining_slice_def check_defs check_def)
qed

text \<open>
  C15. Round trip: a vector that encodes, dense or sparse and in any of the four formats, is decoded from its
  image as it was, under every valid policy that admits the image and its dimension count. NaN payloads
  and signed zeros are kept. The count must fit the 32 bits it is written with.
\<close>

theorem vector_roundtrip:
  assumes "encode_vector_checked v = Inr img" "limits_wf l" "length img \<le> max_frame_bytes l"
    "length img \<le> usize_max" "dimensions v \<le> max_vector_dimensions l" "dimensions v < 2 ^ 32"
  shows "decode_vector_with_limits img l = Inr v"
  by (rule image_decodes [OF assms])

lemma small_bytes:
  "be_bytes 2 n = [of_nat (n div 256), of_nat n]"
  "be_bytes 4 n = [of_nat (n div 256 div 256 div 256), of_nat (n div 256 div 256), of_nat (n div 256), of_nat n]"
  "replicate 8 x = [x, x, x, x, x, x, x, x]"
proof -
  have n: "(2 :: nat) = Suc (Suc 0)" "(4 :: nat) = Suc (Suc (Suc (Suc 0)))"
    "(8 :: nat) = Suc (Suc (Suc (Suc (Suc (Suc (Suc (Suc 0)))))))"
    by simp_all
  show "be_bytes 2 n = [of_nat (n div 256), of_nat n]"
    "be_bytes 4 n = [of_nat (n div 256 div 256 div 256), of_nat (n div 256 div 256), of_nat (n div 256), of_nat n]"
    "replicate 8 x = [x, x, x, x, x, x, x, x]"
    by (simp_all only: n be_bytes.simps replicate.simps append.simps)
qed

definition sample_image :: "byte list" where
  "sample_image = [0xDB, 2, 0, 0x32, 4, 0, 0, 0, 9, 0, 0, 0, 0, 0, 0, 0, 0, 0, 1, 0, 0, 0, 7, 255]"

lemma sample_image_encodes: "encode_vector_checked (Sparse 9 [7] (Int8 [255])) = Inr sample_image"
  by (simp add: encode_vector_checked_def small_bytes sample_image_def)

theorem vector_roundtrip_witness: "decode_vector_with_limits sample_image default_limits = Inr (Sparse 9 [7] (Int8 [255]))"
  using vector_roundtrip [OF sample_image_encodes limits_wf_default]
  by (simp add: default_limits_def usize_max_def sample_image_def)

subsection \<open>What the decoder accepts\<close>

lemma read_times_Inr:
  assumes "read_times n m r = (Inr xs, r')" "\<And>r x r'. m r = (Inr x, r') \<Longrightarrow> pos r' = pos r + k"
  shows "length xs = n \<and> pos r' = pos r + n * k"
  using assms(1)
proof (induction n arbitrary: r xs)
  case (Suc n)
  from Suc.prems obtain x r1 ys where 1: "m r = (Inr x, r1)" "read_times n m r1 = (Inr ys, r')" "xs = x # ys"
    by (auto elim!: rbind_InrE)
  from Suc.IH [OF this(2)] assms(2) [OF 1(1)] 1(3) show ?case by simp
qed simp

lemma checks_Inr:
  "check_dimensions n r = (Inr u, r') \<longleftrightarrow> n \<le> max_vector_dimensions (limits r) \<and> r' = r"
  "reserve_elements n k r = (Inr c, r') \<Longrightarrow> r' = r"
  by (auto simp: check_dimensions_def reserve_elements_def check_defs)

lemma fixed_reads_Inr:
  "read_u8 r = (Inr b, r') \<Longrightarrow> pos r' = pos r + 1"
  "read_raw n r = (Inr bs, r') \<Longrightarrow> pos r' = pos r + n \<and> length bs = n"
  "read_u16be r = (Inr x, r') \<Longrightarrow> pos r' = pos r + 2"
  "read_u32be r = (Inr y, r') \<Longrightarrow> pos r' = pos r + 4"
  "rbind (read_raw n) (\<lambda>raw. rret (f raw)) r = (Inr z, r') \<Longrightarrow> pos r' = pos r + n"
  "skip n r = (Inr u, r') \<Longrightarrow> pos r' = pos r + n"
  by (auto simp: read_u8_def read_u16be_def read_u32be_def skip_def read_raw_Inr_iff split: if_splits elim!: rbind_InrE)

lemma read_times_fixed:
  "read_times n read_u8 r = (Inr bs, r') \<Longrightarrow> length bs = n \<and> pos r' = pos r + n"
  "read_times n read_u32be r = (Inr ys, r') \<Longrightarrow> length ys = n \<and> pos r' = pos r + n * 4"
  "read_times n (rbind (read_raw k) (\<lambda>raw. rret (f raw))) r = (Inr zs, r') \<Longrightarrow> length zs = n \<and> pos r' = pos r + n * k"
  using read_times_Inr [of n read_u8 r bs r' 1, OF _ fixed_reads_Inr(1)]
    read_times_Inr [of n read_u32be r ys r' 4, OF _ fixed_reads_Inr(4)]
    read_times_Inr [of n "rbind (read_raw k) (\<lambda>raw. rret (f raw))" r zs r' k, OF _ fixed_reads_Inr(5)]
  by simp_all

lemma length_encode_values:
  "length (concat (map element_of_float vs)) = length vs * 4" "length (concat (map element_of_double ws)) = length ws * 8"
  by (induction vs, simp_all add: element_roundtrip, induction ws, simp_all add: element_roundtrip)

lemma decode_values_Inr:
  assumes "decode_values n format r = (Inr vs, r')"
  shows "vector_format vs = format \<and> vector_len vs = unat n \<and> pos r' = pos r + length (encode_values vs) \<and>
    unat n \<le> max_vector_dimensions (limits r)"
  using assms unfolding decode_values_def Let_def
  by (auto simp: checks_Inr length_encode_values split: if_splits elim!: rbind_InrE
      dest!: checks_Inr(2) read_times_fixed fixed_reads_Inr(2))

lemma ensure_Inr: "ensure_vector_image_fully_consumed r = (Inr u, r') \<longleftrightarrow> remaining r = 0 \<and> r' = r"
  by (auto simp: ensure_vector_image_fully_consumed_def)

lemma step_ok_decode [simp, intro]:
  "step_ok (check_dimensions n)" "step_ok (reserve_elements n k)" "step_ok ensure_vector_image_fully_consumed"
  "step_ok m \<Longrightarrow> step_ok (read_times n m)"
  by (simp_all add: step_ok_def check_dimensions_def reserve_elements_def ensure_vector_image_fully_consumed_def)
     (induction n, auto simp flip: step_ok_def)

lemma step_ok_values [simp, intro]: "step_ok (decode_values n format)"
  unfolding decode_values_def Let_def by (intro step_oks step_ok_decode step_ok_if)

lemma step_ok_image: "step_ok decode_image"
  unfolding decode_image_def decode_sparse_def decode_dense_def read_u16be_def read_u32be_def skip_def
  by (intro step_oks step_ok_decode step_ok_values step_ok_if step_ok_read_raw)

lemma unat_ucast_u16: "unat (ucast (k :: u16) :: u32) = unat k"
proof -
  have "unat k < 65536" using unsigned_less [of k] by simp
  then show ?thesis by (simp add: unsigned_ucast_eq take_bit_eq_mod)
qed

lemma decode_sparse_Inr:
  assumes "decode_sparse n format r = (Inr v, r')"
  obtains indices vs where "v = Sparse n indices vs" "vector_format vs = format" "length indices = vector_len vs"
    "length indices < 2 ^ 16" "vector_len vs \<le> max_vector_dimensions (limits r)" "remaining r' = 0"
    "pos r' = pos r + 2 + length indices * 4 + length (encode_values vs)"
proof -
  from assms obtain k r1 u indices r2 vs where
    1: "read_u16be r = (Inr k, r1)" "check_dimensions (unat k) r1 = (Inr u, r1)"
      "read_times (unat k) read_u32be r1 = (Inr indices, r2)" "decode_values (ucast k) format r2 = (Inr vs, r')"
      "remaining r' = 0" "v = Sparse n indices vs"
    unfolding decode_sparse_def by (auto simp: ensure_Inr checks_Inr elim!: rbind_InrE dest: checks_Inr(2))
  have "step_ok read_u16be" by (auto simp: read_u16be_def)
  note l = step_okD(2) [OF this 1(1)]
  show thesis
    using that [of indices vs] decode_values_Inr [OF 1(4)] read_times_fixed(2) [OF 1(3)] fixed_reads_Inr(3) [OF 1(1)]
      1(2,5,6) l unsigned_less [of k] by (simp add: checks_Inr unat_ucast_u16)
qed

lemma decode_dense_Inr:
  assumes "decode_dense n format r = (Inr v, r')"
  obtains vs where "v = Dense vs" "vector_format vs = format" "dimensions v = unat n" "remaining r' = 0"
    "pos r' = pos r + length (encode_values vs)"
proof -
  define n' where "n' = (if format = VECTOR_FORMAT_BINARY then n div 8 else n)"
  from assms obtain vs where 1: "format = VECTOR_FORMAT_BINARY \<Longrightarrow> n mod 8 = 0" "decode_values n' format r = (Inr vs, r')"
      "remaining r' = 0" "v = Dense vs"
    unfolding decode_dense_def n'_def by (auto simp: ensure_Inr elim!: rbind_InrE split: if_splits simp del: vector_consts)
  note d = decode_values_Inr [OF 1(2)]
  have "dimensions v = unat n"
  proof (cases "format = VECTOR_FORMAT_BINARY")
    case True
    then obtain bs where vs: "vs = Binary bs" using d by (cases vs) auto
    have "unat (n mod 8) = unat n mod 8" by (simp add: unat_mod)
    then have "unat n mod 8 = 0" by (simp add: 1(1) [OF True])
    moreover have "length bs = unat n div 8" using d True by (simp add: vs n'_def unat_div)
    ultimately have "8 * length bs = unat n" by presburger
    then show ?thesis by (simp add: 1(4) vs)
  next
    case False
    then show ?thesis using d by (cases vs) (auto simp: 1(4) n'_def)
  qed
  then show thesis using that [of vs] 1 d by blast
qed

lemma decode_image_Inr:
  assumes "decode_image r = (Inr v, r')"
  obtains n format r1 flags where "pos r + 9 \<le> pos r1" "limits r1 = limits r" "unat n \<le> max_vector_dimensions (limits r)"
    "(if flags AND TNS_VECTOR_FLAG_SPARSE \<noteq> 0 then decode_sparse n format else decode_dense n format) r1 = (Inr v, r')"
proof -
  from assms obtain r1 r2 flags r3 format r4 n r5 r6 b b' u where
    1: "read_u8 r = (Inr b, r1)" "read_u8 r1 = (Inr b', r2)" "read_u16be r2 = (Inr flags, r3)" "read_u8 r3 = (Inr format, r4)"
      "read_u32be r4 = (Inr n, r5)" "unat n \<le> max_vector_dimensions (limits r5)"
      "(if flags AND TNS_VECTOR_FLAG_NORM_RESERVED \<noteq> 0 \<or> flags AND TNS_VECTOR_FLAG_NORM \<noteq> 0 then skip 8 else rret ()) r5 =
        (Inr u, r6)"
      "(if flags AND TNS_VECTOR_FLAG_SPARSE \<noteq> 0 then decode_sparse n format else decode_dense n format) r6 = (Inr v, r')"
    unfolding decode_image_def
    by (elim rbind_InrE) (auto simp: checks_Inr elim!: rbind_InrE split: if_splits simp del: vector_consts)
  have ok: "step_ok read_u16be" "step_ok read_u32be" "step_ok (if c then skip 8 else rret ())" for c
    by (auto simp: read_u16be_def read_u32be_def skip_def)
  have "limits r6 = limits r" "limits r5 = limits r" "pos r5 \<le> pos r6"
    using step_okD [OF step_ok_read_u8 1(1)] step_okD [OF step_ok_read_u8 1(2)] step_okD [OF ok(1) 1(3)]
      step_okD [OF step_ok_read_u8 1(4)] step_okD [OF ok(2) 1(5)] step_okD [OF ok(3) 1(7)] by simp_all
  moreover have "pos r5 = pos r + 9"
    using fixed_reads_Inr(1) [OF 1(1)] fixed_reads_Inr(1) [OF 1(2)] fixed_reads_Inr(3) [OF 1(3)] fixed_reads_Inr(1) [OF 1(4)]
      fixed_reads_Inr(4) [OF 1(5)] by simp
  ultimately show thesis using that [of r6 n flags format] 1(6,8) by simp
qed

text \<open>
  What the decoder accepts: a decoded vector can be encoded again, within eight bytes of the image
  it came from, has no more dimensions than the policy admits, and the new image decodes to the same vector.
\<close>

theorem decoded_vector_encodes:
  assumes "decode_vector_with_limits data l = Inr v" "length data + 8 \<le> max_frame_bytes l" "length data + 8 \<le> usize_max"
  shows "dimensions v \<le> max_vector_dimensions l \<and>
    (\<exists>img. encode_vector_checked v = Inr img \<and> length img \<le> length data + 8 \<and> decode_vector_with_limits img l = Inr v)"
proof -
  obtain r where r: "with_limits data l = Inr r" "fst (decode_image r) = Inr v"
    using assms(1) by (auto simp: decode_vector_with_limits_def ebind_Inr_iff)
  have wf: "reader_wf r" "bytes r = data" "pos r = 0" "limits r = l" "limits_wf l"
    using with_limits_wf [OF r(1)] assms(3) by simp_all
  obtain r' where d: "decode_image r = (Inr v, r')" using r(2) by (metis prod.collapse)
  from d obtain n format r1 flags where 1: "pos r + 9 \<le> pos r1" "limits r1 = l" "unat n \<le> max_vector_dimensions l"
    "(if flags AND TNS_VECTOR_FLAG_SPARSE \<noteq> 0 then decode_sparse n format else decode_dense n format) r1 = (Inr v, r')"
    using decode_image_Inr wf(4) by metis
  have e: "pos r' \<le> length data"
    using step_okD(4) [OF step_ok_image d] wf by simp
  have n: "unat n < 2 ^ 32" using unsigned_less [of n] by simp
  have "\<exists>img. encode_vector_checked v = Inr img \<and> length img \<le> length data + 8 \<and>
    dimensions v \<le> max_vector_dimensions l \<and> dimensions v < 2 ^ 32"
  proof (cases "flags AND TNS_VECTOR_FLAG_SPARSE = 0")
    case True
    with 1(4) obtain vs where "v = Dense vs" "dimensions v = unat n" "pos r' = pos r1 + length (encode_values vs)"
      by (auto elim: decode_dense_Inr)
    then show ?thesis using n 1(1,3) e by (auto simp: encode_vector_checked_def split: prod.splits)
  next
    case False
    with 1(4) obtain indices vs where "v = Sparse n indices vs" "length indices = vector_len vs"
      "length indices < 2 ^ 16" "vector_len vs \<le> max_vector_dimensions (limits r1)"
      "pos r' = pos r1 + 2 + length indices * 4 + length (encode_values vs)"
      by (auto elim: decode_sparse_Inr)
    then show ?thesis using n 1(1,2,3) e
      by (auto simp: encode_vector_checked_def length_concat comp_def sum_list_triv)
  qed
  then show ?thesis using image_decodes [OF _ wf(5)] assms(2,3) by (meson le_trans)
qed

theorem decoded_vector_encodes_witness:
  "\<exists>img. encode_vector_checked (Sparse 9 [7] (Int8 [255])) = Inr img \<and>
    decode_vector_with_limits img default_limits = Inr (Sparse 9 [7] (Int8 [255]))"
proof -
  have "decode_vector_with_limits sample_image default_limits = Inr (Sparse 9 [7] (Int8 [255]))"
    using image_decodes [OF sample_image_encodes limits_wf_default]
    by (simp add: default_limits_def usize_max_def sample_image_def)
  from decoded_vector_encodes [OF this] show ?thesis by (auto simp: default_limits_def usize_max_def sample_image_def)
qed

end
