(* ===== verification/Error_Taxonomy.thy ===== *)
theory Error_Taxonomy
  imports Sql_Scan
begin

text \<open>
  The error type of the driver and its classification (\<^verbatim>\<open>crates/oracledb/src/lib.rs\<close>,
  \<^verbatim>\<open>Error\<close> and its methods, and the code tables of \<^verbatim>\<open>recovery.rs\<close>): the category, the Oracle
  code, whether the connection survives, and the retry guidance. Payloads that no classification reads
  (of I/O, wallet, token, bind, conversion and authentication errors) are left out of the constructors.
\<close>

subsection \<open>Errors\<close>

datatype error_kind =
  KNetwork | KTimeout | KCancel | KProtocol | KDatabase | KConversion | KPool | KResourceLimit | KAuthentication

datatype connect_phase =
  Dns | Tcp | Tls | Wallet | Connect | Accept | Negotiation | DataTypes | AuthPhaseOne | AuthPhaseTwo | Session

datatype driver_error =
    ConnectPhase connect_phase driver_error
  | Protocol protocol_error
  | IoError
  | Runtime string
  | RedirectUnsupported
  | InvalidRedirectData string
  | ConnectRedirectLoop byte
  | ListenerRefused string
  | AllAddressesFailed string
  | UnsupportedSni string
  | UnexpectedPacket byte
  | ConnectResendLoop byte
  | FastAuthRequired
  | MissingSessionField string
  | CallTimeout u32
  | NoRows
  | TooManyRows
  | Cancelled
  | ConnectionClosed string
  | TlsError string
  | WalletFailure
  | AccessTokenRequiresTcps
  | UnsupportedConnectSetting string
  | IamTokenProofOfPossession
  | TokenSource
  | UnsupportedAuthMode
  | SessionlessTransaction
  | UnknownTransactionState u32
  | BindFailure
  | ConversionFailure
  | ArrowConversion

type_synonym 'a driver_res = "driver_error + 'a"

datatype conn_disposition = Reusable | Dead

datatype retry_advice = Never | RetrySameConnectionIfIdempotent | ReconnectThenRetryIfIdempotent

subsection \<open>Oracle codes\<close>

definition SESSION_DEAD_ORA_CODES :: "u32 list" where
  "SESSION_DEAD_ORA_CODES =
     [22, 28, 31, 45, 378, 600, 602, 603, 609, 1012, 1041, 1043, 1089, 1092, 2396, 3113, 3114, 3122,
      3135, 12153, 12537, 12547, 12570, 12583, 27146, 28511, 56600]"

definition TRANSIENT_ORA_CODES :: "u32 list" where
  "TRANSIENT_ORA_CODES = [54, 60, 104, 257, 12516, 12520, 12526, 12528, 30006, 51535]"

definition CONNECTION_LOST_ORA_CODES :: "u32 list" where
  "CONNECTION_LOST_ORA_CODES = [28, 1012, 1041, 1089, 2396, 3113, 3114, 3135, 12537, 12547, 12570, 28511]"

text \<open>\<^verbatim>\<open>str::parse::<u32>\<close> on a text of digits: empty text and values over 32 bits are refused.\<close>

definition parse_u32 :: "string \<Rightarrow> u32 option" where
  "parse_u32 digits =
     (let n = foldl (\<lambda>a c. 10 * a + (code c - 48)) 0 digits
      in if digits = [] \<or> n \<ge> 2 ^ 32 then None else Some (of_nat n))"

definition parse_ora_code_from_message :: "string \<Rightarrow> u32 option" where
  "parse_ora_code_from_message message =
     (case find_text ''ORA-'' message of
        None \<Rightarrow> None
      | Some start \<Rightarrow> parse_u32 (takeWhile is_ascii_digit (drop (start + 4) message)))"

fun protocol_error_ora_code :: "protocol_error \<Rightarrow> u32 option" where
  "protocol_error_ora_code (ServerError message) = parse_ora_code_from_message message"
| "protocol_error_ora_code (ServerErrorWithRowCount message row_count) = parse_ora_code_from_message message"
| "protocol_error_ora_code (ServerErrorInfo details) = Some (se_code details)"
| "protocol_error_ora_code _ = None"

fun protocol_error_offset :: "protocol_error \<Rightarrow> u32 option" where
  "protocol_error_offset (ServerErrorInfo details) = (if se_pos details \<noteq> 0 then Some (se_pos details) else None)"
| "protocol_error_offset _ = None"

text \<open>The casts between \<^verbatim>\<open>u32\<close> and \<^verbatim>\<open>i32\<close> keep the bits: the \<^verbatim>\<open>i32\<close> is the word read with \<open>sint\<close>.\<close>

fun ora_code :: "driver_error \<Rightarrow> u32 option" where
  "ora_code (Protocol err) = protocol_error_ora_code err"
| "ora_code (ConnectPhase phase source) = ora_code source"
| "ora_code Cancelled = Some 1013"
| "ora_code _ = None"

fun offset :: "driver_error \<Rightarrow> u32 option" where
  "offset (Protocol err) = protocol_error_offset err"
| "offset (ConnectPhase phase source) = offset source"
| "offset _ = None"

subsection \<open>Classification\<close>

fun protocol_error_kind :: "protocol_error \<Rightarrow> error_kind" where
  "protocol_error_kind (ResourceLimit limit observed maximum) = KResourceLimit"
| "protocol_error_kind (ServerError message) = KDatabase"
| "protocol_error_kind (ServerErrorWithRowCount message row_count) = KDatabase"
| "protocol_error_kind (ServerErrorInfo details) = KDatabase"
| "protocol_error_kind _ = KProtocol"

fun kind :: "driver_error \<Rightarrow> error_kind" where
  "kind (ConnectPhase phase source) = kind source"
| "kind (Protocol err) = protocol_error_kind err"
| "kind IoError = KNetwork"
| "kind (ListenerRefused reason) = KNetwork"
| "kind (AllAddressesFailed reasons) = KNetwork"
| "kind (ConnectionClosed reason) = KNetwork"
| "kind (TlsError reason) = KNetwork"
| "kind (UnsupportedSni sni) = KNetwork"
| "kind (UnsupportedConnectSetting setting) = KNetwork"
| "kind WalletFailure = KNetwork"
| "kind (CallTimeout ms) = KTimeout"
| "kind Cancelled = KCancel"
| "kind ConversionFailure = KConversion"
| "kind BindFailure = KConversion"
| "kind ArrowConversion = KConversion"
| "kind AccessTokenRequiresTcps = KAuthentication"
| "kind UnsupportedAuthMode = KAuthentication"
| "kind IamTokenProofOfPossession = KAuthentication"
| "kind TokenSource = KAuthentication"
| "kind RedirectUnsupported = KProtocol"
| "kind (InvalidRedirectData defect) = KProtocol"
| "kind (ConnectRedirectLoop rounds) = KProtocol"
| "kind (Runtime reason) = KProtocol"
| "kind FastAuthRequired = KProtocol"
| "kind (UnexpectedPacket ty) = KProtocol"
| "kind (ConnectResendLoop rounds) = KProtocol"
| "kind (MissingSessionField field) = KProtocol"
| "kind SessionlessTransaction = KProtocol"
| "kind (UnknownTransactionState state) = KProtocol"
| "kind NoRows = KDatabase"
| "kind TooManyRows = KDatabase"

fun protocol_resource_limit :: "protocol_error \<Rightarrow> (string \<times> nat \<times> nat) option" where
  "protocol_resource_limit (ResourceLimit limit observed maximum) = Some (limit, observed, maximum)"
| "protocol_resource_limit _ = None"

fun resource_limit :: "driver_error \<Rightarrow> (string \<times> nat \<times> nat) option" where
  "resource_limit (Protocol err) = protocol_resource_limit err"
| "resource_limit (ConnectPhase phase source) = resource_limit source"
| "resource_limit _ = None"

definition has_code :: "u32 list \<Rightarrow> driver_error \<Rightarrow> bool" where
  "has_code codes err = (case ora_code err of Some c \<Rightarrow> c \<in> set codes | None \<Rightarrow> False)"

fun connection_disposition :: "driver_error \<Rightarrow> conn_disposition" where
  "connection_disposition (ConnectPhase phase source) = connection_disposition source"
| "connection_disposition IoError = Dead"
| "connection_disposition (ConnectionClosed reason) = Dead"
| "connection_disposition err = (if has_code SESSION_DEAD_ORA_CODES err then Dead else Reusable)"

fun is_connection_lost :: "driver_error \<Rightarrow> bool" where
  "is_connection_lost (ConnectPhase phase source) = is_connection_lost source"
| "is_connection_lost IoError = True"
| "is_connection_lost (ConnectionClosed reason) = True"
| "is_connection_lost err = has_code CONNECTION_LOST_ORA_CODES err"

fun is_transient :: "driver_error \<Rightarrow> bool" where
  "is_transient (CallTimeout ms) = True"
| "is_transient Cancelled = True"
| "is_transient (ConnectPhase phase source) \<longleftrightarrow>
     is_transient source \<or> has_code TRANSIENT_ORA_CODES (ConnectPhase phase source)"
| "is_transient err = has_code TRANSIENT_ORA_CODES err"

definition retry_hint :: "driver_error \<Rightarrow> retry_advice" where
  "retry_hint err =
     (if is_transient err then RetrySameConnectionIfIdempotent
      else if is_connection_lost err then ReconnectThenRetryIfIdempotent
      else Never)"

definition is_retryable :: "driver_error \<Rightarrow> bool" where
  "is_retryable err \<longleftrightarrow> retry_hint err \<noteq> Never"

text \<open>Errors of a response that is being decoded, before or after its boundary was seen.\<close>

datatype post_sync_disposition = SyncReady | SyncDead

fun post_sync_protocol_error_disposition :: "protocol_error \<Rightarrow> bool \<Rightarrow> post_sync_disposition" where
  "post_sync_protocol_error_disposition (ResourceLimit limit observed maximum) response_boundary_seen = SyncDead"
| "post_sync_protocol_error_disposition err response_boundary_seen =
     (if (case protocol_error_ora_code err of Some c \<Rightarrow> c \<in> set SESSION_DEAD_ORA_CODES | None \<Rightarrow> False)
      then SyncDead
      else if \<not> response_boundary_seen then SyncDead
      else SyncReady)"

definition protocol_error_is_session_dead :: "protocol_error \<Rightarrow> bool" where
  "protocol_error_is_session_dead err \<longleftrightarrow> post_sync_protocol_error_disposition err True = SyncDead"

subsection \<open>Cancellation\<close>

text \<open>
  The cancellation kinds of the runtime, which the source matches without a default arm, the posture the driver takes
  for each, and the error it becomes.
\<close>

datatype cancel_kind =
    CKTimeout | CKDeadline | CKPollQuota | CKCostBudget | CKShutdown | CKResourceUnavailable | CKLinkedExit
  | CKUser | CKRaceLost | CKFailFast | CKParentCancelled

datatype cancel_posture = CancelTimeout | CancelClose | CancelQuiet

fun cancel_posture_from_kind :: "cancel_kind \<Rightarrow> cancel_posture" where
  "cancel_posture_from_kind CKTimeout = CancelTimeout"
| "cancel_posture_from_kind CKDeadline = CancelTimeout"
| "cancel_posture_from_kind CKPollQuota = CancelTimeout"
| "cancel_posture_from_kind CKCostBudget = CancelTimeout"
| "cancel_posture_from_kind CKShutdown = CancelClose"
| "cancel_posture_from_kind CKResourceUnavailable = CancelClose"
| "cancel_posture_from_kind CKLinkedExit = CancelClose"
| "cancel_posture_from_kind CKUser = CancelQuiet"
| "cancel_posture_from_kind CKRaceLost = CancelQuiet"
| "cancel_posture_from_kind CKFailFast = CancelQuiet"
| "cancel_posture_from_kind CKParentCancelled = CancelQuiet"

fun cancel_error :: "cancel_posture \<Rightarrow> u32 \<Rightarrow> driver_error" where
  "cancel_error CancelTimeout timeout_ms = CallTimeout timeout_ms"
| "cancel_error CancelClose timeout_ms = ConnectionClosed ''operation cancelled by runtime shutdown''"
| "cancel_error CancelQuiet timeout_ms = Cancelled"

definition cancel_disposition :: "cancel_kind option \<Rightarrow> cancel_posture" where
  "cancel_disposition reason = (case reason of Some k \<Rightarrow> cancel_posture_from_kind k | None \<Rightarrow> CancelQuiet)"

subsection \<open>The tables and the classification agree\<close>

lemma code_tables:
  "set CONNECTION_LOST_ORA_CODES \<subseteq> set SESSION_DEAD_ORA_CODES"
  "set TRANSIENT_ORA_CODES \<inter> set SESSION_DEAD_ORA_CODES = {}"
  "1013 \<notin> set SESSION_DEAD_ORA_CODES" "1013 \<notin> set CONNECTION_LOST_ORA_CODES"
  by (simp_all add: CONNECTION_LOST_ORA_CODES_def SESSION_DEAD_ORA_CODES_def TRANSIENT_ORA_CODES_def)

lemma has_code_ConnectPhase [simp]: "has_code codes (ConnectPhase phase source) = has_code codes source"
  by (simp add: has_code_def)

lemma has_code_tables:
  "has_code CONNECTION_LOST_ORA_CODES err \<Longrightarrow> has_code SESSION_DEAD_ORA_CODES err"
  "has_code TRANSIENT_ORA_CODES err \<Longrightarrow> \<not> has_code SESSION_DEAD_ORA_CODES err"
  "\<not> has_code SESSION_DEAD_ORA_CODES Cancelled" "\<not> has_code SESSION_DEAD_ORA_CODES (CallTimeout ms)"
  using code_tables by (auto simp: has_code_def split: option.splits)

lemma has_code_IO [simp]: "\<not> has_code codes IoError" "\<not> has_code codes (ConnectionClosed reason)"
  by (simp_all add: has_code_def)

lemma has_code_transient: "has_code TRANSIENT_ORA_CODES err \<Longrightarrow> is_transient err"
  by (cases err) auto

lemma transient_reusable: "is_transient err \<Longrightarrow> connection_disposition err = Reusable"
  by (induction err rule: is_transient.induct) (auto dest: has_code_tables(2) has_code_transient simp: has_code_tables(3,4))

lemma lost_dead: "is_connection_lost err \<Longrightarrow> connection_disposition err = Dead"
  by (induction err rule: is_connection_lost.induct) (auto dest: has_code_tables(1))

text \<open>
  C23. Retry guidance and the state of the connection agree for every error, connect-phase wrappers included:
  an error is to be retried on the same connection only if the connection survived it, a reconnect is advised
  only if it is lost, and no error with neither property is advised to be retried. The table of lost connections
  is part of the table of dead sessions, and no transient code is in it.
\<close>

theorem retry_hint_consistent:
  "(case retry_hint err of
      RetrySameConnectionIfIdempotent \<Rightarrow> is_transient err \<and> connection_disposition err = Reusable
    | ReconnectThenRetryIfIdempotent \<Rightarrow> is_connection_lost err \<and> connection_disposition err = Dead
    | Never \<Rightarrow> \<not> is_transient err \<and> \<not> is_connection_lost err) \<and>
   set CONNECTION_LOST_ORA_CODES \<subseteq> set SESSION_DEAD_ORA_CODES \<and>
   set TRANSIENT_ORA_CODES \<inter> set SESSION_DEAD_ORA_CODES = {}"
  using transient_reusable [of err] lost_dead [of err] code_tables by (simp add: retry_hint_def)

text \<open>
  Cancellation composes with the taxonomy: the error of a cancelled operation reports a dead connection exactly when
  the posture is to close it, and otherwise advises a retry on the same connection.
\<close>

lemma cancel_error_disposition:
  "connection_disposition (cancel_error p ms) = (if p = CancelClose then Dead else Reusable) \<and>
   retry_hint (cancel_error p ms) =
     (if p = CancelClose then ReconnectThenRetryIfIdempotent else RetrySameConnectionIfIdempotent)"
  by (cases p) (simp_all add: retry_hint_def has_code_tables)

text \<open>
  The public disposition does not know when an error arose: a response that broke a limit leaves the session
  dead, while its error is classified as leaving the connection reusable.
\<close>

lemma limit_error_disposition:
  "post_sync_protocol_error_disposition (ResourceLimit limit observed maximum) boundary = SyncDead \<and>
   connection_disposition (Protocol (ResourceLimit limit observed maximum)) = Reusable"
  by (simp add: has_code_def)

end
