(* ===== verification/Retry_Loop.thy ===== *)
theory Retry_Loop
  imports Error_Taxonomy
begin

text \<open>
  The retry executor (\<^verbatim>\<open>crates/oracledb/src/retry.rs\<close>): the idempotency gate, the backoff schedule, the
  decision after a failed attempt, and the loop that runs it. A \<^verbatim>\<open>Duration\<close> is its number of nanoseconds.
  The operation, the reconnect hook, the sleep and the cancellation checkpoint are functions of the world
  around the loop, which may count, fail and change in any way.
\<close>

subsection \<open>Policy\<close>

datatype idempotency = Idempotent | NonIdempotent

definition classify_sql :: "string \<Rightarrow> idempotency" where
  "classify_sql sql =
     (if eq_ignore_case (takeWhile is_ascii_alphabetic (trim_start sql)) ''select'' then Idempotent else NonIdempotent)"

datatype retry_action = Surface | RetrySameConnection nat | ReconnectThenRetry nat

record retry_policy =
  max_retries :: u32
  base_backoff :: nat
  max_backoff :: nat

definition duration_max :: nat where
  "duration_max = 2 ^ 64 * 10 ^ 9 - 1"

definition default_policy :: retry_policy where
  "default_policy = \<lparr>max_retries = 3, base_backoff = 50 * 10 ^ 6, max_backoff = 2 * 10 ^ 9\<rparr>"

definition no_retries :: retry_policy where
  "no_retries = \<lparr>max_retries = 0, base_backoff = 0, max_backoff = 0\<rparr>"

definition backoff_for :: "retry_policy \<Rightarrow> u32 \<Rightarrow> nat" where
  "backoff_for policy attempts_made =
     (if base_backoff policy = 0 then 0
      else
        let shift = min (unat attempts_made - 1) 31;
            product = base_backoff policy * 2 ^ shift;
            scaled = (if product \<le> duration_max then product else max_backoff policy)
        in min scaled (max_backoff policy))"

definition decide :: "retry_policy \<Rightarrow> driver_error \<Rightarrow> idempotency \<Rightarrow> u32 \<Rightarrow> retry_action" where
  "decide policy err idem attempts_made =
     (if idem = NonIdempotent then Surface
      else if attempts_made > max_retries policy then Surface
      else
        let backoff = backoff_for policy attempts_made
        in case retry_hint err of
             Never \<Rightarrow> Surface
           | RetrySameConnectionIfIdempotent \<Rightarrow> RetrySameConnection backoff
           | ReconnectThenRetryIfIdempotent \<Rightarrow> ReconnectThenRetry backoff)"

subsection \<open>The loop\<close>

record ('w, 'a) retry_env =
  checkpoint :: "'w \<Rightarrow> unit driver_res \<times> 'w"
  operation :: "'w \<Rightarrow> 'a driver_res \<times> 'w"
  backoff_sleep :: "nat \<Rightarrow> 'w \<Rightarrow> unit driver_res \<times> 'w"
  reconnect :: "'w \<Rightarrow> bool driver_res \<times> 'w"

text \<open>One round of the loop: \<open>Inl\<close> is a return, \<open>Inr\<close> the world in which the next round starts.\<close>

definition retry_round ::
  "('w, 'a) retry_env \<Rightarrow> retry_policy \<Rightarrow> idempotency \<Rightarrow> u32 \<Rightarrow> 'w \<Rightarrow> ('a driver_res \<times> 'w) + 'w" where
  "retry_round env policy idem attempts_made w =
     (case checkpoint env w of
        (Inl err, w) \<Rightarrow> Inl (Inl err, w)
      | (Inr _, w) \<Rightarrow>
          (case operation env w of
             (Inr value, w) \<Rightarrow> Inl (Inr value, w)
           | (Inl err, w) \<Rightarrow>
               (case decide policy err idem attempts_made of
                  Surface \<Rightarrow> Inl (Inl err, w)
                | RetrySameConnection backoff \<Rightarrow>
                    (case backoff_sleep env backoff w of
                       (Inl cancelled, w) \<Rightarrow> Inl (Inl cancelled, w)
                     | (Inr _, w) \<Rightarrow> Inr w)
                | ReconnectThenRetry backoff \<Rightarrow>
                    (case backoff_sleep env backoff w of
                       (Inl cancelled, w) \<Rightarrow> Inl (Inl cancelled, w)
                     | (Inr _, w) \<Rightarrow>
                         (case reconnect env w of
                            (Inl reconnect_err, w) \<Rightarrow> Inl (Inl reconnect_err, w)
                          | (Inr reconnected, w) \<Rightarrow> if reconnected then Inr w else Inl (Inl err, w))))))"

text \<open>
  \<^verbatim>\<open>attempts_made += 1\<close> is 32-bit arithmetic, and with the largest budget the loop has no bound: the loop
  is a partial function, and not returning is \<open>None\<close>.
\<close>

partial_function (option) run_inner ::
  "('w, 'a) retry_env \<Rightarrow> retry_policy \<Rightarrow> idempotency \<Rightarrow> u32 \<Rightarrow> 'w \<Rightarrow> ('a driver_res \<times> 'w) option" where
  "run_inner env policy idem attempts_made w =
     (case retry_round env policy idem (attempts_made + 1) w of
        Inl result \<Rightarrow> Some result
      | Inr w \<Rightarrow> run_inner env policy idem (attempts_made + 1) w)"

definition no_reconnect :: "'w \<Rightarrow> bool driver_res \<times> 'w" where
  "no_reconnect w = (Inr False, w)"

definition run_with_retry ::
  "('w, 'a) retry_env \<Rightarrow> retry_policy \<Rightarrow> idempotency \<Rightarrow> 'w \<Rightarrow> ('a driver_res \<times> 'w) option" where
  "run_with_retry env policy idem w = run_inner (env\<lparr>reconnect := no_reconnect\<rparr>) policy idem 0 w"

definition run_with_retry_reconnecting ::
  "('w, 'a) retry_env \<Rightarrow> retry_policy \<Rightarrow> idempotency \<Rightarrow> 'w \<Rightarrow> ('a driver_res \<times> 'w) option" where
  "run_with_retry_reconnecting env policy idem w = run_inner env policy idem 0 w"

subsection \<open>Counting\<close>

text \<open>
  The same environment with a log of what the loop did: each attempt with its outcome, each sleep and each
  reconnect, latest first.
\<close>

datatype 'a retry_event = Attempt "'a driver_res" | Slept nat | Reconnected

definition logged :: "('w, 'a) retry_env \<Rightarrow> ('w \<times> 'a retry_event list, 'a) retry_env" where
  "logged env =
     \<lparr>checkpoint = (\<lambda>(w, es). let (r, w) = checkpoint env w in (r, w, es)),
      operation = (\<lambda>(w, es). let (r, w) = operation env w in (r, w, Attempt r # es)),
      backoff_sleep = (\<lambda>d (w, es). let (r, w) = backoff_sleep env d w in (r, w, Slept d # es)),
      reconnect = (\<lambda>(w, es). let (r, w) = reconnect env w in (r, w, Reconnected # es))\<rparr>"

fun attempts :: "'a retry_event list \<Rightarrow> 'a driver_res list" where
  "attempts [] = []"
| "attempts (Attempt r # es) = r # attempts es"
| "attempts (e # es) = attempts es"

lemma attempts_Slept [simp]: "attempts (Slept d # es) = attempts es" "attempts (Reconnected # es) = attempts es"
  by simp_all

lemma decide_retries:
  assumes "decide policy err idem n \<noteq> Surface"
  shows "idem = Idempotent \<and> n \<le> max_retries policy \<and> is_retryable err"
  using assms
  by (cases idem) (auto simp: decide_def is_retryable_def not_less Let_def split: if_splits retry_advice.splits)

text \<open>
  A round makes at most one attempt. When another round follows, it made exactly one, which failed with a
  retryable error, and the policy allowed the retry.
\<close>

lemma retry_round_logged:
  assumes "retry_round (logged env) policy idem n (w, es) = s"
  shows "case s of
      Inl (r, w', es') \<Rightarrow>
        (attempts es' = attempts es \<and> (\<exists>e. r = Inl e)) \<or>
        (\<exists>a. attempts es' = a # attempts es \<and> (r = a \<or> (\<exists>e. r = Inl e) \<and> (\<exists>e. a = Inl e)))
    | Inr (w', es') \<Rightarrow>
        idem = Idempotent \<and> n \<le> max_retries policy \<and>
        (\<exists>e. is_retryable e \<and> attempts es' = Inl e # attempts es)"
proof -
  have d: "decide policy e idem n = RetrySameConnection b \<Longrightarrow> idem = Idempotent \<and> n \<le> max_retries policy \<and> is_retryable e"
    "decide policy e idem n = ReconnectThenRetry b \<Longrightarrow> idem = Idempotent \<and> n \<le> max_retries policy \<and> is_retryable e" for e b
    using decide_retries [of policy e idem n] by auto
  show ?thesis unfolding assms [symmetric]
    by (auto simp: retry_round_def logged_def Let_def split: prod.splits sum.splits retry_action.splits if_splits dest: d)
qed

text \<open>The log is only watching.\<close>

lemma retry_round_unlogged:
  "retry_round env policy idem n w =
     map_sum (\<lambda>(r, w, es). (r, w)) fst (retry_round (logged env) policy idem n (w, es))"
  by (auto simp: retry_round_def logged_def Let_def split: prod.splits sum.splits retry_action.splits if_splits)

definition loop_ok :: "nat \<Rightarrow> idempotency \<Rightarrow> 'a driver_res \<Rightarrow> 'a driver_res list \<Rightarrow> bool" where
  "loop_ok budget idem r ls \<longleftrightarrow> length ls \<le> budget + 1 \<and> (idem = NonIdempotent \<longrightarrow> length ls \<le> 1) \<and>
     (\<forall>a\<in>set (tl ls). \<exists>e. a = Inl e \<and> is_retryable e) \<and> (\<forall>v. r = Inr v \<longrightarrow> ls \<noteq> [] \<and> hd ls = Inr v)"

lemma loop_ok_snoc:
  assumes "loop_ok budget Idempotent r ls" "is_retryable e"
  shows "loop_ok (Suc budget) Idempotent r (ls @ [Inl e])"
  using assms by (cases ls) (auto simp: loop_ok_def)

lemma loop_ok_end:
  "loop_ok budget idem (Inl e) []" "loop_ok budget idem a [a]" "loop_ok budget idem (Inl e) [a]"
  by (simp_all add: loop_ok_def)

lemma unat_below_largest: "(n :: u32) \<noteq> - 1 \<Longrightarrow> unat n < 2 ^ 32 - 1"
proof -
  assume "n \<noteq> - 1"
  then have "unat n \<noteq> unat (- 1 :: u32)" using word_unat_eq_iff by blast
  moreover have "unat (- 1 :: u32) = 2 ^ 32 - 1" by (simp add: unsigned_minus_1_eq_mask mask_eq_exp_minus_1)
  moreover have "unat n < 2 ^ 32" using unsigned_less [of n] by simp
  ultimately show ?thesis by linarith
qed

lemma run_inner_logged:
  assumes "max_retries policy \<noteq> - 1" "unat n \<le> unat (max_retries policy)"
  shows "\<exists>r w' es' ls. run_inner (logged env) policy idem n (w, es) = Some (r, w', es') \<and>
    run_inner env policy idem n w = Some (r, w') \<and>
    attempts es' = ls @ attempts es \<and> loop_ok (unat (max_retries policy) - unat n) idem r ls"
  using assms(2)
proof (induction "unat (max_retries policy) - unat n" arbitrary: n w es rule: less_induct)
  case less
  have "unat (max_retries policy) < 2 ^ 32 - 1" using assms(1) by (rule unat_below_largest)
  then have n1: "unat (n + 1) = unat n + 1" using less.prems by (simp add: unat_word_ariths)
  let ?s = "retry_round (logged env) policy idem (n + 1) (w, es)"
  note round = retry_round_logged [of env policy idem "n + 1" w es ?s, OF refl]
    retry_round_unlogged [of env policy idem "n + 1" w es]
  show ?case
  proof (cases ?s)
    case (Inl x)
    obtain r w' es' where x: "x = (r, w', es')" by (cases x) auto
    have "run_inner (logged env) policy idem n (w, es) = Some (r, w', es')" "run_inner env policy idem n w = Some (r, w')"
      using Inl round(2) by (simp_all add: run_inner.simps x)
    moreover obtain ls where "attempts es' = ls @ attempts es" "loop_ok (unat (max_retries policy) - unat n) idem r ls"
      using loop_ok_end round(1) by (fastforce simp: Inl x)
    ultimately show ?thesis by blast
  next
    case (Inr x)
    obtain w1 es1 where x: "x = (w1, es1)" by (cases x)
    from round(1) obtain e where 1: "idem = Idempotent" "n + 1 \<le> max_retries policy" "is_retryable e"
      "attempts es1 = Inl e # attempts es"
      by (auto simp: Inr x)
    have "unat (n + 1) \<le> unat (max_retries policy)" using 1(2) by (simp add: word_le_nat_alt)
    moreover from this n1 have "unat (max_retries policy) - unat (n + 1) < unat (max_retries policy) - unat n" by linarith
    ultimately obtain r w' es' ls where
      2: "run_inner (logged env) policy idem (n + 1) (w1, es1) = Some (r, w', es')"
        "run_inner env policy idem (n + 1) w1 = Some (r, w')" "attempts es' = ls @ attempts es1"
        "loop_ok (unat (max_retries policy) - unat (n + 1)) idem r ls"
      using less.hyps [of "n + 1" w1 es1] by blast
    have "run_inner (logged env) policy idem n (w, es) = Some (r, w', es')" "run_inner env policy idem n w = Some (r, w')"
      using 2 Inr round(2) by (simp_all add: run_inner.simps [of _ _ _ n] x)
    moreover have "loop_ok (unat (max_retries policy) - unat n) idem r (ls @ [Inl e])"
    proof -
      have "unat (max_retries policy) - unat n = Suc (unat (max_retries policy) - unat (n + 1))"
        using n1 \<open>unat (n + 1) \<le> unat (max_retries policy)\<close> by linarith
      then show ?thesis using loop_ok_snoc [of _ r ls e] 2(4) 1(1,3) by simp
    qed
    ultimately show ?thesis using 2(3) 1(4) by fastforce
  qed
qed


definition busy_env :: "(nat, nat) retry_env" where
  "busy_env =
     \<lparr>checkpoint = (\<lambda>w. (Inr (), w)),
      operation = (\<lambda>w. (if w < 2 then Inl (CallTimeout 0) else Inr w, Suc w)),
      backoff_sleep = (\<lambda>d w. (Inr (), w)), reconnect = no_reconnect\<rparr>"


text \<open>The budget of 4294967295 retries is no budget: the attempt counter wraps to 0 and is never above it.\<close>

lemma largest_budget_unbounded:
  "max_retries policy = - 1 \<Longrightarrow> retry_hint err \<noteq> Never \<Longrightarrow> decide policy err Idempotent n \<noteq> Surface"
  by (auto simp: decide_def Let_def split: retry_advice.splits)

text \<open>
  The backoff schedule in closed form: it doubles from the base until the cap, and never exceeds the cap.
\<close>

lemma backoff_for_closed:
  assumes "max_backoff policy \<le> duration_max"
  shows "backoff_for policy n = min (base_backoff policy * 2 ^ min (unat n - 1) 31) (max_backoff policy)"
  using assms by (auto simp: backoff_for_def Let_def min_def)

lemma backoff_for_mono:
  assumes "max_backoff policy \<le> duration_max" "unat m \<le> unat n"
  shows "backoff_for policy m \<le> backoff_for policy n \<and> backoff_for policy n \<le> max_backoff policy"
proof -
  have "(2 :: nat) ^ min (unat m - 1) 31 \<le> 2 ^ min (unat n - 1) 31"
    using assms(2) by (intro power_increasing) auto
  then have "base_backoff policy * 2 ^ min (unat m - 1) 31 \<le> base_backoff policy * 2 ^ min (unat n - 1) 31"
    by (rule mult_le_mono2)
  then show ?thesis unfolding backoff_for_closed [OF assms(1)]
    by (intro conjI min.mono order.refl min.cobounded2)
qed

end
