(* ===== verification/Session_Recovery.thy ===== *)
theory Session_Recovery
  imports Transitions Error_Taxonomy
begin

text \<open>
  Recovery of a session after a cancelled call (\<^verbatim>\<open>crates/oracledb/src/recovery.rs\<close>,
  \<^verbatim>\<open>SessionRecovery\<close>, and its callers in \<^verbatim>\<open>lib.rs\<close>): the phase byte that the connection shares with
  its cancel handles, the atomic operations on it, and the steps of the two kinds of thread. The owner of the
  connection sends requests, reads responses, drains the wire and closes; any number of \<^verbatim>\<open>CancelHandle\<close>s
  send BREAK markers. Every load, store and compare-and-exchange is one step, so the relation has all
  interleavings. Whether a write or a drain succeeds is left open; the write lock is not modelled, and a drain
  that fails because of it is one of the drains that fail.
\<close>

subsection \<open>Phases\<close>

datatype phase = Ready | InFlight | BreakSent | Draining | Dead

fun phase_u8 :: "phase \<Rightarrow> byte" where
  "phase_u8 Ready = 0"
| "phase_u8 InFlight = 1"
| "phase_u8 BreakSent = 2"
| "phase_u8 Draining = 3"
| "phase_u8 Dead = 4"

definition phase_from_u8 :: "byte \<Rightarrow> phase" where
  "phase_from_u8 value =
     (if value = 0 then Ready else if value = 1 then InFlight else if value = 2 then BreakSent
      else if value = 3 then Draining else Dead)"

lemma phase_from_u8_u8 [simp]: "phase_from_u8 (phase_u8 p) = p"
  by (cases p) (simp_all add: phase_from_u8_def)

lemma phase_u8_inj [simp]: "phase_u8 p = phase_u8 q \<longleftrightarrow> p = q"
  by (metis phase_from_u8_u8)

definition compare_exchange :: "phase \<Rightarrow> phase \<Rightarrow> byte \<Rightarrow> (byte + byte) \<times> byte" where
  "compare_exchange current new cell =
     (if cell = phase_u8 current then (Inr cell, phase_u8 new) else (Inl cell, cell))"

definition new_recovery :: byte where
  "new_recovery = phase_u8 Ready"

definition is_dead :: "byte \<Rightarrow> bool" where
  "is_dead cell \<longleftrightarrow> phase_from_u8 cell = Dead"

definition closed :: driver_error where
  "closed = ConnectionClosed ''connection is closed''"

definition still_in_flight :: driver_error where
  "still_in_flight = ConnectionClosed ''operation attempted while a response is still in flight''"

definition recovery_pending :: driver_error where
  "recovery_pending = ConnectionClosed ''operation attempted while session recovery is pending''"

definition already_draining :: driver_error where
  "already_draining = ConnectionClosed ''session recovery is already draining''"

definition not_draining :: driver_error where
  "not_draining = ConnectionClosed ''session recovery did not enter draining state''"

subsection \<open>Operations on the phase\<close>

definition begin_operation :: "byte \<Rightarrow> unit driver_res \<times> byte" where
  "begin_operation cell =
     (case compare_exchange Ready InFlight cell of
        (Inr _, cell) \<Rightarrow> (Inr (), cell)
      | (Inl current, cell) \<Rightarrow>
          (case phase_from_u8 current of
             InFlight \<Rightarrow> Inl still_in_flight
           | BreakSent \<Rightarrow> Inl recovery_pending
           | Draining \<Rightarrow> Inl recovery_pending
           | Dead \<Rightarrow> Inl closed
           | Ready \<Rightarrow> Inr (), cell))"

definition begin_or_adopt_operation :: "byte \<Rightarrow> unit driver_res \<times> byte" where
  "begin_or_adopt_operation cell =
     (case compare_exchange Ready InFlight cell of
        (Inr _, cell) \<Rightarrow> (Inr (), cell)
      | (Inl current, cell) \<Rightarrow>
          (case phase_from_u8 current of
             InFlight \<Rightarrow> Inr ()
           | BreakSent \<Rightarrow> Inl recovery_pending
           | Draining \<Rightarrow> Inl recovery_pending
           | Dead \<Rightarrow> Inl closed
           | Ready \<Rightarrow> Inr (), cell))"

definition complete_operation :: "byte \<Rightarrow> byte" where
  "complete_operation cell = snd (compare_exchange InFlight Ready cell)"

definition mark_break_required :: "byte \<Rightarrow> byte" where
  "mark_break_required cell = snd (compare_exchange InFlight BreakSent cell)"

text \<open>
  The loop of \<^verbatim>\<open>mark_break_sent\<close> in its two atomic parts: the load, which returns or goes on with the
  phase it saw, and the exchange, which may find the phase changed and go round again.
\<close>

definition mark_break_sent_load :: "byte \<Rightarrow> unit driver_res + phase" where
  "mark_break_sent_load cell =
     (case phase_from_u8 cell of
        Dead \<Rightarrow> Inl (Inl closed)
      | BreakSent \<Rightarrow> Inl (Inr ())
      | Draining \<Rightarrow> Inl (Inr ())
      | current \<Rightarrow> Inr current)"

definition mark_break_sent_exchange :: "phase \<Rightarrow> byte \<Rightarrow> bool \<times> byte" where
  "mark_break_sent_exchange current cell =
     (case compare_exchange current BreakSent cell of (Inr _, cell) \<Rightarrow> (True, cell) | (Inl _, cell) \<Rightarrow> (False, cell))"

definition begin_pending_drain :: "byte \<Rightarrow> bool driver_res \<times> byte" where
  "begin_pending_drain cell =
     (case compare_exchange BreakSent Draining cell of
        (Inr _, cell) \<Rightarrow> (Inr True, cell)
      | (Inl current, cell) \<Rightarrow>
          (case phase_from_u8 current of
             Ready \<Rightarrow> Inr False
           | InFlight \<Rightarrow> Inl still_in_flight
           | Draining \<Rightarrow> Inl already_draining
           | BreakSent \<Rightarrow> Inr False
           | Dead \<Rightarrow> Inl closed, cell))"

text \<open>The second half of \<^verbatim>\<open>begin_drain_after_break\<close>, after the loop that marks the break.\<close>

definition drain_after_break :: "byte \<Rightarrow> unit driver_res \<times> byte" where
  "drain_after_break cell =
     (case begin_pending_drain cell of
        (Inl err, cell) \<Rightarrow> (Inl err, cell)
      | (Inr True, cell) \<Rightarrow> (Inr (), cell)
      | (Inr False, cell) \<Rightarrow> (Inl not_draining, cell))"

definition finish_drain_ready :: "byte \<Rightarrow> byte" where
  "finish_drain_ready cell = phase_u8 Ready"

definition mark_dead :: "byte \<Rightarrow> byte" where
  "mark_dead cell = phase_u8 Dead"

definition should_send_break_request :: "byte \<Rightarrow> bool driver_res" where
  "should_send_break_request cell =
     (case phase_from_u8 cell of
        Dead \<Rightarrow> Inl closed
      | BreakSent \<Rightarrow> Inr False
      | Draining \<Rightarrow> Inr False
      | Ready \<Rightarrow> Inr True
      | InFlight \<Rightarrow> Inr True)"

lemmas phase_ops = compare_exchange_def begin_operation_def begin_or_adopt_operation_def complete_operation_def
  mark_break_required_def mark_break_sent_load_def mark_break_sent_exchange_def begin_pending_drain_def
  drain_after_break_def finish_drain_ready_def mark_dead_def should_send_break_request_def

text \<open>What each operation does to a phase, on every branch.\<close>

lemma phase_ops_simps [simp]:
  "begin_operation (phase_u8 p) =
     (case p of Ready \<Rightarrow> Inr () | InFlight \<Rightarrow> Inl still_in_flight | Dead \<Rightarrow> Inl closed | _ \<Rightarrow> Inl recovery_pending,
      phase_u8 (if p = Ready then InFlight else p))"
  "begin_or_adopt_operation (phase_u8 p) =
     (case p of Ready \<Rightarrow> Inr () | InFlight \<Rightarrow> Inr () | Dead \<Rightarrow> Inl closed | _ \<Rightarrow> Inl recovery_pending,
      phase_u8 (if p = Ready then InFlight else p))"
  "complete_operation (phase_u8 p) = phase_u8 (if p = InFlight then Ready else p)"
  "mark_break_required (phase_u8 p) = phase_u8 (if p = InFlight then BreakSent else p)"
  "mark_break_sent_load (phase_u8 p) =
     (case p of Dead \<Rightarrow> Inl (Inl closed) | BreakSent \<Rightarrow> Inl (Inr ()) | Draining \<Rightarrow> Inl (Inr ()) | _ \<Rightarrow> Inr p)"
  "mark_break_sent_exchange current (phase_u8 p) = (p = current, phase_u8 (if p = current then BreakSent else p))"
  "begin_pending_drain (phase_u8 p) =
     (case p of BreakSent \<Rightarrow> Inr True | Ready \<Rightarrow> Inr False | InFlight \<Rightarrow> Inl still_in_flight
        | Draining \<Rightarrow> Inl already_draining | Dead \<Rightarrow> Inl closed,
      phase_u8 (if p = BreakSent then Draining else p))"
  "drain_after_break (phase_u8 p) =
     (case p of BreakSent \<Rightarrow> Inr () | Ready \<Rightarrow> Inl not_draining | InFlight \<Rightarrow> Inl still_in_flight
        | Draining \<Rightarrow> Inl already_draining | Dead \<Rightarrow> Inl closed,
      phase_u8 (if p = BreakSent then Draining else p))"
  "should_send_break_request (phase_u8 p) =
     (case p of Dead \<Rightarrow> Inl closed | Ready \<Rightarrow> Inr True | InFlight \<Rightarrow> Inr True | _ \<Rightarrow> Inr False)"
  by (simp_all add: phase_ops split: phase.split del: phase_u8.simps)

subsection \<open>The threads\<close>

text \<open>
  Where the owner is: idle; writing a request, without or with the phase claimed first; reading a response under
  the drop guard; in the two halves of \<^verbatim>\<open>ensure_clean_before_request\<close>; in the loop of
  \<^verbatim>\<open>begin_drain_after_break\<close>, after its load and after it; draining the wire; about to reset the phase after
  a completed cancel response.
\<close>

datatype owner_pc =
    OIdle | OSending | OClaimed | OReading | OMark | OPending | OBreak | OLoaded phase | OAfterBreak | ODraining
  | OReconcile

text \<open>Where a handle is: idle, past the first check, past the check under the lock, and in the marking loop.\<close>

datatype handle_pc = HIdle | HChecked | HSending | HLoop | HLoaded phase

text \<open>
  The shared phase, the \<^verbatim>\<open>dead\<close> flag of the connection, the threads, and whether the response of a request
  that was sent, wholly or in part, is still to be read from the wire.
\<close>

record recovery_state =
  cell :: byte
  conn_dead :: bool
  owner :: owner_pc
  handles :: "nat \<Rightarrow> handle_pc"
  outstanding :: bool

definition recovery_init :: "recovery_state \<Rightarrow> bool" where
  "recovery_init s \<longleftrightarrow> cell s = new_recovery \<and> \<not> conn_dead s \<and> owner s = OIdle \<and> handles s = (\<lambda>_. HIdle) \<and> \<not> outstanding s"

text \<open>
  A request is written with the phase as it is, except by the speculative fetch, which claims the phase first and
  marks the session dead when the write fails. Reading a response starts with the guard; the future may be dropped
  while it writes or reads.
\<close>

inductive owner_step :: "recovery_state \<Rightarrow> recovery_state \<Rightarrow> bool" where
  send: "owner s = OIdle \<Longrightarrow> owner_step s (s\<lparr>owner := OSending, outstanding := True\<rparr>)"
| send_dropped: "owner s = OSending \<Longrightarrow> owner_step s (s\<lparr>owner := OIdle\<rparr>)"
| arm:
  "owner s \<in> {OIdle, OSending} \<Longrightarrow> begin_or_adopt_operation (cell s) = (r, c) \<Longrightarrow>
   owner_step s (s\<lparr>cell := c, owner := (case r of Inr _ \<Rightarrow> OReading | Inl _ \<Rightarrow> OIdle)\<rparr>)"
| claim:
  "owner s = OIdle \<Longrightarrow> begin_operation (cell s) = (Inr (), c) \<Longrightarrow>
   owner_step s (s\<lparr>cell := c, owner := OClaimed, outstanding := True\<rparr>)"
| claimed_sent: "owner s = OClaimed \<Longrightarrow> owner_step s (s\<lparr>owner := OIdle\<rparr>)"
| claimed_failed:
  "owner s = OClaimed \<Longrightarrow> owner_step s (s\<lparr>cell := mark_dead (cell s), conn_dead := True, owner := OIdle\<rparr>)"
| disarm:
  "owner s = OReading \<Longrightarrow>
   owner_step s (s\<lparr>cell := complete_operation (cell s), owner := OIdle, outstanding := False\<rparr>)"
| read_dropped: "owner s = OReading \<Longrightarrow> owner_step s (s\<lparr>cell := mark_break_required (cell s), owner := OIdle\<rparr>)"
| gave_up:
  "owner s \<in> {OIdle, OReading} \<Longrightarrow> owner_step s (s\<lparr>cell := mark_dead (cell s), conn_dead := conn_dead s \<or> flag\<rparr>)"
| ensure_clean:
  "owner s = OIdle \<Longrightarrow>
   owner_step s (s\<lparr>owner := (if phase_from_u8 (cell s) = InFlight then OMark else OPending)\<rparr>)"
| ensure_mark: "owner s = OMark \<Longrightarrow> owner_step s (s\<lparr>cell := mark_break_required (cell s), owner := OPending\<rparr>)"
| ensure_drain:
  "owner s = OPending \<Longrightarrow> begin_pending_drain (cell s) = (r, c) \<Longrightarrow>
   owner_step s (s\<lparr>cell := c, owner := (if r = Inr True then ODraining else OIdle)\<rparr>)"
| break_begin: "owner s = OIdle \<Longrightarrow> owner_step s (s\<lparr>owner := OBreak\<rparr>)"
| break_load:
  "owner s = OBreak \<Longrightarrow>
   owner_step s (s\<lparr>owner := (case mark_break_sent_load (cell s) of
      Inl (Inl _) \<Rightarrow> OIdle | Inl (Inr _) \<Rightarrow> OAfterBreak | Inr current \<Rightarrow> OLoaded current)\<rparr>)"
| break_exchange:
  "owner s = OLoaded current \<Longrightarrow> mark_break_sent_exchange current (cell s) = (ok, c) \<Longrightarrow>
   owner_step s (s\<lparr>cell := c, owner := (if ok then OAfterBreak else OBreak)\<rparr>)"
| break_drain:
  "owner s = OAfterBreak \<Longrightarrow> drain_after_break (cell s) = (r, c) \<Longrightarrow>
   owner_step s (s\<lparr>cell := c, owner := (if r = Inr () then ODraining else OIdle)\<rparr>)"
| drained:
  "owner s = ODraining \<Longrightarrow>
   owner_step s (s\<lparr>cell := finish_drain_ready (cell s), owner := OIdle, outstanding := False\<rparr>)"
| drain_failed:
  "owner s = ODraining \<Longrightarrow> owner_step s (s\<lparr>cell := mark_dead (cell s), conn_dead := True, owner := OIdle\<rparr>)"
| reconcile:
  "owner s = OIdle \<Longrightarrow> \<not> outstanding s \<Longrightarrow> phase_from_u8 (cell s) = BreakSent \<Longrightarrow> owner_step s (s\<lparr>owner := OReconcile\<rparr>)"
| reconciled: "owner s = OReconcile \<Longrightarrow> owner_step s (s\<lparr>cell := finish_drain_ready (cell s), owner := OIdle\<rparr>)"

inductive handle_step :: "nat \<Rightarrow> recovery_state \<Rightarrow> recovery_state \<Rightarrow> bool" for i where
  check:
  "handles s i = HIdle \<Longrightarrow> should_send_break_request (cell s) = Inr True \<Longrightarrow>
   handle_step i s (s\<lparr>handles := (handles s)(i := HChecked)\<rparr>)"
| recheck:
  "handles s i = HChecked \<Longrightarrow>
   handle_step i s (s\<lparr>handles := (handles s)
     (i := (if should_send_break_request (cell s) = Inr True then HSending else HIdle))\<rparr>)"
| recovery_check:
  "handles s i = HIdle \<Longrightarrow> should_send_break_request (cell s) = Inr True \<Longrightarrow>
   handle_step i s (s\<lparr>handles := (handles s)(i := HSending)\<rparr>)"
| abandoned: "handles s i \<in> {HChecked, HSending} \<Longrightarrow> handle_step i s (s\<lparr>handles := (handles s)(i := HIdle)\<rparr>)"
| marker_sent: "handles s i = HSending \<Longrightarrow> handle_step i s (s\<lparr>handles := (handles s)(i := HLoop)\<rparr>)"
| marker_failed:
  "handles s i = HSending \<Longrightarrow>
   handle_step i s (s\<lparr>cell := mark_dead (cell s), handles := (handles s)(i := HIdle)\<rparr>)"
| mark_load:
  "handles s i = HLoop \<Longrightarrow>
   handle_step i s (s\<lparr>handles := (handles s)
     (i := (case mark_break_sent_load (cell s) of Inl _ \<Rightarrow> HIdle | Inr current \<Rightarrow> HLoaded current))\<rparr>)"
| mark_exchange:
  "handles s i = HLoaded current \<Longrightarrow> mark_break_sent_exchange current (cell s) = (ok, c) \<Longrightarrow>
   handle_step i s (s\<lparr>cell := c, handles := (handles s)(i := (if ok then HIdle else HLoop))\<rparr>)"

definition recovery_step :: "recovery_state \<Rightarrow> recovery_state \<Rightarrow> bool" where
  "recovery_step s s' \<longleftrightarrow> owner_step s s' \<or> (\<exists>i. handle_step i s s')"

subsection \<open>The invariant\<close>

text \<open>
  The phases possible at each point of the owner, whatever the handles do. Only the owner drains, and only it
  leaves the phase of a pending break.
\<close>

fun phases_at :: "owner_pc \<Rightarrow> phase set" where
  "phases_at OSending = {Ready, InFlight, BreakSent, Dead}"
| "phases_at OClaimed = {InFlight, BreakSent, Dead}"
| "phases_at OReading = {InFlight, BreakSent, Dead}"
| "phases_at OMark = {InFlight, BreakSent, Dead}"
| "phases_at OPending = {Ready, BreakSent, Dead}"
| "phases_at OAfterBreak = {BreakSent, Dead}"
| "phases_at ODraining = {Draining, Dead}"
| "phases_at OReconcile = {BreakSent, Dead}"
| "phases_at _ = {Ready, InFlight, BreakSent, Dead}"

definition phase_at :: "recovery_state \<Rightarrow> phase \<Rightarrow> bool" where
  "phase_at s p \<longleftrightarrow> cell s = phase_u8 p \<and> p \<in> phases_at (owner s)"

definition loads_ok :: "recovery_state \<Rightarrow> bool" where
  "loads_ok s \<longleftrightarrow> (\<forall>p. owner s = OLoaded p \<longrightarrow> p \<in> {Ready, InFlight}) \<and>
     (\<forall>i p. handles s i = HLoaded p \<longrightarrow> p \<in> {Ready, InFlight})"

definition recovery_ok :: "recovery_state \<Rightarrow> bool" where
  "recovery_ok s \<longleftrightarrow> (\<exists>p. phase_at s p) \<and> loads_ok s"

lemma new_recovery_phase: "new_recovery = phase_u8 Ready"
  by (simp add: new_recovery_def)

lemma stores [simp]: "finish_drain_ready c = phase_u8 Ready" "mark_dead c = phase_u8 Dead"
  by (simp_all add: finish_drain_ready_def mark_dead_def)

lemma phases_at_closed:
  "Dead \<in> phases_at pc" "p \<in> phases_at pc \<Longrightarrow> p \<in> {Ready, InFlight} \<Longrightarrow> BreakSent \<in> phases_at pc"
  by (cases pc; auto)+

lemma owner_step_phase:
  assumes "owner_step s s'" "phase_at s p" "loads_ok s"
  shows "\<exists>q. phase_at s' q"
  using assms
  by cases (auto simp: phase_at_def loads_ok_def split: phase.splits if_splits sum.splits simp del: phase_u8.simps)

lemma owner_step_loads:
  assumes "owner_step s s'" "phase_at s p" "loads_ok s"
  shows "loads_ok s'"
  using assms
  by cases (auto simp: phase_at_def loads_ok_def split: phase.splits if_splits sum.splits simp del: phase_u8.simps)

lemma handle_step_phase:
  assumes "handle_step i s s'" "phase_at s p" "loads_ok s"
  shows "\<exists>q. phase_at s' q"
  using assms
  by cases (auto simp: phase_at_def loads_ok_def phases_at_closed split: if_splits simp del: phase_u8.simps
      intro: phases_at_closed(2))

lemma handle_step_loads:
  assumes "handle_step i s s'" "phase_at s p" "loads_ok s"
  shows "loads_ok s'"
  using assms
  by cases (auto simp: phase_at_def loads_ok_def split: phase.splits if_splits simp del: phase_u8.simps)

interpretation recovery: state_machine recovery_init recovery_step recovery_ok
proof
  show "recovery_init s \<Longrightarrow> recovery_ok s" for s
    by (auto simp: recovery_init_def recovery_ok_def phase_at_def loads_ok_def new_recovery_phase simp del: phase_u8.simps)
  show "recovery_ok s \<Longrightarrow> recovery_step s s' \<Longrightarrow> recovery_ok s'" for s s'
    unfolding recovery_ok_def recovery_step_def
    using owner_step_phase owner_step_loads handle_step_phase handle_step_loads by meson
qed

text \<open>
  C7. Draining is exclusive and never refused by mistake. Under every interleaving of the owner with any number of
  cancel handles, the phase byte is a phase, it is Draining only while the owner drains, and while the owner drains
  it is Draining or Dead. A request that must first drain finds the phase pending, ready or dead, never in flight or
  already draining; after a break the drain starts unless the session is dead, so the error for a session that did
  not enter the draining state is never raised.
\<close>

theorem recovery_exclusive:
  assumes "reachable recovery_init recovery_step s"
  shows "(\<exists>p. cell s = phase_u8 p) \<and>
    (phase_from_u8 (cell s) = Draining \<longrightarrow> owner s = ODraining) \<and>
    (owner s = ODraining \<longrightarrow> phase_from_u8 (cell s) \<in> {Draining, Dead}) \<and>
    (owner s = OPending \<longrightarrow> fst (begin_pending_drain (cell s)) \<in> {Inr True, Inr False, Inl closed}) \<and>
    (owner s = OAfterBreak \<longrightarrow> fst (drain_after_break (cell s)) \<in> {Inr (), Inl closed})"
proof -
  obtain p where p: "cell s = phase_u8 p" "p \<in> phases_at (owner s)"
    using recovery.reachable_inv [OF assms] by (auto simp: recovery_ok_def phase_at_def)
  then show ?thesis by (cases "owner s") (auto split: phase.splits simp del: phase_u8.simps)
qed

subsection \<open>Unread responses\<close>

text \<open>
  The steps other than the drop of a future that is writing a request while the phase is Ready. The unread response of
  such a request is recorded nowhere.
\<close>

definition guarded_step :: "recovery_state \<Rightarrow> recovery_state \<Rightarrow> bool" where
  "guarded_step s s' \<longleftrightarrow> recovery_step s s' \<and> \<not> (owner s = OSending \<and> owner s' = OIdle \<and> phase_from_u8 (cell s) = Ready)"

definition wire_ok :: "recovery_state \<Rightarrow> bool" where
  "wire_ok s \<longleftrightarrow> recovery_ok s \<and> (owner s = OReconcile \<longrightarrow> \<not> outstanding s) \<and>
     (cell s = phase_u8 Ready \<longrightarrow> outstanding s \<longrightarrow> owner s = OSending)"

lemma owner_step_wire:
  assumes "owner_step s s'" "\<not> (owner s = OSending \<and> owner s' = OIdle \<and> phase_from_u8 (cell s) = Ready)"
    "phase_at s p" "owner s = OReconcile \<longrightarrow> \<not> outstanding s" "cell s = phase_u8 Ready \<longrightarrow> outstanding s \<longrightarrow> owner s = OSending"
  shows "(owner s' = OReconcile \<longrightarrow> \<not> outstanding s') \<and>
    (cell s' = phase_u8 Ready \<longrightarrow> outstanding s' \<longrightarrow> owner s' = OSending)"
  using assms
  by cases (auto simp: phase_at_def split: phase.splits if_splits sum.splits simp del: phase_u8.simps)

lemma handle_step_wire:
  assumes "handle_step i s s'" "phase_at s p"
  shows "owner s' = owner s \<and> outstanding s' = outstanding s \<and> (cell s' = phase_u8 Ready \<longrightarrow> cell s = phase_u8 Ready)"
  using assms by cases (auto simp: phase_at_def split: if_splits simp del: phase_u8.simps)

interpretation guarded: state_machine recovery_init guarded_step wire_ok
proof
  show "recovery_init s \<Longrightarrow> wire_ok s" for s
    using recovery.init_inv [of s] by (auto simp: wire_ok_def recovery_init_def)
  show "wire_ok s'" if "wire_ok s" "guarded_step s s'" for s s'
  proof -
    from that(1) obtain p where "phase_at s p" by (auto simp: wire_ok_def recovery_ok_def)
    with that recovery.step_inv [of s s'] show ?thesis
      unfolding guarded_step_def recovery_step_def wire_ok_def
      using owner_step_wire [of s s' p] handle_step_wire [of _ s s' p] by metis
  qed
qed


subsection \<open>Concrete runs\<close>

text \<open>States with one handle at work.\<close>

definition run_at :: "phase \<Rightarrow> owner_pc \<Rightarrow> handle_pc \<Rightarrow> bool \<Rightarrow> recovery_state" where
  "run_at p pc h unread = \<lparr>cell = phase_u8 p, conn_dead = False, owner = pc, handles = (\<lambda>_. HIdle)(0 := h), outstanding = unread\<rparr>"

lemma at_init: "recovery_init (run_at Ready OIdle HIdle False)"
  by (auto simp: recovery_init_def run_at_def new_recovery_phase simp del: phase_u8.simps)

lemma at_owner:
  "owner_step (run_at Ready OIdle h False) (run_at Ready OSending h True)"
  "owner_step (run_at Ready OSending h True) (run_at Ready OIdle h True)"
  "owner_step (run_at Ready OSending h True) (run_at InFlight OReading h True)"
  "owner_step (run_at InFlight OReading h True) (run_at BreakSent OIdle h True)"
  "owner_step (run_at BreakSent OIdle h True) (run_at BreakSent OPending h True)"
  "owner_step (run_at BreakSent OPending h True) (run_at Draining ODraining h True)"
  "owner_step (run_at Dead ODraining h True) (run_at Ready OIdle h False)"
  "owner_step (run_at Draining ODraining h True) (run_at Ready OIdle h False)"
  using send [of "run_at Ready OIdle h False"] send_dropped [of "run_at Ready OSending h True"]
    arm [of "run_at Ready OSending h True"] read_dropped [of "run_at InFlight OReading h True"]
    ensure_clean [of "run_at BreakSent OIdle h True"] ensure_drain [of "run_at BreakSent OPending h True"]
    drained [of "run_at Dead ODraining h True"] drained [of "run_at Draining ODraining h True"]
  by (simp_all add: run_at_def del: phase_u8.simps)

lemma at_handle:
  "handle_step 0 (run_at InFlight pc HIdle u) (run_at InFlight pc HSending u)"
  "handle_step 0 (run_at Draining pc HSending u) (run_at Dead pc HIdle u)"
  using recovery_check [of "run_at InFlight pc HIdle u" 0] marker_failed [of "run_at Draining pc HSending u" 0]
  by (simp_all add: run_at_def del: phase_u8.simps)

lemma reach_owner: "reachable recovery_init recovery_step s \<Longrightarrow> owner_step s s' \<Longrightarrow> reachable recovery_init recovery_step s'"
  and reach_handle: "reachable recovery_init recovery_step s \<Longrightarrow> handle_step i s s' \<Longrightarrow> reachable recovery_init recovery_step s'"
  using reachable_step [of recovery_init recovery_step s s'] unfolding recovery_step_def by blast+

lemma reach_guarded:
  "reachable recovery_init guarded_step s \<Longrightarrow> owner_step s s' \<Longrightarrow>
   \<not> (owner s = OSending \<and> owner s' = OIdle \<and> phase_from_u8 (cell s) = Ready) \<Longrightarrow> reachable recovery_init guarded_step s'"
  by (auto intro: reachable_step simp: guarded_step_def recovery_step_def)

lemma sending_reachable: "reachable recovery_init recovery_step (run_at Ready OSending HIdle True)"
  by (rule reach_owner [OF reachable_init at_owner(1)]) (rule at_init)

lemma draining_reachable: "reachable recovery_init recovery_step (run_at Draining ODraining HSending True)"
proof -
  have "reachable recovery_init recovery_step (run_at InFlight OReading HSending True)"
    by (rule reach_handle [OF reach_owner [OF sending_reachable at_owner(3)] at_handle(1)])
  then show ?thesis by (rule reach_owner [OF reach_owner [OF reach_owner [OF _ at_owner(4)] at_owner(5)] at_owner(6)])
qed

theorem recovery_exclusive_witness:
  "reachable recovery_init recovery_step (run_at Draining ODraining HSending True) \<and>
   phase_from_u8 (cell (run_at Draining ODraining HSending True)) \<in> {Draining, Dead}"
  using recovery_exclusive [OF draining_reachable] draining_reachable by (simp add: run_at_def del: phase_u8.simps)

lemma drained_reachable: "reachable recovery_init guarded_step (run_at Ready OIdle HIdle False)"
proof -
  have "reachable recovery_init guarded_step (run_at InFlight OReading HIdle True)"
    by (rule reach_guarded [OF reach_guarded [OF reachable_init at_owner(1)] at_owner(3)])
       (simp_all add: at_init, simp_all add: run_at_def)
  then have "reachable recovery_init guarded_step (run_at Draining ODraining HIdle True)"
    by (rule reach_guarded [OF reach_guarded [OF reach_guarded [OF _ at_owner(4)] at_owner(5)] at_owner(6)])
       (simp_all add: run_at_def)
  then show ?thesis by (rule reach_guarded [OF _ at_owner(8)]) (simp add: run_at_def)
qed


text \<open>
  C40. Two gaps of the recovery protocol. A future dropped while it writes its request leaves a response to come, an idle
  owner and the Ready phase, so that the next request is sent without a drain. And a session that a handle marked
  dead, because its marker could not be written, is Ready again once the drain that was running ends.
\<close>

theorem recovery_gaps:
  "(\<exists>s. reachable recovery_init recovery_step s \<and> owner s = OIdle \<and> phase_from_u8 (cell s) = Ready \<and> outstanding s) \<and>
   (\<exists>s s'. reachable recovery_init recovery_step s \<and> is_dead (cell s) \<and> recovery_step s s' \<and>
      \<not> is_dead (cell s') \<and> \<not> conn_dead s' \<and> fst (begin_operation (cell s')) = Inr ())"
proof (intro conjI exI)
  show "reachable recovery_init recovery_step (run_at Ready OIdle HIdle True)"
    by (rule reach_owner [OF sending_reachable at_owner(2)])
  show "reachable recovery_init recovery_step (run_at Dead ODraining HIdle True)"
    by (rule reach_handle [OF draining_reachable at_handle(2)])
  show "recovery_step (run_at Dead ODraining HIdle True) (run_at Ready OIdle HIdle False)"
    using at_owner(7) by (simp add: recovery_step_def)
qed (simp_all add: run_at_def is_dead_def del: phase_u8.simps)

end
