(* ===== verification/Spec2Isabelle.thy ===== *)
theory Spec2Isabelle
  imports Ttc_Fields Version_Gates Tns_Packet Number_Inline Pool_Properties Pool_Safety Datetime_Codec Binary_Float Arrow_Convert Cursor_Safety Batch_Windows Sql_Tokens Vector_Codec Retry_Loop Session_Recovery
begin

text \<open>
  Verification of a thin Oracle database driver. The paths below are relative to
  \<^verbatim>\<open>src/crates\<close>. The crate \<^verbatim>\<open>oracledb-protocol\<close> is free of I/O: it encodes requests, decodes
  responses and analyses SQL text. The crate \<^verbatim>\<open>oracledb\<close> holds connections, their cursor caches, the
  recovery of a session after a cancelled call, retries, and the connection pool. An application takes a
  connection from the pool; an execute analyses the statement, looks for an open cursor, encodes a request
  through the wire codec and frames it in packets; the response goes back through the same codec into
  values. A failed call is classified, which decides about the connection and about a retry.

  \<^bold>\<open>Conventions\<close> (\<open>Driver_Prelude\<close>). Bytes and the integers of the wire are words, so they wrap as in the
  source; counters and sizes are \<open>nat\<close> and signed quantities \<open>int\<close>, with every checked, saturating or
  truncating conversion written out. An error of the source is the left side of a sum, with the
  constructors of \<^verbatim>\<open>ProtocolError\<close>; a method on \<^verbatim>\<open>&mut self\<close> returns the new record. Text is a list
  of bytes in the codecs and ASCII text in the SQL analysis.

  \<^bold>\<open>Wire codec\<close> (\<^verbatim>\<open>oracledb-protocol/src/wire.rs\<close>). \<open>Ttc_Writer\<close> and \<open>Ttc_Reader\<close> hold the records
  \<open>ttc_writer\<close> and \<open>ttc_reader\<close> with one definition per method; \<open>Protocol_Limits\<close> the resource policy and
  the locale \<open>bounded_reader\<close> of what a decoder may rely on. \<open>Ttc_Fields\<close> interprets the locale on
  \<^verbatim>\<open>TtcReader\<close> and shows that integers and length-prefixed fields, long ones in chunks, come back as
  written and leave the reader where the writer stopped, that the three readers of a field agree, and that
  no reader leaves the buffer. \<open>Version_Gates\<close> is \<^verbatim>\<open>thin/version_gates.rs\<close>; \<open>Tns_Packet\<close> is
  \<^verbatim>\<open>packet/mod.rs\<close>, with the round trip of both header widths and the refusal of every strict prefix.

  \<^bold>\<open>Values\<close> (\<^verbatim>\<open>oracledb-protocol/src/thin/codecs.rs\<close>, \<^verbatim>\<open>thin/number.rs\<close>, \<^verbatim>\<open>thin/timezone.rs\<close>,
  \<^verbatim>\<open>vector.rs\<close>).
  \<^item> \<open>Number_Codec\<close> has the \<^verbatim>\<open>NUMBER\<close> encoder and both decoders; \<open>Number_Roundtrip\<close> shows that the
    decoded text denotes the encoded number, over a value of decimal text (\<open>Decimal_Text\<close>);
    \<open>Number_Inline\<close> that the allocation-free path agrees with the heap path.
  \<^item> \<open>Civil_Calendar\<close> shows that the day count is the Gregorian calendar; \<open>Timezone_Regions\<close> that the
    binary search finds every region; \<open>Datetime_Codec\<close> has the round trips of dates, timestamps with
    and without zone and intervals, the ranges of decoded values, and the offsets that are not
    readable; \<open>Binary_Float\<close> the order-preserving form of floats on bit patterns.
  \<^item> \<open>Vector_Codec\<close> has both directions of the \<^verbatim>\<open>VECTOR\<close> image, dense and sparse.
  \<^item> \<open>Arrow_Convert\<close> has the scalar conversions of \<^verbatim>\<open>oracledb/src/arrow\<close>.

  \<^bold>\<open>SQL and statements\<close>.
  \<^item> \<open>Sql_Scan\<close> is \<^verbatim>\<open>oracledb-protocol/src/sql.rs\<close>; \<open>Sql_Tokens\<close> gives statements as tokens and shows
    that the scanner finds exactly the binds of the tokens.
  \<^item> \<open>Shape_Cache\<close> is \<^verbatim>\<open>oracledb/src/shape_cache.rs\<close>; it interprets the locale \<open>simulation\<close> of
    \<open>Refinement\<close>: the cache is determined by the shapes observed for a key.
  \<^item> \<open>Cursor_Cache\<close> has the statement cache and the cursor bookkeeping of \<^verbatim>\<open>Connection\<close>
    (\<^verbatim>\<open>oracledb/src/lib.rs\<close>), with the server as the set of cursors it has open. \<open>Cursor_Safety\<close> shows
    that a reused cursor is open, idle and of the same bind types, and how cursors are lost.
  \<^item> \<open>Batch_Windows\<close> shows that the batch managers of executemany and direct path load
    (\<^verbatim>\<open>oracledb/src/cursor_logic.rs\<close>, \<^verbatim>\<open>oracledb-protocol/src/dpl.rs\<close>) follow one plan.

  \<^bold>\<open>Failure\<close>. \<open>Error_Taxonomy\<close> classifies every error of the driver (\<^verbatim>\<open>oracledb/src/lib.rs\<close>,
  \<^verbatim>\<open>recovery.rs\<close>). \<open>Retry_Loop\<close> is \<^verbatim>\<open>retry.rs\<close> over an arbitrary world. \<open>Session_Recovery\<close> has the
  phase byte of \<^verbatim>\<open>recovery.rs\<close> and the steps of the owner and of the cancel handles, interleaved at every
  atomic access; its invariants say when the wire is clean and who drains it. The theorem at the end of this
  theory joins the statement classes of \<open>Sql_Scan\<close> with the retry loop.

  \<^bold>\<open>Pool\<close> (\<^verbatim>\<open>oracledb/src/pool.rs\<close>, \<^verbatim>\<open>pool/engine.rs\<close>, \<^verbatim>\<open>pool/acquire.rs\<close>). \<open>Pool_Lifecycle\<close> is the
  pure machine of the module \<^verbatim>\<open>lifecycle\<close>, \<open>Pool_Invariant\<close> its invariant and \<open>Pool_Properties\<close> what
  follows for sizes, waiters, cancellation and closing. \<open>Pool_Engine\<close> has the engine in use: each section
  under the state lock is one step, and clients and the reaper interleave. \<open>Pool_Ledger\<close> shows that every
  connection created is in exactly one place or was handed back to the backend; \<open>Pool_Safety\<close> draws the
  consequences and runs concrete pools.

  The locale \<open>state_machine\<close> (\<open>Transitions\<close>) is the contract of an invariant. It is interpreted on the
  lifecycle machine, the engine, the cursor sessions, and twice on session recovery.

  \<^bold>\<open>Termination\<close>. No definition has fuel. Every loop is a total function with a termination proof, except
  the retry loop, a partial function of which it is shown that it returns unless the budget is
  \<^verbatim>\<open>u32::MAX\<close>, where the attempt counter of the source overflows.

  \<^bold>\<open>Parameters\<close>. The pool's backend, the clock, the outcomes of network operations and the replies of the
  server are arguments of the definitions or inputs of the steps; the properties hold for all of them,
  except that the cursor sessions assume a server that answers the execute of an open cursor with that
  cursor and a parse with a cursor that it does not have open.

  \<^bold>\<open>Not modelled\<close>. Sockets, TLS and wallets, the async runtime, pipelining and transactions; the layouts of
  connect, authentication, execute, fetch, LOB, queue, subscription, object and sessionless messages; the
  writers of bind rows; OSON; connect strings; the streams of direct path load; Arrow arrays and schemas;
  row access traits; SODA; tracing; the Python shim, derive macros and test tooling. They are I/O, glue
  around external crates, or message layouts over the codec verified here. SQL text outside ASCII and the
  wrap-around of the pool's 64-bit counters are left out too.
\<close>

section \<open>Statements that change data are not replayed\<close>

lemma changes_not_idempotent:
  assumes "statement_is_plsql sql \<or> statement_is_dml sql \<or> statement_is_ddl sql"
  shows "classify_sql sql = NonIdempotent"
proof -
  let ?kw = "map to_lower (first_keyword sql)"
  have "?kw \<in> set [''begin'', ''declare'', ''call'', ''insert'', ''update'', ''delete'', ''merge'', ''create'',
      ''alter'', ''drop'', ''grant'', ''revoke'', ''analyze'', ''audit'', ''comment'', ''truncate'']"
    using assms
    by (auto simp: statement_is_plsql_def statement_is_dml_def statement_is_ddl_def eq_ignore_case_def
        to_lower_def code_def)
  then have "?kw \<noteq> ''select''"
    by auto
  then show ?thesis
    by (simp add: classify_sql_def first_keyword_def eq_ignore_case_def to_lower_def code_def)
qed



end
